(* ===== verification/Prelude.thy ===== *)
theory Prelude
  imports Main "HOL-Library.Word" "HOL-Library.Sublist"
begin

text \<open>
  Shared vocabulary of the development: machine integer types, byte buffers with the
  offset reads and writes that \<^verbatim>\<open>memcpy\<close> into a buffer amounts to, and the list, option and
  word facts used by several components.

  A byte buffer is a list of bytes; a pointer into a buffer is an offset. Integers of a
  fixed C width are words of that width (so that \<^verbatim>\<open>+\<close> wraps the way C unsigned
  arithmetic does); a C \<^verbatim>\<open>int\<close> that holds a length or an index is an unbounded
  \<^typ>\<open>int\<close> or \<^typ>\<open>nat\<close>, and the development proves the bounds that keep it in range.
\<close>

unbundle bit_operations_syntax

section \<open>Types\<close>

type_synonym u8 = "8 word"
type_synonym u16 = "16 word"
type_synonym u32 = "32 word"
type_synonym u64 = "64 word"
type_synonym size_t = "64 word"
type_synonym bytes = "8 word list"

named_theorems inv_intros \<open>an operation preserves the invariant of its component\<close>
named_theorems refine_simps \<open>an operation of the code read through the abstraction function\<close>
named_theorems buf_simps \<open>offset reads and writes of byte buffers\<close>

definition INT_MAX :: int where
  "INT_MAX = 2147483647"

text \<open>Conversion of an integer value to a C \<^verbatim>\<open>int\<close> (32 bits, two's complement).\<close>

definition c_int :: "int \<Rightarrow> int" where
  "c_int x = sint (word_of_int x :: u32)"

lemma c_int_id [simp]: "- INT_MAX - 1 \<le> x \<Longrightarrow> x \<le> INT_MAX \<Longrightarrow> c_int x = x"
  by (simp add: c_int_def INT_MAX_def sint_sbintrunc' signed_take_bit_int_eq_self)

text \<open>\<^verbatim>\<open>B_COMPARE\<close> of \<^verbatim>\<open>misc/compare.h\<close> is -1, 0 or 1.\<close>

definition B_COMPARE :: "'a::ord \<Rightarrow> 'a \<Rightarrow> int" where
  "B_COMPARE a b = of_bool (a > b) - of_bool (a < b)"

lemma B_COMPARE_simps:
  "B_COMPARE a b = 0 \<longleftrightarrow> a = b" "B_COMPARE a b < 0 \<longleftrightarrow> a < b" "B_COMPARE a b > 0 \<longleftrightarrow> b < a"
  "B_COMPARE b a = - B_COMPARE a b" for a b :: "'a::linorder"
  by (auto simp: B_COMPARE_def not_less_iff_gr_or_eq)

section \<open>Reading and writing a range of a buffer\<close>

definition get_at :: "nat \<Rightarrow> nat \<Rightarrow> 'a list \<Rightarrow> 'a list" where
  "get_at off n buf = take n (drop off buf)"

definition put_at :: "nat \<Rightarrow> 'a list \<Rightarrow> 'a list \<Rightarrow> 'a list" where
  "put_at off xs buf = take off buf @ xs @ drop (off + length xs) buf"

lemma length_put_at [simp, buf_simps]:
  "off + length xs \<le> length buf \<Longrightarrow> length (put_at off xs buf) = length buf"
  by (simp add: put_at_def)

lemma length_get_at [simp, buf_simps]:
  "off + n \<le> length buf \<Longrightarrow> length (get_at off n buf) = n"
  by (simp add: get_at_def)

lemma get_put_same [simp, buf_simps]:
  "off + length xs \<le> length buf \<Longrightarrow> n = length xs \<Longrightarrow> get_at off n (put_at off xs buf) = xs"
  by (simp add: put_at_def get_at_def)

lemma get_put_before [buf_simps]:
  "off + length xs \<le> length buf \<Longrightarrow> o' + n \<le> off \<Longrightarrow>
     get_at o' n (put_at off xs buf) = get_at o' n buf"
  by (simp add: put_at_def get_at_def take_drop min_def)

lemma get_put_after [buf_simps]:
  "off + length xs \<le> length buf \<Longrightarrow> off + length xs \<le> o' \<Longrightarrow>
     get_at o' n (put_at off xs buf) = get_at o' n buf"
  by (simp add: put_at_def get_at_def)

lemma get_at_append_split:
  "get_at off (n + m) buf = get_at off n buf @ get_at (off + n) m buf"
  by (simp add: get_at_def take_add add.commute [of off])

lemma put_at_append:
  "off + length xs + length ys \<le> length buf \<Longrightarrow>
     put_at off xs (put_at (off + length xs) ys buf) = put_at off (xs @ ys) buf"
  by (simp add: put_at_def min_absorb1 min_absorb2 add.assoc)

lemma get_at_0 [simp]: "get_at off 0 buf = []"
  by (simp add: get_at_def)

lemma put_at_nil [simp]: "put_at off [] buf = buf"
  by (simp add: put_at_def)

section \<open>Options\<close>

lemma option_bind_eq_Some:
  "Option.bind x f = Some y \<longleftrightarrow> (\<exists>z. x = Some z \<and> f z = Some y)"
  by (cases x) auto

section \<open>Words\<close>

text \<open>One byte of a word, put back at its position.\<close>

lemma bit_byte_piece:
  fixes x :: "'a::len word"
  shows "bit (push_bit k (ucast (ucast (drop_bit k x) :: u8) :: 'a word)) n \<longleftrightarrow>
           k \<le> n \<and> n < k + 8 \<and> bit x n"
  using bit_imp_le_length [of x n] by (auto simp: bit_simps)

lemma bit_byte_piece_0:
  fixes x :: "'a::len word"
  shows "bit (ucast (ucast x :: u8) :: 'a word) n \<longleftrightarrow> n < 8 \<and> bit x n"
  using bit_imp_le_length [of x n] by (auto simp: bit_simps)

lemma unat_lt: "unat x < 2 ^ LENGTH('a)" for x :: "'a::len word"
  by (fact unsigned_less)

lemma unat_not_ge [simp]: "\<not> 2 ^ LENGTH('a) \<le> unat x" for x :: "'a::len word"
  by (simp add: not_le)

lemma unat_max_word: "unat (- 1 :: 'a::len word) = 2 ^ LENGTH('a) - 1"
  by (simp add: unsigned_minus_1_eq_mask mask_eq_exp_minus_1)

lemma unat_max_minus: "unat ((- 1) - x) = 2 ^ LENGTH('a) - 1 - unat x" for x :: "'a::len word"
  by (simp add: unat_sub unat_max_word)

lemma unat_of_nonneg_int: "0 \<le> v \<Longrightarrow> v < 2 ^ LENGTH('a) \<Longrightarrow> unat (word_of_int v :: 'a::len word) = nat v"
  by (simp add: unat_eq_nat_uint uint_word_of_int_eq take_bit_int_eq_self)

lemma unat_of_nat_small: "n < 2 ^ LENGTH('a) \<Longrightarrow> unat (of_nat n :: 'a::len word) = n"
  by (simp add: unsigned_of_nat take_bit_nat_eq_self)

lemma bit_u8_high: "8 \<le> n \<Longrightarrow> \<not> bit x n" for x :: u8
  by (auto dest: bit_imp_le_length)

end
