(* ===== verification/Bsize.thy ===== *)
theory Bsize
  imports Prelude
begin

text \<open>
  Size arithmetic that keeps track of overflow (\<^verbatim>\<open>misc/bsize.h\<close>), alignment helpers
  (\<^verbatim>\<open>misc/balign.h\<close>) and \<^verbatim>\<open>misc/minmax.h\<close>. The width of \<^verbatim>\<open>size_t\<close> differs between the
  ABIs the application is built for, so the definitions are over words of any length
  \<^typ>\<open>'a::len word\<close>; \<^verbatim>\<open>SIZE_MAX\<close> is the word with all bits set.
\<close>

section \<open>bsize.h\<close>

record (overloaded) 'a bsize_t =
  is_overflow :: bool
  bvalue :: "'a word"

definition bsize_fromsize :: "'a::len word \<Rightarrow> 'a bsize_t" where
  "bsize_fromsize v = \<lparr>is_overflow = False, bvalue = v\<rparr>"

definition bsize_fromint :: "int \<Rightarrow> 'a::len bsize_t" where
  "bsize_fromint v = \<lparr>is_overflow = (v < 0 \<or> word_of_int v > (- 1 :: 'a word)), bvalue = word_of_int v\<rparr>"

definition bsize_overflow :: "'a::len bsize_t" where
  "bsize_overflow = \<lparr>is_overflow = True, bvalue = 0\<rparr>"

definition bsize_tosize :: "'a::len bsize_t \<Rightarrow> 'a word option" where
  "bsize_tosize s = (if is_overflow s then None else Some (bvalue s))"

definition bsize_toint :: "'a::len bsize_t \<Rightarrow> int option" where
  "bsize_toint s = (if is_overflow s \<or> uint (bvalue s) > INT_MAX then None else Some (uint (bvalue s)))"

definition bsize_add :: "'a::len bsize_t \<Rightarrow> 'a bsize_t \<Rightarrow> 'a bsize_t" where
  "bsize_add s1 s2 =
     \<lparr>is_overflow = (is_overflow s1 \<or> is_overflow s2 \<or> bvalue s2 > (- 1) - bvalue s1),
      bvalue = bvalue s1 + bvalue s2\<rparr>"

definition bsize_max :: "'a::len bsize_t \<Rightarrow> 'a bsize_t \<Rightarrow> 'a bsize_t" where
  "bsize_max s1 s2 =
     \<lparr>is_overflow = (is_overflow s1 \<or> is_overflow s2),
      bvalue = of_bool (bvalue s1 > bvalue s2) * bvalue s1 + of_bool (bvalue s1 \<le> bvalue s2) * bvalue s2\<rparr>"

definition bsize_mul :: "'a::len bsize_t \<Rightarrow> 'a bsize_t \<Rightarrow> 'a bsize_t" where
  "bsize_mul s1 s2 =
     \<lparr>is_overflow = (is_overflow s1 \<or> is_overflow s2 \<or>
        (bvalue s1 \<noteq> 0 \<and> bvalue s2 > (- 1) div bvalue s1)),
      bvalue = bvalue s1 * bvalue s2\<rparr>"

section \<open>balign.h\<close>

definition balign_up_overflows :: "'a::len word \<Rightarrow> 'a word \<Rightarrow> bool" where
  "balign_up_overflows x n = (let r = x mod n in r \<noteq> 0 \<and> x > (- 1) - (n - r))"

definition balign_up :: "'a::len word \<Rightarrow> 'a word \<Rightarrow> 'a word" where
  "balign_up x n = (let r = x mod n in if r \<noteq> 0 then x + (n - r) else x)"

definition balign_down :: "'a::len word \<Rightarrow> 'a word \<Rightarrow> 'a word" where
  "balign_down x n = x - (x mod n)"

definition bdivide_up :: "'a::len word \<Rightarrow> 'a word \<Rightarrow> 'a word" where
  "bdivide_up a b = (let r = a mod b in if r > 0 then a div b + 1 else a div b)"

section \<open>minmax.h\<close>

definition bmin :: "'a::ord \<Rightarrow> 'a \<Rightarrow> 'a" where
  "bmin a b = (if a < b then a else b)"

definition bmax :: "'a::ord \<Rightarrow> 'a \<Rightarrow> 'a" where
  "bmax a b = (if a > b then a else b)"

section \<open>Exactness\<close>

text \<open>A size denotes the natural number it stands for, or nothing once some step overflowed.\<close>

definition bsize_nat :: "'a::len bsize_t \<Rightarrow> nat option" where
  "bsize_nat s = map_option unat (bsize_tosize s)"

text \<open>The specification: exact arithmetic on naturals, undefined beyond \<^term>\<open>bound\<close>.\<close>

definition exact :: "nat \<Rightarrow> (nat \<Rightarrow> nat \<Rightarrow> nat) \<Rightarrow> nat option \<Rightarrow> nat option \<Rightarrow> nat option" where
  "exact bound f a b =
     (case (a, b) of (Some x, Some y) \<Rightarrow> if f x y < bound then Some (f x y) else None | _ \<Rightarrow> None)"

lemma bsize_nat_add [refine_simps]:
  "bsize_nat (bsize_add s1 s2) = exact (2 ^ LENGTH('a::len)) (+) (bsize_nat s1) (bsize_nat (s2 :: 'a bsize_t))"
proof -
  have "bvalue s2 > (- 1) - bvalue s1 \<longleftrightarrow> 2 ^ LENGTH('a) \<le> unat (bvalue s1) + unat (bvalue s2)"
    unfolding word_less_nat_alt unat_max_minus using unat_lt [of "bvalue s1"] by linarith
  then show ?thesis
    by (auto simp: bsize_nat_def bsize_tosize_def bsize_add_def exact_def unat_word_ariths)
qed

lemma div_bound_mul: "0 < a \<Longrightarrow> (m - Suc 0) div a < b \<longleftrightarrow> m \<le> a * b" if "0 < m" for a b m :: nat
  using that by (auto simp: div_less_iff_less_mult mult.commute)

lemma bsize_nat_mul [refine_simps]:
  "bsize_nat (bsize_mul s1 s2) = exact (2 ^ LENGTH('a::len)) (*) (bsize_nat s1) (bsize_nat (s2 :: 'a bsize_t))"
proof -
  have "(bvalue s1 \<noteq> 0 \<and> bvalue s2 > (- 1) div bvalue s1) \<longleftrightarrow>
        2 ^ LENGTH('a) \<le> unat (bvalue s1) * unat (bvalue s2)"
    by (cases "bvalue s1 = 0")
       (simp_all add: word_less_nat_alt unat_div unat_max_word div_bound_mul unat_gt_0 unat_lt)
  then show ?thesis
    by (auto simp: bsize_nat_def bsize_tosize_def bsize_mul_def exact_def unat_word_ariths)
qed

lemma bsize_nat_max [refine_simps]:
  "bsize_nat (bsize_max s1 s2) = exact (2 ^ LENGTH('a::len)) max (bsize_nat s1) (bsize_nat (s2 :: 'a bsize_t))"
  by (auto simp: bsize_nat_def bsize_tosize_def bsize_max_def exact_def max_def word_le_nat_alt
      word_less_nat_alt not_le not_less)

lemma bsize_nat_fromsize [refine_simps, simp]: "bsize_nat (bsize_fromsize v) = Some (unat v)"
  by (simp add: bsize_nat_def bsize_tosize_def bsize_fromsize_def)

lemma bsize_nat_overflow [refine_simps, simp]: "bsize_nat bsize_overflow = None"
  by (simp add: bsize_nat_def bsize_tosize_def bsize_overflow_def)

lemma bsize_nat_fromint [refine_simps]:
  "v < 2 ^ LENGTH('a) \<Longrightarrow>
     bsize_nat (bsize_fromint v :: 'a::len bsize_t) = (if v < 0 then None else Some (nat v))"
  by (simp add: bsize_nat_def bsize_tosize_def bsize_fromint_def unat_of_nonneg_int not_less
      word_order.extremum_strict)

lemma bsize_toint_exact:
  "bsize_toint s = (case bsize_nat s of Some n \<Rightarrow> if int n \<le> INT_MAX then Some (int n) else None | None \<Rightarrow> None)"
  by (auto simp: bsize_toint_def bsize_nat_def bsize_tosize_def)

text \<open>The least multiple of \<^term>\<open>n\<close> that is at least \<^term>\<open>x\<close>, and the least quotient.\<close>

definition up_nat :: "nat \<Rightarrow> nat \<Rightarrow> nat" where
  "up_nat x n = (if x mod n = 0 then x else x + (n - x mod n))"

definition ceil_div :: "nat \<Rightarrow> nat \<Rightarrow> nat" where
  "ceil_div a b = (a + b - 1) div b"

lemma ceil_div_least: "0 < b \<Longrightarrow> ceil_div a b \<le> q \<longleftrightarrow> a \<le> q * b"
  unfolding ceil_div_def
  by (simp add: less_Suc_eq_le [symmetric] div_less_iff_less_mult) (auto simp: algebra_simps)

lemma ceil_div_mod: "0 < b \<Longrightarrow> ceil_div a b = (if 0 < a mod b then a div b + 1 else a div b)"
proof (cases "a mod b")
  case 0
  assume "0 < b"
  then have "a + b - 1 = (b - 1) + b * (a div b)" using 0 by auto
  moreover have "((b - 1) + b * (a div b)) div b = a div b"
    using \<open>0 < b\<close> by (simp only: div_mult_self2) simp
  ultimately show ?thesis using 0 by (simp add: ceil_div_def)
next
  case (Suc k)
  assume "0 < b"
  have a: "b * (a div b) + Suc k = a" using Suc by (metis mult_div_mod_eq)
  have "Suc k < b" using Suc \<open>0 < b\<close> by (metis mod_less_divisor)
  then have "(k + b * (a div b + 1)) div b = a div b + 1"
    using \<open>0 < b\<close> by (simp only: div_mult_self2) simp
  moreover have "a + b - 1 = k + b * (a div b + 1)" using a by (simp add: algebra_simps)
  ultimately show ?thesis using Suc by (simp add: ceil_div_def)
qed

lemma unat_bdivide_up [refine_simps]:
  "b \<noteq> 0 \<Longrightarrow> unat (bdivide_up a b) = ceil_div (unat a) (unat b)" for a b :: "'a::len word"
proof -
  assume "b \<noteq> 0"
  then have b: "0 < unat b" by (simp add: unat_gt_0)
  have "Suc (unat a div unat b) < 2 ^ LENGTH('a)" if r: "0 < unat a mod unat b"
  proof -
    have "unat b \<noteq> 1" using r by auto
    moreover have "0 < unat a" using r by (metis mod_0 gr0I)
    ultimately have "unat a div unat b < unat a" using b by (simp add: div_less_dividend)
    then show ?thesis using unat_lt [of a] by linarith
  qed
  then show ?thesis
    unfolding bdivide_up_def Let_def ceil_div_mod [OF b]
    by (simp add: word_less_nat_alt unat_mod unat_div unat_word_ariths)
qed

lemma less_max_minus: "k < m \<Longrightarrow> m - 1 - k < x \<longleftrightarrow> m \<le> x + k" for k m x :: nat
  by linarith

lemma balign_up_overflows_iff:
  "n \<noteq> 0 \<Longrightarrow> balign_up_overflows x n \<longleftrightarrow> 2 ^ LENGTH('a) \<le> up_nat (unat x) (unat n)"
  for x n :: "'a::len word"
proof -
  assume "n \<noteq> 0"
  then have r: "unat (x mod n) < unat n" by (simp add: unat_mod unat_gt_0)
  then have "unat (n - x mod n) = unat n - unat (x mod n)"
    by (simp add: unat_sub word_le_nat_alt)
  moreover have "x mod n = 0 \<longleftrightarrow> unat x mod unat n = 0" by (metis unat_eq_0 unat_mod)
  ultimately show ?thesis
    unfolding balign_up_overflows_def Let_def up_nat_def word_less_nat_alt unat_max_minus
      less_max_minus [OF unat_lt] by (simp add: unat_mod)
qed

lemma unat_balign_up [refine_simps]:
  "n \<noteq> 0 \<Longrightarrow> \<not> balign_up_overflows x n \<Longrightarrow> unat (balign_up x n) = up_nat (unat x) (unat n)"
  for x n :: "'a::len word"
proof -
  assume "n \<noteq> 0" and no: "\<not> balign_up_overflows x n"
  then have r: "unat (x mod n) < unat n" by (simp add: unat_mod unat_gt_0)
  then have "unat (n - x mod n) = unat n - unat (x mod n)"
    by (simp add: unat_sub word_le_nat_alt)
  then show ?thesis
    using no unfolding balign_up_overflows_iff [OF \<open>n \<noteq> 0\<close>] balign_up_def Let_def up_nat_def
    by (auto simp: unat_mod unat_eq_0 [symmetric] unat_word_ariths not_le split: if_splits)
qed

end
