(* ===== verification/Linked_List.thy ===== *)
theory Linked_List
  imports Prelude
begin

text \<open>
  Intrusive doubly linked lists: \<^verbatim>\<open>structure/LinkedList1.h\<close> (first and last pointers),
  \<^verbatim>\<open>structure/LinkedList0.h\<close> and the template \<^verbatim>\<open>structure/SLinkedList_impl.h\<close> (first pointer
  only; its \<^verbatim>\<open>FEATURE_LAST\<close> is off in the instance used by the job queue). Nodes live in a
  heap that maps the address of a node to its two link fields; \<^verbatim>\<open>NULL\<close> is \<^const>\<open>None\<close>. The
  lemmas show that each operation on pointers is the corresponding operation on the list
  of nodes, and that it touches no other node.
\<close>

section \<open>Node heap\<close>

record 'e nodes =
  nd_p :: "'e \<Rightarrow> 'e option"
  nd_n :: "'e \<Rightarrow> 'e option"

definition set_p :: "'e \<Rightarrow> 'e option \<Rightarrow> 'e nodes \<Rightarrow> 'e nodes" where
  "set_p x v h = h\<lparr>nd_p := (nd_p h)(x := v)\<rparr>"

definition set_n :: "'e \<Rightarrow> 'e option \<Rightarrow> 'e nodes \<Rightarrow> 'e nodes" where
  "set_n x v h = h\<lparr>nd_n := (nd_n h)(x := v)\<rparr>"

lemma set_sel [simp]:
  "nd_p (set_p x v h) = (nd_p h)(x := v)" "nd_n (set_p x v h) = nd_n h"
  "nd_n (set_n x v h) = (nd_n h)(x := v)" "nd_p (set_n x v h) = nd_p h"
  by (simp_all add: set_p_def set_n_def)

lemma set_p_n_commute: "set_p x v (set_n y w h) = set_n y w (set_p x v h)"
  by (cases h) (simp add: set_p_def set_n_def)

section \<open>LinkedList1.h\<close>

record 'e LinkedList1 =
  ll_first :: "'e option"
  ll_last :: "'e option"

definition LinkedList1_Init :: "'e LinkedList1" where
  "LinkedList1_Init = \<lparr>ll_first = None, ll_last = None\<rparr>"

definition LinkedList1_IsEmpty :: "'e LinkedList1 \<Rightarrow> bool" where
  "LinkedList1_IsEmpty l = (ll_first l = None)"

definition LinkedList1_GetFirst :: "'e LinkedList1 \<Rightarrow> 'e option" where
  "LinkedList1_GetFirst l = ll_first l"

definition LinkedList1_GetLast :: "'e LinkedList1 \<Rightarrow> 'e option" where
  "LinkedList1_GetLast l = ll_last l"

definition LinkedList1_Prepend :: "'e \<Rightarrow> 'e nodes \<times> 'e LinkedList1 \<Rightarrow> 'e nodes \<times> 'e LinkedList1" where
  "LinkedList1_Prepend node = (\<lambda>(h, l).
     let h1 = set_n node (ll_first l) (set_p node None h) in
     case ll_first l of
       Some f \<Rightarrow> (set_p f (Some node) h1, l\<lparr>ll_first := Some node\<rparr>)
     | None \<Rightarrow> (h1, l\<lparr>ll_last := Some node, ll_first := Some node\<rparr>))"

definition LinkedList1_Append :: "'e \<Rightarrow> 'e nodes \<times> 'e LinkedList1 \<Rightarrow> 'e nodes \<times> 'e LinkedList1" where
  "LinkedList1_Append node = (\<lambda>(h, l).
     let h1 = set_n node None (set_p node (ll_last l) h) in
     case ll_last l of
       Some t \<Rightarrow> (set_n t (Some node) h1, l\<lparr>ll_last := Some node\<rparr>)
     | None \<Rightarrow> (h1, l\<lparr>ll_first := Some node, ll_last := Some node\<rparr>))"

definition LinkedList1_InsertBefore ::
    "'e \<Rightarrow> 'e \<Rightarrow> 'e nodes \<times> 'e LinkedList1 \<Rightarrow> 'e nodes \<times> 'e LinkedList1" where
  "LinkedList1_InsertBefore node target = (\<lambda>(h, l).
     let h1 = set_n node (Some target) (set_p node (nd_p h target) h);
         (h2, l2) = (case nd_p h1 target of
             Some q \<Rightarrow> (set_n q (Some node) h1, l)
           | None \<Rightarrow> (h1, l\<lparr>ll_first := Some node\<rparr>))
     in (set_p target (Some node) h2, l2))"

definition LinkedList1_InsertAfter ::
    "'e \<Rightarrow> 'e \<Rightarrow> 'e nodes \<times> 'e LinkedList1 \<Rightarrow> 'e nodes \<times> 'e LinkedList1" where
  "LinkedList1_InsertAfter node target = (\<lambda>(h, l).
     let h1 = set_n node (nd_n h target) (set_p node (Some target) h);
         (h2, l2) = (case nd_n h1 target of
             Some q \<Rightarrow> (set_p q (Some node) h1, l)
           | None \<Rightarrow> (h1, l\<lparr>ll_last := Some node\<rparr>))
     in (set_n target (Some node) h2, l2))"

definition LinkedList1_Remove :: "'e \<Rightarrow> 'e nodes \<times> 'e LinkedList1 \<Rightarrow> 'e nodes \<times> 'e LinkedList1" where
  "LinkedList1_Remove node = (\<lambda>(h, l).
     let (h1, l1) = (case nd_p h node of
             Some q \<Rightarrow> (set_n q (nd_n h node) h, l)
           | None \<Rightarrow> (h, l\<lparr>ll_first := nd_n h node\<rparr>))
     in case nd_n h1 node of
          Some q \<Rightarrow> (set_p q (nd_p h1 node) h1, l1)
        | None \<Rightarrow> (h1, l1\<lparr>ll_last := nd_p h1 node\<rparr>))"

definition LinkedList1_InsertListAfter ::
    "'e LinkedList1 \<Rightarrow> 'e option \<Rightarrow> 'e nodes \<times> 'e LinkedList1 \<Rightarrow> 'e nodes \<times> 'e LinkedList1" where
  "LinkedList1_InsertListAfter ins target = (\<lambda>(h, l).
     case (ll_first ins, ll_last ins) of
       (Some i_first, Some i_last) \<Rightarrow>
         let t_next = (case target of Some t \<Rightarrow> nd_n h t | None \<Rightarrow> ll_first l);
             h1 = set_n i_last t_next (set_p i_first target h);
             (h2, l2) = (case target of
                 Some t \<Rightarrow> (set_n t (Some i_first) h1, l)
               | None \<Rightarrow> (h1, l\<lparr>ll_first := Some i_first\<rparr>))
         in (case t_next of
               Some t \<Rightarrow> (set_p t (Some i_last) h2, l2)
             | None \<Rightarrow> (h2, l2\<lparr>ll_last := Some i_last\<rparr>))
     | _ \<Rightarrow> (h, l))"

definition LinkedList1Node_Next :: "'e \<Rightarrow> 'e nodes \<Rightarrow> 'e option" where
  "LinkedList1Node_Next node h = nd_n h node"

definition LinkedList1Node_Prev :: "'e \<Rightarrow> 'e nodes \<Rightarrow> 'e option" where
  "LinkedList1Node_Prev node h = nd_p h node"

section \<open>LinkedList0.h\<close>

text \<open>The list is its first pointer.\<close>

definition LinkedList0_Prepend :: "'e \<Rightarrow> 'e nodes \<times> 'e option \<Rightarrow> 'e nodes \<times> 'e option" where
  "LinkedList0_Prepend node = (\<lambda>(h, first).
     let h1 = set_n node first (set_p node None h) in
     (case first of Some f \<Rightarrow> set_p f (Some node) h1 | None \<Rightarrow> h1, Some node))"

definition LinkedList0_InsertBefore :: "'e \<Rightarrow> 'e \<Rightarrow> 'e nodes \<times> 'e option \<Rightarrow> 'e nodes \<times> 'e option" where
  "LinkedList0_InsertBefore node target = (\<lambda>(h, first).
     let h1 = set_n node (Some target) (set_p node (nd_p h target) h);
         (h2, first2) = (case nd_p h1 target of
             Some q \<Rightarrow> (set_n q (Some node) h1, first)
           | None \<Rightarrow> (h1, Some node))
     in (set_p target (Some node) h2, first2))"

definition LinkedList0_InsertAfter :: "'e \<Rightarrow> 'e \<Rightarrow> 'e nodes \<times> 'e option \<Rightarrow> 'e nodes \<times> 'e option" where
  "LinkedList0_InsertAfter node target = (\<lambda>(h, first).
     let h1 = set_n node (nd_n h target) (set_p node (Some target) h);
         h2 = (case nd_n h1 target of Some q \<Rightarrow> set_p q (Some node) h1 | None \<Rightarrow> h1)
     in (set_n target (Some node) h2, first))"

definition LinkedList0_Remove :: "'e \<Rightarrow> 'e nodes \<times> 'e option \<Rightarrow> 'e nodes \<times> 'e option" where
  "LinkedList0_Remove node = (\<lambda>(h, first).
     let (h1, first1) = (case nd_p h node of
             Some q \<Rightarrow> (set_n q (nd_n h node) h, first)
           | None \<Rightarrow> (h, nd_n h node))
     in (case nd_n h1 node of Some q \<Rightarrow> set_p q (nd_p h1 node) h1 | None \<Rightarrow> h1, first1))"

section \<open>SLinkedList_impl.h\<close>

definition SLinkedList_Init :: "'e option" where
  "SLinkedList_Init = None"

definition SLinkedList_Prepend :: "'e \<Rightarrow> 'e nodes \<times> 'e option \<Rightarrow> 'e nodes \<times> 'e option" where
  "SLinkedList_Prepend entry = (\<lambda>(h, first).
     let h1 = set_n entry first (set_p entry None h) in
     (case first of Some f \<Rightarrow> set_p f (Some entry) h1 | None \<Rightarrow> h1, Some entry))"

definition SLinkedList_InsertBefore :: "'e \<Rightarrow> 'e \<Rightarrow> 'e nodes \<times> 'e option \<Rightarrow> 'e nodes \<times> 'e option" where
  "SLinkedList_InsertBefore entry before_entry = (\<lambda>(h, first).
     let h1 = set_n entry (Some before_entry) (set_p entry (nd_p h before_entry) h);
         (h2, first2) = (case nd_p h1 before_entry of
             Some q \<Rightarrow> (set_n q (Some entry) h1, first)
           | None \<Rightarrow> (h1, Some entry))
     in (set_p before_entry (Some entry) h2, first2))"

definition SLinkedList_InsertAfter :: "'e \<Rightarrow> 'e \<Rightarrow> 'e nodes \<times> 'e option \<Rightarrow> 'e nodes \<times> 'e option" where
  "SLinkedList_InsertAfter entry after_entry = (\<lambda>(h, first).
     let h1 = set_p entry (Some after_entry) (set_n entry (nd_n h after_entry) h);
         h2 = (case nd_n h1 after_entry of Some q \<Rightarrow> set_p q (Some entry) h1 | None \<Rightarrow> h1)
     in (set_n after_entry (Some entry) h2, first))"

definition SLinkedList_Remove :: "'e \<Rightarrow> 'e nodes \<times> 'e option \<Rightarrow> 'e nodes \<times> 'e option" where
  "SLinkedList_Remove entry = (\<lambda>(h, first).
     let (h1, first1) = (case nd_p h entry of
             Some q \<Rightarrow> (set_n q (nd_n h entry) h, first)
           | None \<Rightarrow> (h, nd_n h entry))
     in (case nd_n h1 entry of Some q \<Rightarrow> set_p q (nd_p h1 entry) h1 | None \<Rightarrow> h1, first1))"

definition SLinkedList_First :: "'e option \<Rightarrow> 'e option" where
  "SLinkedList_First first = first"

definition SLinkedList_IsEmpty :: "'e option \<Rightarrow> bool" where
  "SLinkedList_IsEmpty first = (first = None)"

section \<open>Linked nodes\<close>

definition hd_opt :: "'e list \<Rightarrow> 'e option \<Rightarrow> 'e option" where
  "hd_opt xs a = (case xs of [] \<Rightarrow> a | x # _ \<Rightarrow> Some x)"

definition last_opt :: "'e option \<Rightarrow> 'e list \<Rightarrow> 'e option" where
  "last_opt b xs = (if xs = [] then b else Some (last xs))"

lemma opt_simps [simp]:
  "hd_opt [] a = a" "hd_opt (x # xs) a = Some x" "hd_opt (xs @ ys) a = hd_opt xs (hd_opt ys a)"
  "last_opt b [] = b" "last_opt b (xs @ [x]) = Some x" "last_opt b (xs @ ys) = last_opt (last_opt b xs) ys"
  "last_opt b (x # xs) = last_opt (Some x) xs"
  by (auto simp: hd_opt_def last_opt_def split: list.split)

text \<open>\<^verbatim>\<open>links h b xs a\<close>: the nodes \<^term>\<open>xs\<close> are linked one after the other, the first one back to
  \<^term>\<open>b\<close> and the last one on to \<^term>\<open>a\<close>.\<close>

fun links :: "'e nodes \<Rightarrow> 'e option \<Rightarrow> 'e list \<Rightarrow> 'e option \<Rightarrow> bool" where
  "links h b [] a = True"
| "links h b (x # xs) a \<longleftrightarrow> nd_p h x = b \<and> nd_n h x = hd_opt xs a \<and> links h (Some x) xs a"

lemma links_append:
  "links h b (xs @ ys) a \<longleftrightarrow> links h b xs (hd_opt ys a) \<and> links h (last_opt b xs) ys a"
  by (induction xs arbitrary: b) auto

lemma links_cong:
  "\<forall>x \<in> set xs. nd_p h x = nd_p h' x \<and> nd_n h x = nd_n h' x \<Longrightarrow> links h b xs a = links h' b xs a"
  by (induction xs arbitrary: b) auto

lemma links_outside [simp]:
  "x \<notin> set xs \<Longrightarrow> links (set_p x v h) b xs a = links h b xs a"
  "x \<notin> set xs \<Longrightarrow> links (set_n x v h) b xs a = links h b xs a"
  by (rule links_cong; auto)+

text \<open>Relinking the two ends of a chain.\<close>

lemma links_set_first:
  "distinct (x # xs) \<Longrightarrow> links h b (x # xs) a \<Longrightarrow> links (set_p x b' h) b' (x # xs) a"
  by simp

lemma links_set_last:
  "distinct (xs @ [x]) \<Longrightarrow> links h b (xs @ [x]) a \<Longrightarrow> links (set_n x a' h) b (xs @ [x]) a'"
  by (simp add: links_append)

definition sl_rep :: "'e nodes \<times> 'e option \<Rightarrow> 'e list \<Rightarrow> bool" where
  "sl_rep s xs \<longleftrightarrow> distinct xs \<and> snd s = hd_opt xs None \<and> links (fst s) None xs None"

definition ll_rep :: "'e nodes \<times> 'e LinkedList1 \<Rightarrow> 'e list \<Rightarrow> bool" where
  "ll_rep s xs \<longleftrightarrow> distinct xs \<and> ll_first (snd s) = hd_opt xs None \<and>
     ll_last (snd s) = last_opt None xs \<and> links (fst s) None xs None"

lemmas sl_defs = SLinkedList_Prepend_def SLinkedList_InsertBefore_def SLinkedList_InsertAfter_def
  SLinkedList_Remove_def
lemmas l0_defs = LinkedList0_Prepend_def LinkedList0_InsertBefore_def LinkedList0_InsertAfter_def
  LinkedList0_Remove_def
lemmas l1_defs = LinkedList1_Prepend_def LinkedList1_Append_def LinkedList1_InsertBefore_def
  LinkedList1_InsertAfter_def LinkedList1_Remove_def LinkedList1_InsertListAfter_def

section \<open>The contract of an intrusive list\<close>

text \<open>
  The operations act on the list of nodes; \<^verbatim>\<open>node\<close> gives the links of a node, which an
  operation leaves alone outside of the list and of the node it inserts.
\<close>

locale intrusive_list =
  fixes rep :: "'s \<Rightarrow> 'e list \<Rightarrow> bool" and first :: "'s \<Rightarrow> 'e option"
    and prepend :: "'e \<Rightarrow> 's \<Rightarrow> 's" and remove :: "'e \<Rightarrow> 's \<Rightarrow> 's"
    and insert_before :: "'e \<Rightarrow> 'e \<Rightarrow> 's \<Rightarrow> 's" and insert_after :: "'e \<Rightarrow> 'e \<Rightarrow> 's \<Rightarrow> 's"
    and node :: "'s \<Rightarrow> 'e \<Rightarrow> 'e option \<times> 'e option"
  assumes rep_distinct: "rep s xs \<Longrightarrow> distinct xs"
    and rep_first: "rep s xs \<Longrightarrow> first s = hd_opt xs None"
    and rep_node: "rep s (ys @ x # zs) \<Longrightarrow> node s x = (last_opt None ys, hd_opt zs None)"
    and rep_prepend: "rep s xs \<Longrightarrow> x \<notin> set xs \<Longrightarrow> rep (prepend x s) (x # xs)"
    and rep_remove: "rep s (ys @ x # zs) \<Longrightarrow> rep (remove x s) (ys @ zs)"
    and rep_insert_before:
      "rep s (ys @ t # zs) \<Longrightarrow> x \<notin> set (ys @ t # zs) \<Longrightarrow> rep (insert_before x t s) (ys @ x # t # zs)"
    and rep_insert_after:
      "rep s (ys @ t # zs) \<Longrightarrow> x \<notin> set (ys @ t # zs) \<Longrightarrow> rep (insert_after x t s) (ys @ t # x # zs)"
    and node_prepend: "rep s xs \<Longrightarrow> y \<notin> set xs \<Longrightarrow> y \<noteq> x \<Longrightarrow> node (prepend x s) y = node s y"
    and node_remove: "rep s xs \<Longrightarrow> x \<in> set xs \<Longrightarrow> y \<notin> set xs \<Longrightarrow> node (remove x s) y = node s y"
begin

lemma rep_remove1: "rep s xs \<Longrightarrow> x \<in> set xs \<Longrightarrow> rep (remove x s) (remove1 x xs)"
proof -
  assume r: "rep s xs" and "x \<in> set xs"
  then obtain ys zs where xs: "xs = ys @ x # zs" by (metis split_list)
  then have "x \<notin> set ys" using rep_distinct [OF r] by auto
  then show ?thesis using rep_remove r by (simp add: xs remove1_append)
qed

lemma rep_move_front: "rep s xs \<Longrightarrow> x \<in> set xs \<Longrightarrow> rep (prepend x (remove x s)) (x # remove1 x xs)"
  using rep_prepend [OF rep_remove1] rep_distinct by (simp add: distinct_remove1)

lemma node_not_self: "rep s xs \<Longrightarrow> x \<in> set xs \<Longrightarrow> snd (node s x) \<noteq> Some x"
proof -
  assume r: "rep s xs" and "x \<in> set xs"
  then obtain ys zs where xs: "xs = ys @ x # zs" by (metis split_list)
  moreover have "x \<notin> set zs" using rep_distinct [OF r] xs by simp
  ultimately show ?thesis using rep_node [of s ys x zs] r by (cases zs) auto
qed

lemma rep_next:
  assumes "rep s (ps @ xs)" "rep s (ps @ ys)"
  shows "hd_opt xs None = hd_opt ys None"
proof (cases ps rule: rev_cases)
  case Nil
  then show ?thesis using assms rep_first [of s xs] rep_first [of s ys] by simp
next
  case (snoc ps' p)
  then show ?thesis using assms rep_node [of s ps' p xs] rep_node [of s ps' p ys] by simp
qed

lemma rep_suffix_unique: "rep s (ps @ xs) \<Longrightarrow> rep s (ps @ ys) \<Longrightarrow> xs = ys"
proof (induction xs arbitrary: ps ys)
  case Nil
  then show ?case using rep_next [of s ps "[]" ys] by (cases ys) auto
next
  case (Cons x xs)
  then obtain ys' where "ys = x # ys'" using rep_next [of s ps "x # xs" ys] by (cases ys) auto
  then show ?case using Cons.IH [of "ps @ [x]" ys'] Cons.prems by simp
qed

lemma rep_unique: "rep s xs \<Longrightarrow> rep s ys \<Longrightarrow> xs = ys"
  using rep_suffix_unique [of s "[]"] by simp

end

definition node_of :: "'e nodes \<times> 'l \<Rightarrow> 'e \<Rightarrow> 'e option \<times> 'e option" where
  "node_of s x = (nd_p (fst s) x, nd_n (fst s) x)"

lemma sl_remove_rep: "sl_rep s (ys @ x # zs) \<Longrightarrow> sl_rep (SLinkedList_Remove x s) (ys @ zs)"
  by (cases s; cases ys rule: rev_cases; cases zs) (auto simp: sl_rep_def sl_defs links_append)

lemma sl_insert_before_rep:
  "sl_rep s (ys @ t # zs) \<Longrightarrow> x \<notin> set (ys @ t # zs) \<Longrightarrow> sl_rep (SLinkedList_InsertBefore x t s) (ys @ x # t # zs)"
  by (cases s; cases ys rule: rev_cases; cases zs) (auto simp: sl_rep_def sl_defs links_append)

lemma sl_insert_after_rep:
  "sl_rep s (ys @ t # zs) \<Longrightarrow> x \<notin> set (ys @ t # zs) \<Longrightarrow> sl_rep (SLinkedList_InsertAfter x t s) (ys @ t # x # zs)"
  by (cases s; cases ys rule: rev_cases; cases zs) (auto simp: sl_rep_def sl_defs links_append)

lemma sl_node_remove:
  assumes "sl_rep s xs" "x \<in> set xs" "y \<notin> set xs"
  shows "node_of (SLinkedList_Remove x s) y = node_of s y"
proof -
  obtain ys zs where "xs = ys @ x # zs" using assms(2) by (metis split_list)
  then show ?thesis
    using assms by (cases s; cases ys rule: rev_cases; cases zs)
      (auto simp: sl_rep_def sl_defs links_append node_of_def)
qed

interpretation sl: intrusive_list sl_rep snd SLinkedList_Prepend SLinkedList_Remove
  SLinkedList_InsertBefore SLinkedList_InsertAfter node_of
proof unfold_locales
  fix s :: "'a nodes \<times> 'a option" and xs x y
  show "sl_rep s xs \<Longrightarrow> distinct xs" by (simp add: sl_rep_def)
  show "sl_rep s xs \<Longrightarrow> snd s = hd_opt xs None" by (simp add: sl_rep_def)
  show "sl_rep s (ys @ x # zs) \<Longrightarrow> node_of s x = (last_opt None ys, hd_opt zs None)" for ys zs
    by (simp add: sl_rep_def node_of_def links_append)
  show "sl_rep s xs \<Longrightarrow> x \<notin> set xs \<Longrightarrow> sl_rep (SLinkedList_Prepend x s) (x # xs)"
    by (cases s; cases xs) (auto simp: sl_rep_def sl_defs)
  show "sl_rep s xs \<Longrightarrow> y \<notin> set xs \<Longrightarrow> y \<noteq> x \<Longrightarrow> node_of (SLinkedList_Prepend x s) y = node_of s y"
    by (cases s; cases xs) (auto simp: sl_rep_def sl_defs node_of_def)
qed (simp_all add: sl_remove_rep sl_insert_before_rep sl_insert_after_rep sl_node_remove)

text \<open>\<^verbatim>\<open>LinkedList0\<close> assigns the same fields as the template, up to the order of two assignments
  to a fresh node.\<close>

lemma l0_eq_sl:
  "LinkedList0_Prepend x = SLinkedList_Prepend x"
  "LinkedList0_Remove x = SLinkedList_Remove x"
  "LinkedList0_InsertBefore x t = SLinkedList_InsertBefore x t"
  "LinkedList0_InsertAfter x t = SLinkedList_InsertAfter x t"
  by (simp_all add: l0_defs sl_defs set_p_n_commute)

interpretation l0: intrusive_list sl_rep snd LinkedList0_Prepend LinkedList0_Remove
  LinkedList0_InsertBefore LinkedList0_InsertAfter node_of
  unfolding l0_eq_sl by (rule sl.intrusive_list_axioms)

text \<open>\<^verbatim>\<open>LinkedList1\<close> also keeps the last pointer.\<close>

lemma ll_remove_rep: "ll_rep s (ys @ x # zs) \<Longrightarrow> ll_rep (LinkedList1_Remove x s) (ys @ zs)"
  by (cases s; cases ys rule: rev_cases; cases zs) (auto simp: ll_rep_def l1_defs links_append)

lemma ll_insert_before_rep:
  "ll_rep s (ys @ t # zs) \<Longrightarrow> x \<notin> set (ys @ t # zs) \<Longrightarrow> ll_rep (LinkedList1_InsertBefore x t s) (ys @ x # t # zs)"
  by (cases s; cases ys rule: rev_cases; cases zs) (auto simp: ll_rep_def l1_defs links_append)

lemma ll_insert_after_rep:
  "ll_rep s (ys @ t # zs) \<Longrightarrow> x \<notin> set (ys @ t # zs) \<Longrightarrow> ll_rep (LinkedList1_InsertAfter x t s) (ys @ t # x # zs)"
  by (cases s; cases ys rule: rev_cases; cases zs) (auto simp: ll_rep_def l1_defs links_append)

lemma ll_node_remove:
  assumes "ll_rep s xs" "x \<in> set xs" "y \<notin> set xs"
  shows "node_of (LinkedList1_Remove x s) y = node_of s y"
proof -
  obtain ys zs where "xs = ys @ x # zs" using assms(2) by (metis split_list)
  then show ?thesis
    using assms by (cases s; cases ys rule: rev_cases; cases zs)
      (auto simp: ll_rep_def l1_defs links_append node_of_def)
qed

interpretation l1: intrusive_list ll_rep "\<lambda>s. LinkedList1_GetFirst (snd s)" LinkedList1_Prepend LinkedList1_Remove
  LinkedList1_InsertBefore LinkedList1_InsertAfter node_of
proof unfold_locales
  fix s :: "'a nodes \<times> 'a LinkedList1" and xs x y
  show "ll_rep s xs \<Longrightarrow> distinct xs" by (simp add: ll_rep_def)
  show "ll_rep s xs \<Longrightarrow> LinkedList1_GetFirst (snd s) = hd_opt xs None"
    by (simp add: ll_rep_def LinkedList1_GetFirst_def)
  show "ll_rep s (ys @ x # zs) \<Longrightarrow> node_of s x = (last_opt None ys, hd_opt zs None)" for ys zs
    by (simp add: ll_rep_def node_of_def links_append)
  show "ll_rep s xs \<Longrightarrow> x \<notin> set xs \<Longrightarrow> ll_rep (LinkedList1_Prepend x s) (x # xs)"
    by (cases s; cases xs) (auto simp: ll_rep_def l1_defs)
  show "ll_rep s xs \<Longrightarrow> y \<notin> set xs \<Longrightarrow> y \<noteq> x \<Longrightarrow> node_of (LinkedList1_Prepend x s) y = node_of s y"
    by (cases s; cases xs) (auto simp: ll_rep_def l1_defs node_of_def)
qed (simp_all add: ll_remove_rep ll_insert_before_rep ll_insert_after_rep ll_node_remove)

lemma ll_append_rep: "ll_rep s xs \<Longrightarrow> x \<notin> set xs \<Longrightarrow> ll_rep (LinkedList1_Append x s) (xs @ [x])"
  by (cases s; cases xs rule: rev_cases) (auto simp: ll_rep_def l1_defs links_append)

lemma ll_last_rep: "ll_rep s xs \<Longrightarrow> LinkedList1_GetLast (snd s) = last_opt None xs"
  by (simp add: ll_rep_def LinkedList1_GetLast_def)

lemma ll_insert_list_rep:
  assumes "ll_rep (h, l) (ys @ zs)" "ll_rep (h, ins) is" "set is \<inter> set (ys @ zs) = {}"
  shows "ll_rep (LinkedList1_InsertListAfter ins (last_opt None ys) (h, l)) (ys @ is @ zs)"
proof (cases "is")
  case Nil
  then show ?thesis using assms by (simp add: ll_rep_def l1_defs)
next
  case (Cons i r)
  then show ?thesis
    using assms by (cases r rule: rev_cases; cases ys rule: rev_cases; cases zs)
      (auto simp: ll_rep_def l1_defs links_append)
qed

section \<open>Scripts of list operations\<close>

text \<open>The same script run on pointers and, as a specification, on the list of nodes. The
  specification is undefined where an operation is used outside of its contract.\<close>

datatype 'e ll_op =
    OpPrepend 'e | OpAppend 'e | OpBefore 'e 'e | OpAfter 'e 'e | OpRemove 'e

fun ll_exec :: "'e ll_op \<Rightarrow> 'e nodes \<times> 'e LinkedList1 \<Rightarrow> 'e nodes \<times> 'e LinkedList1" where
  "ll_exec (OpPrepend x) = LinkedList1_Prepend x"
| "ll_exec (OpAppend x) = LinkedList1_Append x"
| "ll_exec (OpBefore x t) = LinkedList1_InsertBefore x t"
| "ll_exec (OpAfter x t) = LinkedList1_InsertAfter x t"
| "ll_exec (OpRemove x) = LinkedList1_Remove x"

fun list_exec :: "'e ll_op \<Rightarrow> 'e list \<Rightarrow> 'e list option" where
  "list_exec (OpPrepend x) xs = (if x \<in> set xs then None else Some (x # xs))"
| "list_exec (OpAppend x) xs = (if x \<in> set xs then None else Some (xs @ [x]))"
| "list_exec (OpBefore x t) xs =
     (if x \<in> set xs \<or> t \<notin> set xs then None
      else Some (takeWhile (\<lambda>y. y \<noteq> t) xs @ x # dropWhile (\<lambda>y. y \<noteq> t) xs))"
| "list_exec (OpAfter x t) xs =
     (if x \<in> set xs \<or> t \<notin> set xs then None
      else Some (takeWhile (\<lambda>y. y \<noteq> t) xs @ t # x # tl (dropWhile (\<lambda>y. y \<noteq> t) xs)))"
| "list_exec (OpRemove x) xs = (if x \<in> set xs then Some (remove1 x xs) else None)"

fun ll_script :: "'e ll_op list \<Rightarrow> 'e nodes \<times> 'e LinkedList1 \<Rightarrow> 'e nodes \<times> 'e LinkedList1" where
  "ll_script [] s = s"
| "ll_script (a # as) s = ll_script as (ll_exec a s)"

fun list_script :: "'e ll_op list \<Rightarrow> 'e list \<Rightarrow> 'e list option" where
  "list_script [] xs = Some xs"
| "list_script (a # as) xs = Option.bind (list_exec a xs) (list_script as)"

lemma split_at:
  assumes "t \<in> set xs"
  obtains a b where "xs = a @ t # b" "takeWhile (\<lambda>y. y \<noteq> t) xs = a" "dropWhile (\<lambda>y. y \<noteq> t) xs = t # b"
proof -
  obtain a b where x: "xs = a @ t # b" "t \<notin> set a" using assms by (metis split_list_first)
  moreover have "\<forall>y \<in> set a. y \<noteq> t" using x by auto
  ultimately have "takeWhile (\<lambda>y. y \<noteq> t) xs = a" "dropWhile (\<lambda>y. y \<noteq> t) xs = t # b"
    by (simp_all add: takeWhile_append2 dropWhile_append2)
  then show thesis using x that by blast
qed

lemma ll_exec_rep: "ll_rep s xs \<Longrightarrow> list_exec a xs = Some ys \<Longrightarrow> ll_rep (ll_exec a s) ys"
proof (induction a xs rule: list_exec.induct)
  case (3 x t xs)
  then have "t \<in> set xs" "x \<notin> set xs" by (auto split: if_splits)
  then obtain a b where "xs = a @ t # b" "takeWhile (\<lambda>y. y \<noteq> t) xs = a" "dropWhile (\<lambda>y. y \<noteq> t) xs = t # b"
    by (elim split_at)
  then show ?case using 3 \<open>x \<notin> set xs\<close> ll_insert_before_rep [of s a t b x] by auto
next
  case (4 x t xs)
  then have "t \<in> set xs" "x \<notin> set xs" by (auto split: if_splits)
  then obtain a b where "xs = a @ t # b" "takeWhile (\<lambda>y. y \<noteq> t) xs = a" "dropWhile (\<lambda>y. y \<noteq> t) xs = t # b"
    by (elim split_at)
  then show ?case using 4 \<open>x \<notin> set xs\<close> ll_insert_after_rep [of s a t b x] by auto
qed (auto intro: l1.rep_prepend l1.rep_remove1 ll_append_rep split: if_splits)

lemma ll_script_rep: "ll_rep s xs \<Longrightarrow> list_script as xs = Some ys \<Longrightarrow> ll_rep (ll_script as s) ys"
proof (induction as arbitrary: s xs)
  case (Cons a as)
  then obtain zs where "list_exec a xs = Some zs" "list_script as zs = Some ys"
    by (auto simp: option_bind_eq_Some)
  then show ?case using Cons.IH [OF ll_exec_rep] Cons.prems(1) by simp
qed simp

text \<open>
  C19: a doubly linked list is the list of its nodes: any script of prepend, append, insert
  before, insert after and remove that is legal on the list of nodes has, on the pointer
  structure, exactly the effect it has on that list, its first and last pointers included.
\<close>

theorem LinkedList1_refines_list:
  assumes "ll_rep s xs" "list_script as xs = Some ys"
  shows "ll_rep (ll_script as s) ys \<and>
     LinkedList1_GetFirst (snd (ll_script as s)) = hd_opt ys None \<and>
     LinkedList1_GetLast (snd (ll_script as s)) = last_opt None ys"
  using ll_script_rep [OF assms] by (simp add: l1.rep_first ll_last_rep)

theorem LinkedList1_refines_list_witness:
  "ll_rep (ll_script [OpAppend 1, OpPrepend 2, OpBefore 3 1, OpAfter (4::nat) 1, OpRemove 2]
      (\<lparr>nd_p = \<lambda>_. None, nd_n = \<lambda>_. None\<rparr>, LinkedList1_Init)) [3, 1, 4]"
  by (rule LinkedList1_refines_list [where xs = "[]", THEN conjunct1])
     (simp_all add: ll_rep_def LinkedList1_Init_def)

end
