(* ===== verification/Pending.thy ===== *)
theory Pending
  imports Linked_List
begin

text \<open>
  The job queue \<^verbatim>\<open>base/BPending.c\<close>. A job is \<^verbatim>\<open>set\<close> by putting it at the front of the list of
  its group, so the group runs the job set last first. Whether a job is set is encoded in
  its \<^verbatim>\<open>next\<close> pointer: a job that is not set points to itself. The handler of a job is a
  call of the component that owns the job; \<^verbatim>\<open>BPendingGroup_ExecuteJob\<close> returns the job
  whose handler is to be run.
\<close>

section \<open>Groups and jobs\<close>

record 'j BPendingGroup =
  pg_nodes :: "'j nodes"
  pg_jobs :: "'j option"

definition pg_set :: "'j nodes \<times> 'j option \<Rightarrow> 'j BPendingGroup" where
  "pg_set s = \<lparr>pg_nodes = fst s, pg_jobs = snd s\<rparr>"

definition pg_list :: "'j BPendingGroup \<Rightarrow> 'j nodes \<times> 'j option" where
  "pg_list g = (pg_nodes g, pg_jobs g)"

definition BPendingGroup_Init :: "'j nodes \<Rightarrow> 'j BPendingGroup" where
  "BPendingGroup_Init h = \<lparr>pg_nodes = h, pg_jobs = SLinkedList_Init\<rparr>"

definition BPendingGroup_HasJobs :: "'j BPendingGroup \<Rightarrow> bool" where
  "BPendingGroup_HasJobs g = (\<not> SLinkedList_IsEmpty (pg_jobs g))"

definition BPendingGroup_PeekJob :: "'j BPendingGroup \<Rightarrow> 'j option" where
  "BPendingGroup_PeekJob g = SLinkedList_First (pg_jobs g)"

definition set_not_pending :: "'j \<Rightarrow> 'j BPendingGroup \<Rightarrow> 'j BPendingGroup" where
  "set_not_pending p g = g\<lparr>pg_nodes := set_n p (Some p) (pg_nodes g)\<rparr>"

definition BPendingGroup_ExecuteJob :: "'j BPendingGroup \<Rightarrow> 'j BPendingGroup \<times> 'j option" where
  "BPendingGroup_ExecuteJob g =
     (case SLinkedList_First (pg_jobs g) of
        None \<Rightarrow> (g, None)
      | Some p \<Rightarrow> (set_not_pending p (pg_set (SLinkedList_Remove p (pg_list g))), Some p))"

definition BSmallPending_Init :: "'j \<Rightarrow> 'j BPendingGroup \<Rightarrow> 'j BPendingGroup" where
  "BSmallPending_Init p g = set_not_pending p g"

definition BSmallPending_IsSet :: "'j \<Rightarrow> 'j BPendingGroup \<Rightarrow> bool" where
  "BSmallPending_IsSet p g = (nd_n (pg_nodes g) p \<noteq> Some p)"

definition BSmallPending_Free :: "'j \<Rightarrow> 'j BPendingGroup \<Rightarrow> 'j BPendingGroup" where
  "BSmallPending_Free p g =
     (if nd_n (pg_nodes g) p \<noteq> Some p then pg_set (SLinkedList_Remove p (pg_list g)) else g)"

definition BSmallPending_Set :: "'j \<Rightarrow> 'j BPendingGroup \<Rightarrow> 'j BPendingGroup" where
  "BSmallPending_Set p g =
     (let g1 = (if nd_n (pg_nodes g) p \<noteq> Some p then pg_set (SLinkedList_Remove p (pg_list g)) else g)
      in pg_set (SLinkedList_Prepend p (pg_list g1)))"

definition BSmallPending_Unset :: "'j \<Rightarrow> 'j BPendingGroup \<Rightarrow> 'j BPendingGroup" where
  "BSmallPending_Unset p g =
     (if nd_n (pg_nodes g) p \<noteq> Some p
      then set_not_pending p (pg_set (SLinkedList_Remove p (pg_list g))) else g)"

section \<open>Representation\<close>

lemma pg_list_set [simp]: "pg_list (pg_set s) = s"
  by (simp add: pg_list_def pg_set_def)

text \<open>\<^verbatim>\<open>pg_rep g live js\<close>: \<^term>\<open>live\<close> are the initialised jobs, \<^term>\<open>js\<close> the set ones, next one first.\<close>

definition pg_rep :: "'j BPendingGroup \<Rightarrow> 'j set \<Rightarrow> 'j list \<Rightarrow> bool" where
  "pg_rep g live js \<longleftrightarrow> sl_rep (pg_list g) js \<and> set js \<subseteq> live \<and>
     (\<forall>p \<in> live - set js. nd_n (pg_nodes g) p = Some p)"

lemma IsSet_iff: "pg_rep g live js \<Longrightarrow> p \<in> live \<Longrightarrow> BSmallPending_IsSet p g \<longleftrightarrow> p \<in> set js"
  using sl.node_not_self [of "pg_list g" js p]
  by (auto simp: pg_rep_def BSmallPending_IsSet_def node_of_def pg_list_def)

lemma next_not_self: "pg_rep g live js \<Longrightarrow> p \<in> live \<Longrightarrow> nd_n (pg_nodes g) p \<noteq> Some p \<longleftrightarrow> p \<in> set js"
  using IsSet_iff by (fastforce simp: BSmallPending_IsSet_def)

lemma nodes_pg_set: "nd_n (pg_nodes (pg_set s)) y = snd (node_of s y)"
  by (simp add: pg_set_def node_of_def)

lemma next_pg_list: "nd_n (pg_nodes g) y = snd (node_of (pg_list g) y)"
  by (simp add: pg_list_def node_of_def)

lemma pg_rep_remove:
  assumes r: "pg_rep g live js" and p: "p \<in> set js"
  shows "sl_rep (SLinkedList_Remove p (pg_list g)) (remove1 p js)"
    and "pg_rep (pg_set (SLinkedList_Remove p (pg_list g))) (live - {p}) (remove1 p js)"
proof -
  have s: "sl_rep (pg_list g) js" and d: "distinct js" using r sl.rep_distinct [of "pg_list g" js] by (auto simp: pg_rep_def)
  show "sl_rep (SLinkedList_Remove p (pg_list g)) (remove1 p js)" by (rule sl.rep_remove1 [OF s p])
  then show "pg_rep (pg_set (SLinkedList_Remove p (pg_list g))) (live - {p}) (remove1 p js)"
  proof -
    assume s': "sl_rep (SLinkedList_Remove p (pg_list g)) (remove1 p js)"
    have "snd (node_of (SLinkedList_Remove p (pg_list g)) q) = Some q"
      if "q \<in> live - {p} - set (remove1 p js)" for q
    proof -
      have "q \<in> live - set js" using that d by auto
      then show ?thesis using r sl.node_remove [OF s p, of q] by (simp add: pg_rep_def next_pg_list)
    qed
    then show ?thesis using s' r d by (auto simp: pg_rep_def nodes_pg_set)
  qed
qed

lemma sl_set_n_outside: "sl_rep (h, f) js \<Longrightarrow> p \<notin> set js \<Longrightarrow> sl_rep (set_n p v h, f) js"
  by (simp add: sl_rep_def)

lemma pg_rep_not_pending:
  "pg_rep g live js \<Longrightarrow> p \<notin> set js \<Longrightarrow> pg_rep (set_not_pending p g) (insert p live) js"
  by (auto simp: pg_rep_def set_not_pending_def pg_list_def intro: sl_set_n_outside)

lemma pg_rep_prepend:
  assumes r: "pg_rep g live js" and p: "p \<notin> set js"
  shows "pg_rep (pg_set (SLinkedList_Prepend p (pg_list g))) (insert p live) (p # js)"
proof -
  have s: "sl_rep (pg_list g) js" using r by (simp add: pg_rep_def)
  show ?thesis
    using r p sl.rep_prepend [OF s p] sl.node_prepend [OF s]
    by (auto simp: pg_rep_def nodes_pg_set next_pg_list)
qed

lemma notin_remove1: "pg_rep g live js \<Longrightarrow> p \<notin> set (remove1 p js)"
  using sl.rep_distinct [of "pg_list g" js] by (auto simp: pg_rep_def)

section \<open>Operations on the list of set jobs\<close>

lemma pg_Init_rep [inv_intros]: "sl_rep (h, None) [] \<and> pg_rep (BPendingGroup_Init h) {} []"
  by (simp add: pg_rep_def BPendingGroup_Init_def SLinkedList_Init_def pg_list_def sl_rep_def)

lemma pending_Init_rep [inv_intros]:
  "pg_rep g live js \<Longrightarrow> p \<notin> live \<Longrightarrow> pg_rep (BSmallPending_Init p g) (insert p live) js"
  unfolding BSmallPending_Init_def by (rule pg_rep_not_pending) (auto simp: pg_rep_def)

lemma pending_Free_rep [inv_intros]:
  assumes "pg_rep g live js" "p \<in> live"
  shows "pg_rep (BSmallPending_Free p g) (live - {p}) (remove1 p js)"
proof (cases "p \<in> set js")
  case True
  then show ?thesis
    using pg_rep_remove(2) [OF assms(1) True] next_not_self [OF assms] by (simp add: BSmallPending_Free_def)
next
  case False
  then show ?thesis
    using assms next_not_self [OF assms] by (auto simp: BSmallPending_Free_def pg_rep_def remove1_idem)
qed

lemma pending_Set_rep [inv_intros]:
  assumes r: "pg_rep g live js" and p: "p \<in> live"
  shows "pg_rep (BSmallPending_Set p g) live (p # remove1 p js)"
proof (cases "p \<in> set js")
  case True
  have "insert p (live - {p}) = live" using p by auto
  then show ?thesis
    using True next_not_self [OF r p] notin_remove1 [OF r, of p]
      pg_rep_prepend [OF pg_rep_remove(2) [OF r True], of p] by (simp add: BSmallPending_Set_def)
next
  case False
  then show ?thesis
    using pg_rep_prepend [OF r False] next_not_self [OF r p] p
    by (simp add: BSmallPending_Set_def remove1_idem insert_absorb)
qed

lemma pg_rep_take:
  assumes r: "pg_rep g live js" and p: "p \<in> set js"
  shows "pg_rep (set_not_pending p (pg_set (SLinkedList_Remove p (pg_list g)))) live (remove1 p js)"
proof -
  have "insert p (live - {p}) = live" using r p by (auto simp: pg_rep_def)
  then show ?thesis
    using pg_rep_not_pending [OF pg_rep_remove(2) [OF r p] notin_remove1 [OF r]] by simp
qed

lemma pending_Unset_rep [inv_intros]:
  assumes r: "pg_rep g live js" and p: "p \<in> live"
  shows "pg_rep (BSmallPending_Unset p g) live (remove1 p js)"
  using pg_rep_take [OF r] r next_not_self [OF r p]
  by (cases "p \<in> set js") (simp_all add: BSmallPending_Unset_def remove1_idem)

lemma pg_first: "pg_rep g live js \<Longrightarrow> pg_jobs g = hd_opt js None"
  by (simp add: pg_rep_def sl_rep_def pg_list_def)

lemma pg_Execute_rep:
  assumes r: "pg_rep g live js"
  shows "js = [] \<Longrightarrow> BPendingGroup_ExecuteJob g = (g, None)"
    and "js = p # js' \<Longrightarrow> \<exists>g'. BPendingGroup_ExecuteJob g = (g', Some p) \<and> pg_rep g' live js'"
  using pg_first [OF r] pg_rep_take [OF r, of p]
  by (auto simp: BPendingGroup_ExecuteJob_def SLinkedList_First_def)

lemma pg_HasJobs_rep: "pg_rep g live js \<Longrightarrow> BPendingGroup_HasJobs g \<longleftrightarrow> js \<noteq> []"
  by (cases js) (simp_all add: BPendingGroup_HasJobs_def SLinkedList_IsEmpty_def pg_first)

section \<open>Runs\<close>

datatype 'j pg_op = PgInit 'j | PgFree 'j | PgSet 'j | PgUnset 'j | PgExec

fun pg_exec :: "'j pg_op \<Rightarrow> 'j BPendingGroup \<Rightarrow> 'j BPendingGroup \<times> 'j list" where
  "pg_exec (PgInit p) g = (BSmallPending_Init p g, [])"
| "pg_exec (PgFree p) g = (BSmallPending_Free p g, [])"
| "pg_exec (PgSet p) g = (BSmallPending_Set p g, [])"
| "pg_exec (PgUnset p) g = (BSmallPending_Unset p g, [])"
| "pg_exec PgExec g =
     (case BPendingGroup_ExecuteJob g of (g', None) \<Rightarrow> (g', []) | (g', Some p) \<Rightarrow> (g', [p]))"

text \<open>The specification: a set of initialised jobs and the stack of those that are set.\<close>

fun lifo_exec :: "'j pg_op \<Rightarrow> 'j set \<times> 'j list \<Rightarrow> (('j set \<times> 'j list) \<times> 'j list) option" where
  "lifo_exec (PgInit p) (live, js) = (if p \<in> live then None else Some ((insert p live, js), []))"
| "lifo_exec (PgFree p) (live, js) = (if p \<in> live then Some ((live - {p}, remove1 p js), []) else None)"
| "lifo_exec (PgSet p) (live, js) = (if p \<in> live then Some ((live, p # remove1 p js), []) else None)"
| "lifo_exec (PgUnset p) (live, js) = (if p \<in> live then Some ((live, remove1 p js), []) else None)"
| "lifo_exec PgExec (live, js) = (case js of [] \<Rightarrow> None | p # js' \<Rightarrow> Some ((live, js'), [p]))"

fun pg_run :: "'j pg_op list \<Rightarrow> 'j BPendingGroup \<Rightarrow> 'j BPendingGroup \<times> 'j list" where
  "pg_run [] g = (g, [])"
| "pg_run (a # as) g = (let (g1, t1) = pg_exec a g; (g2, t2) = pg_run as g1 in (g2, t1 @ t2))"

fun lifo_run :: "'j pg_op list \<Rightarrow> 'j set \<times> 'j list \<Rightarrow> (('j set \<times> 'j list) \<times> 'j list) option" where
  "lifo_run [] s = Some (s, [])"
| "lifo_run (a # as) s =
     Option.bind (lifo_exec a s) (\<lambda>(s1, t1). map_option (\<lambda>(s2, t2). (s2, t1 @ t2)) (lifo_run as s1))"

lemma pg_exec_simulates:
  assumes "pg_rep g live js" "lifo_exec a (live, js) = Some ((live', js'), t)"
  shows "\<exists>g'. pg_exec a g = (g', t) \<and> pg_rep g' live' js'"
proof (cases a)
  case PgExec
  then show ?thesis using assms pg_Execute_rep(2) [OF assms(1)] by (auto split: list.splits)
qed (use assms in \<open>auto split: if_splits intro: inv_intros\<close>)

lemma pg_run_simulates:
  "pg_rep g live js \<Longrightarrow> lifo_run as (live, js) = Some ((live', js'), t) \<Longrightarrow>
     \<exists>g'. pg_run as g = (g', t) \<and> pg_rep g' live' js'"
proof (induction as arbitrary: g live js t)
  case (Cons a as)
  then obtain live1 js1 t1 t2 where 1: "lifo_exec a (live, js) = Some ((live1, js1), t1)"
    and 2: "lifo_run as (live1, js1) = Some ((live', js'), t2)" and t: "t = t1 @ t2"
    by (auto simp: option_bind_eq_Some)
  obtain g1 where g1: "pg_exec a g = (g1, t1)" "pg_rep g1 live1 js1"
    using pg_exec_simulates [OF Cons.prems(1) 1] by blast
  then show ?case using Cons.IH [OF g1(2) 2] t by auto
qed auto

text \<open>
  C20: the job queue is a stack. For every sequence of operations that respects the contract
  (jobs are initialised before they are used, a job is run only when one is set), the
  pointer implementation runs exactly the jobs that the stack specification runs, in the
  same order; setting a job again moves it to the front, and the test whether a job is set
  answers membership in the stack.
\<close>

theorem pending_refines_stack:
  assumes "lifo_run as ({}, []) = Some ((live, js), t)"
  shows "\<exists>g. pg_run as (BPendingGroup_Init h) = (g, t) \<and>
     (\<forall>p. p \<in> live \<longrightarrow> (BSmallPending_IsSet p g \<longleftrightarrow> p \<in> set js)) \<and>
     (BPendingGroup_HasJobs g \<longleftrightarrow> js \<noteq> []) \<and> BPendingGroup_PeekJob g = hd_opt js None"
proof -
  obtain g where g: "pg_run as (BPendingGroup_Init h) = (g, t)" "pg_rep g live js"
    using pg_run_simulates [OF pg_Init_rep [THEN conjunct2] assms] by blast
  then show ?thesis
    using IsSet_iff [OF g(2)] pg_HasJobs_rep [OF g(2)] pg_first [OF g(2)]
    by (simp add: BPendingGroup_PeekJob_def SLinkedList_First_def)
qed

theorem pending_refines_stack_witness:
  "\<exists>g. pg_run [PgInit (1::nat), PgInit 2, PgInit 3, PgSet 1, PgSet 2, PgSet 3, PgSet 1, PgUnset 3, PgExec]
      (BPendingGroup_Init \<lparr>nd_p = \<lambda>_. None, nd_n = \<lambda>_. None\<rparr>) = (g, [1]) \<and>
     BPendingGroup_PeekJob g = Some 2"
  using pending_refines_stack
    [of "[PgInit 1, PgInit 2, PgInit 3, PgSet 1, PgSet 2, PgSet 3, PgSet 1, PgUnset 3, PgExec]"
        "{1, 2, 3 :: nat}" "[2]" "[1]" "\<lparr>nd_p = \<lambda>_. None, nd_n = \<lambda>_. None\<rparr>"]
  by (auto simp: insert_commute)

end
