(* ===== verification/Flow_Interfaces.thy ===== *)
theory Flow_Interfaces
  imports Pending
begin

text \<open>
  The interfaces through which the flow components hand data to each other:
  \<^verbatim>\<open>flow/PacketPassInterface\<close>, \<^verbatim>\<open>flow/PacketRecvInterface\<close>, \<^verbatim>\<open>flow/StreamPassInterface\<close> and
  \<^verbatim>\<open>flow/StreamRecvInterface\<close>. A request of the user and the completion reported by the
  provider are not delivered at once but by jobs of the pending group, so the state of an
  interface includes which of its jobs are set (the next one to run first; setting a job
  moves it to the front, as shown for the job queue). A function whose assertions fail
  returns \<^const>\<open>None\<close>. Running a job returns the handler call it makes.
\<close>

datatype iface_state =
    STATE_NONE | STATE_OPERATION_PENDING | STATE_BUSY | STATE_DONE_PENDING

datatype iface_job = Job_operation | Job_requestcancel | Job_done

datatype ('a, 'b) iface_call =
    handler_operation 'a
  | handler_requestcancel
  | handler_done 'b

definition job_set :: "iface_job \<Rightarrow> iface_job list \<Rightarrow> iface_job list" where
  "job_set j js = j # remove1 j js"

definition job_unset :: "iface_job \<Rightarrow> iface_job list \<Rightarrow> iface_job list" where
  "job_unset j js = remove1 j js"

section \<open>PacketPassInterface\<close>

type_synonym packet_arg = "int option \<times> int"

record PacketPassInterface =
  ppi_mtu :: int
  ppi_handler_requestcancel :: bool
  ppi_handler_done :: bool
  ppi_operation :: packet_arg
  ppi_state :: iface_state
  ppi_cancel_requested :: bool
  ppi_jobs :: "iface_job list"

definition PacketPassInterface_Init :: "int \<Rightarrow> PacketPassInterface option" where
  "PacketPassInterface_Init mtu =
     (if mtu \<ge> 0 then
        Some \<lparr>ppi_mtu = mtu, ppi_handler_requestcancel = False, ppi_handler_done = False,
              ppi_operation = (None, 0), ppi_state = STATE_NONE, ppi_cancel_requested = False, ppi_jobs = []\<rparr>
      else None)"

definition PacketPassInterface_EnableCancel :: "PacketPassInterface \<Rightarrow> PacketPassInterface option" where
  "PacketPassInterface_EnableCancel i =
     (if \<not> ppi_handler_requestcancel i \<and> \<not> ppi_handler_done i
      then Some (i\<lparr>ppi_handler_requestcancel := True\<rparr>) else None)"

definition PacketPassInterface_Done :: "PacketPassInterface \<Rightarrow> PacketPassInterface option" where
  "PacketPassInterface_Done i =
     (if ppi_state i = STATE_BUSY then
        Some (i\<lparr>ppi_jobs := job_set Job_done (job_unset Job_requestcancel (ppi_jobs i)),
                ppi_state := STATE_DONE_PENDING\<rparr>)
      else None)"

definition PacketPassInterface_Sender_Init :: "PacketPassInterface \<Rightarrow> PacketPassInterface option" where
  "PacketPassInterface_Sender_Init i =
     (if \<not> ppi_handler_done i then Some (i\<lparr>ppi_handler_done := True\<rparr>) else None)"

definition PacketPassInterface_Sender_Send :: "packet_arg \<Rightarrow> PacketPassInterface \<Rightarrow> PacketPassInterface option" where
  "PacketPassInterface_Sender_Send arg i =
     (case arg of (data, data_len) \<Rightarrow>
      if data_len \<ge> 0 \<and> data_len \<le> ppi_mtu i \<and> (\<not> data_len > 0 \<or> data \<noteq> None) \<and>
         ppi_state i = STATE_NONE \<and> ppi_handler_done i
      then Some (i\<lparr>ppi_operation := (data, data_len), ppi_jobs := job_set Job_operation (ppi_jobs i),
                   ppi_state := STATE_OPERATION_PENDING, ppi_cancel_requested := False\<rparr>)
      else None)"

definition PacketPassInterface_Sender_RequestCancel :: "PacketPassInterface \<Rightarrow> PacketPassInterface option" where
  "PacketPassInterface_Sender_RequestCancel i =
     (if ppi_state i \<in> {STATE_OPERATION_PENDING, STATE_BUSY, STATE_DONE_PENDING} \<and> ppi_handler_requestcancel i
      then if ppi_cancel_requested i then Some i
           else let i1 = i\<lparr>ppi_cancel_requested := True\<rparr> in
             if ppi_state i1 = STATE_OPERATION_PENDING
             then Some (i1\<lparr>ppi_jobs := job_set Job_done (job_unset Job_operation (ppi_jobs i1)),
                           ppi_state := STATE_DONE_PENDING\<rparr>)
             else if ppi_state i1 = STATE_BUSY
             then Some (i1\<lparr>ppi_jobs := job_set Job_requestcancel (ppi_jobs i1)\<rparr>)
             else Some i1
      else None)"

definition PacketPassInterface_job_operation ::
    "PacketPassInterface \<Rightarrow> (PacketPassInterface \<times> (packet_arg, unit) iface_call) option" where
  "PacketPassInterface_job_operation i =
     (if ppi_state i = STATE_OPERATION_PENDING
      then Some (i\<lparr>ppi_state := STATE_BUSY\<rparr>, handler_operation (ppi_operation i)) else None)"

definition PacketPassInterface_job_requestcancel ::
    "PacketPassInterface \<Rightarrow> (PacketPassInterface \<times> (packet_arg, unit) iface_call) option" where
  "PacketPassInterface_job_requestcancel i =
     (if ppi_state i = STATE_BUSY \<and> ppi_cancel_requested i \<and> ppi_handler_requestcancel i
      then Some (i, handler_requestcancel) else None)"

definition PacketPassInterface_job_done ::
    "PacketPassInterface \<Rightarrow> (PacketPassInterface \<times> (packet_arg, unit) iface_call) option" where
  "PacketPassInterface_job_done i =
     (if ppi_state i = STATE_DONE_PENDING
      then Some (i\<lparr>ppi_state := STATE_NONE\<rparr>, handler_done ()) else None)"

text \<open>The pending group takes the job off its list and runs its handler.\<close>

definition ppi_run_job :: "PacketPassInterface \<Rightarrow> (PacketPassInterface \<times> (packet_arg, unit) iface_call) option" where
  "ppi_run_job i =
     (case ppi_jobs i of [] \<Rightarrow> None
      | j # js \<Rightarrow> let i1 = i\<lparr>ppi_jobs := js\<rparr> in
          (case j of Job_operation \<Rightarrow> PacketPassInterface_job_operation i1
           | Job_requestcancel \<Rightarrow> PacketPassInterface_job_requestcancel i1
           | Job_done \<Rightarrow> PacketPassInterface_job_done i1))"

section \<open>PacketRecvInterface\<close>

record PacketRecvInterface =
  pri_mtu :: int
  pri_handler_done :: bool
  pri_operation :: "int option"
  pri_done_len :: int
  pri_state :: iface_state
  pri_jobs :: "iface_job list"

definition PacketRecvInterface_Init :: "int \<Rightarrow> PacketRecvInterface option" where
  "PacketRecvInterface_Init mtu =
     (if mtu \<ge> 0 then
        Some \<lparr>pri_mtu = mtu, pri_handler_done = False, pri_operation = None, pri_done_len = 0,
              pri_state = STATE_NONE, pri_jobs = []\<rparr>
      else None)"

definition PacketRecvInterface_Done :: "int \<Rightarrow> PacketRecvInterface \<Rightarrow> PacketRecvInterface option" where
  "PacketRecvInterface_Done data_len i =
     (if data_len \<ge> 0 \<and> data_len \<le> pri_mtu i \<and> pri_state i = STATE_BUSY
      then Some (i\<lparr>pri_done_len := data_len, pri_jobs := job_set Job_done (pri_jobs i),
                   pri_state := STATE_DONE_PENDING\<rparr>)
      else None)"

definition PacketRecvInterface_Receiver_Init :: "PacketRecvInterface \<Rightarrow> PacketRecvInterface option" where
  "PacketRecvInterface_Receiver_Init i =
     (if \<not> pri_handler_done i then Some (i\<lparr>pri_handler_done := True\<rparr>) else None)"

definition PacketRecvInterface_Receiver_Recv :: "int option \<Rightarrow> PacketRecvInterface \<Rightarrow> PacketRecvInterface option" where
  "PacketRecvInterface_Receiver_Recv data i =
     (if (\<not> pri_mtu i > 0 \<or> data \<noteq> None) \<and> pri_state i = STATE_NONE \<and> pri_handler_done i
      then Some (i\<lparr>pri_operation := data, pri_jobs := job_set Job_operation (pri_jobs i),
                   pri_state := STATE_OPERATION_PENDING\<rparr>)
      else None)"

definition PacketRecvInterface_job_operation ::
    "PacketRecvInterface \<Rightarrow> (PacketRecvInterface \<times> (int option, int) iface_call) option" where
  "PacketRecvInterface_job_operation i =
     (if pri_state i = STATE_OPERATION_PENDING
      then Some (i\<lparr>pri_state := STATE_BUSY\<rparr>, handler_operation (pri_operation i)) else None)"

definition PacketRecvInterface_job_done ::
    "PacketRecvInterface \<Rightarrow> (PacketRecvInterface \<times> (int option, int) iface_call) option" where
  "PacketRecvInterface_job_done i =
     (if pri_state i = STATE_DONE_PENDING
      then Some (i\<lparr>pri_state := STATE_NONE\<rparr>, handler_done (pri_done_len i)) else None)"

definition pri_run_job :: "PacketRecvInterface \<Rightarrow> (PacketRecvInterface \<times> (int option, int) iface_call) option" where
  "pri_run_job i =
     (case pri_jobs i of [] \<Rightarrow> None
      | j # js \<Rightarrow> let i1 = i\<lparr>pri_jobs := js\<rparr> in
          (case j of Job_operation \<Rightarrow> PacketRecvInterface_job_operation i1
           | Job_done \<Rightarrow> PacketRecvInterface_job_done i1
           | Job_requestcancel \<Rightarrow> None))"

section \<open>StreamPassInterface\<close>

record StreamPassInterface =
  spi_handler_done :: bool
  spi_operation :: packet_arg
  spi_done_len :: int
  spi_state :: iface_state
  spi_jobs :: "iface_job list"

definition StreamPassInterface_Init :: StreamPassInterface where
  "StreamPassInterface_Init =
     \<lparr>spi_handler_done = False, spi_operation = (None, 0), spi_done_len = 0,
      spi_state = STATE_NONE, spi_jobs = []\<rparr>"

definition StreamPassInterface_Done :: "int \<Rightarrow> StreamPassInterface \<Rightarrow> StreamPassInterface option" where
  "StreamPassInterface_Done data_len i =
     (if spi_state i = STATE_BUSY \<and> data_len > 0 \<and> data_len \<le> snd (spi_operation i)
      then Some (i\<lparr>spi_done_len := data_len, spi_jobs := job_set Job_done (spi_jobs i),
                   spi_state := STATE_DONE_PENDING\<rparr>)
      else None)"

definition StreamPassInterface_Sender_Init :: "StreamPassInterface \<Rightarrow> StreamPassInterface option" where
  "StreamPassInterface_Sender_Init i =
     (if \<not> spi_handler_done i then Some (i\<lparr>spi_handler_done := True\<rparr>) else None)"

definition StreamPassInterface_Sender_Send :: "packet_arg \<Rightarrow> StreamPassInterface \<Rightarrow> StreamPassInterface option" where
  "StreamPassInterface_Sender_Send arg i =
     (case arg of (data, data_len) \<Rightarrow>
      if data_len > 0 \<and> data \<noteq> None \<and> spi_state i = STATE_NONE \<and> spi_handler_done i
      then Some (i\<lparr>spi_operation := (data, data_len), spi_jobs := job_set Job_operation (spi_jobs i),
                   spi_state := STATE_OPERATION_PENDING\<rparr>)
      else None)"

definition StreamPassInterface_job_operation ::
    "StreamPassInterface \<Rightarrow> (StreamPassInterface \<times> (packet_arg, int) iface_call) option" where
  "StreamPassInterface_job_operation i =
     (if spi_state i = STATE_OPERATION_PENDING
      then Some (i\<lparr>spi_state := STATE_BUSY\<rparr>, handler_operation (spi_operation i)) else None)"

definition StreamPassInterface_job_done ::
    "StreamPassInterface \<Rightarrow> (StreamPassInterface \<times> (packet_arg, int) iface_call) option" where
  "StreamPassInterface_job_done i =
     (if spi_state i = STATE_DONE_PENDING
      then Some (i\<lparr>spi_state := STATE_NONE\<rparr>, handler_done (spi_done_len i)) else None)"

definition spi_run_job :: "StreamPassInterface \<Rightarrow> (StreamPassInterface \<times> (packet_arg, int) iface_call) option" where
  "spi_run_job i =
     (case spi_jobs i of [] \<Rightarrow> None
      | j # js \<Rightarrow> let i1 = i\<lparr>spi_jobs := js\<rparr> in
          (case j of Job_operation \<Rightarrow> StreamPassInterface_job_operation i1
           | Job_done \<Rightarrow> StreamPassInterface_job_done i1
           | Job_requestcancel \<Rightarrow> None))"

section \<open>StreamRecvInterface\<close>

record StreamRecvInterface =
  sri_handler_done :: bool
  sri_operation :: packet_arg
  sri_done_len :: int
  sri_state :: iface_state
  sri_jobs :: "iface_job list"

definition StreamRecvInterface_Init :: StreamRecvInterface where
  "StreamRecvInterface_Init =
     \<lparr>sri_handler_done = False, sri_operation = (None, 0), sri_done_len = 0,
      sri_state = STATE_NONE, sri_jobs = []\<rparr>"

definition StreamRecvInterface_Done :: "int \<Rightarrow> StreamRecvInterface \<Rightarrow> StreamRecvInterface option" where
  "StreamRecvInterface_Done data_len i =
     (if sri_state i = STATE_BUSY \<and> data_len > 0 \<and> data_len \<le> snd (sri_operation i)
      then Some (i\<lparr>sri_done_len := data_len, sri_jobs := job_set Job_done (sri_jobs i),
                   sri_state := STATE_DONE_PENDING\<rparr>)
      else None)"

definition StreamRecvInterface_Receiver_Init :: "StreamRecvInterface \<Rightarrow> StreamRecvInterface option" where
  "StreamRecvInterface_Receiver_Init i =
     (if \<not> sri_handler_done i then Some (i\<lparr>sri_handler_done := True\<rparr>) else None)"

definition StreamRecvInterface_Receiver_Recv :: "packet_arg \<Rightarrow> StreamRecvInterface \<Rightarrow> StreamRecvInterface option" where
  "StreamRecvInterface_Receiver_Recv arg i =
     (case arg of (data, data_len) \<Rightarrow>
      if data_len > 0 \<and> data \<noteq> None \<and> sri_state i = STATE_NONE \<and> sri_handler_done i
      then Some (i\<lparr>sri_operation := (data, data_len), sri_jobs := job_set Job_operation (sri_jobs i),
                   sri_state := STATE_OPERATION_PENDING\<rparr>)
      else None)"

definition StreamRecvInterface_job_operation ::
    "StreamRecvInterface \<Rightarrow> (StreamRecvInterface \<times> (packet_arg, int) iface_call) option" where
  "StreamRecvInterface_job_operation i =
     (if sri_state i = STATE_OPERATION_PENDING
      then Some (i\<lparr>sri_state := STATE_BUSY\<rparr>, handler_operation (sri_operation i)) else None)"

definition StreamRecvInterface_job_done ::
    "StreamRecvInterface \<Rightarrow> (StreamRecvInterface \<times> (packet_arg, int) iface_call) option" where
  "StreamRecvInterface_job_done i =
     (if sri_state i = STATE_DONE_PENDING
      then Some (i\<lparr>sri_state := STATE_NONE\<rparr>, handler_done (sri_done_len i)) else None)"

definition sri_run_job :: "StreamRecvInterface \<Rightarrow> (StreamRecvInterface \<times> (packet_arg, int) iface_call) option" where
  "sri_run_job i =
     (case sri_jobs i of [] \<Rightarrow> None
      | j # js \<Rightarrow> let i1 = i\<lparr>sri_jobs := js\<rparr> in
          (case j of Job_operation \<Rightarrow> StreamRecvInterface_job_operation i1
           | Job_done \<Rightarrow> StreamRecvInterface_job_done i1
           | Job_requestcancel \<Rightarrow> None))"

section \<open>The contract shared by the interfaces\<close>

text \<open>
  The specification automaton: a request is delivered to the provider once, with its
  arguments, and completed once. \<^verbatim>\<open>valid\<close> says which requests the user may make and
  \<^verbatim>\<open>valid_done\<close> which completions the provider may report for a request.
\<close>

datatype ('a, 'b) phase = Idle | Requested 'a | Busy 'a | Finishing 'b

datatype ('a, 'b) iface_event = Request 'a | RunJob | Finish 'b

fun phase_event ::
    "('a \<Rightarrow> bool) \<Rightarrow> ('a \<Rightarrow> 'b \<Rightarrow> bool) \<Rightarrow> ('a, 'b) iface_event \<Rightarrow> ('a, 'b) phase \<Rightarrow>
     (('a, 'b) phase \<times> ('a, 'b) iface_call list) option" where
  "phase_event valid valid_done (Request a) Idle = (if valid a then Some (Requested a, []) else None)"
| "phase_event valid valid_done RunJob (Requested a) = Some (Busy a, [handler_operation a])"
| "phase_event valid valid_done (Finish b) (Busy a) = (if valid_done a b then Some (Finishing b, []) else None)"
| "phase_event valid valid_done RunJob (Finishing b) = Some (Idle, [handler_done b])"
| "phase_event valid valid_done _ _ = None"

fun iface_step ::
    "('a \<Rightarrow> 's \<Rightarrow> 's option) \<Rightarrow> ('s \<Rightarrow> ('s \<times> ('a, 'b) iface_call) option) \<Rightarrow> ('b \<Rightarrow> 's \<Rightarrow> 's option) \<Rightarrow>
     ('a, 'b) iface_event \<Rightarrow> 's \<Rightarrow> ('s \<times> ('a, 'b) iface_call list) option" where
  "iface_step request run_job finish (Request a) s = map_option (\<lambda>s'. (s', [])) (request a s)"
| "iface_step request run_job finish RunJob s = map_option (\<lambda>(s', c). (s', [c])) (run_job s)"
| "iface_step request run_job finish (Finish b) s = map_option (\<lambda>s'. (s', [])) (finish b s)"

fun traced :: "('e \<Rightarrow> 's \<Rightarrow> ('s \<times> 'o list) option) \<Rightarrow> 'e list \<Rightarrow> 's \<Rightarrow> ('s \<times> 'o list) option" where
  "traced step [] s = Some (s, [])"
| "traced step (e # es) s =
     Option.bind (step e s) (\<lambda>(s1, o1). map_option (\<lambda>(s2, o2). (s2, o1 @ o2)) (traced step es s1))"

locale request_interface =
  fixes inv :: "'s \<Rightarrow> bool" and phase :: "'s \<Rightarrow> ('a, 'b) phase"
    and request :: "'a \<Rightarrow> 's \<Rightarrow> 's option"
    and run_job :: "'s \<Rightarrow> ('s \<times> ('a, 'b) iface_call) option"
    and finish :: "'b \<Rightarrow> 's \<Rightarrow> 's option"
    and valid :: "'a \<Rightarrow> bool" and valid_done :: "'a \<Rightarrow> 'b \<Rightarrow> bool"
  assumes request_idle: "inv s \<Longrightarrow> phase s = Idle \<Longrightarrow> valid a \<Longrightarrow>
      \<exists>s'. request a s = Some s' \<and> inv s' \<and> phase s' = Requested a"
    and run_requested: "inv s \<Longrightarrow> phase s = Requested a \<Longrightarrow>
      \<exists>s'. run_job s = Some (s', handler_operation a) \<and> inv s' \<and> phase s' = Busy a"
    and finish_busy: "inv s \<Longrightarrow> phase s = Busy a \<Longrightarrow> valid_done a b \<Longrightarrow>
      \<exists>s'. finish b s = Some s' \<and> inv s' \<and> phase s' = Finishing b"
    and run_finishing: "inv s \<Longrightarrow> phase s = Finishing b \<Longrightarrow>
      \<exists>s'. run_job s = Some (s', handler_done b) \<and> inv s' \<and> phase s' = Idle"
begin

lemma event_simulates:
  assumes "inv s" "phase_event valid valid_done e (phase s) = Some (p, out)"
  shows "\<exists>s'. iface_step request run_job finish e s = Some (s', out) \<and> inv s' \<and> phase s' = p"
  using assms request_idle [of s] run_requested [of s] finish_busy [of s] run_finishing [of s]
  by (cases "(valid, valid_done, e, phase s)" rule: phase_event.cases) (fastforce split: if_splits)+

lemma run_simulates:
  "inv s \<Longrightarrow> traced (phase_event valid valid_done) es (phase s) = Some (p, out) \<Longrightarrow>
     \<exists>s'. traced (iface_step request run_job finish) es s = Some (s', out) \<and> inv s' \<and> phase s' = p"
proof (induction es arbitrary: s out)
  case (Cons e es)
  then obtain p1 o1 o2 where 1: "phase_event valid valid_done e (phase s) = Some (p1, o1)"
    and 2: "traced (phase_event valid valid_done) es p1 = Some (p, o2)" and out: "out = o1 @ o2"
    by (auto simp: option_bind_eq_Some)
  obtain s1 where s1: "iface_step request run_job finish e s = Some (s1, o1)" "inv s1" "phase s1 = p1"
    using event_simulates [OF Cons.prems(1) 1] by blast
  then obtain s' where "traced (iface_step request run_job finish) es s1 = Some (s', o2)" "inv s'" "phase s' = p"
    using Cons.IH [of s1] 2 by blast
  then show ?case using s1(1) out by simp
qed simp

text \<open>One full exchange.\<close>

lemma exchange:
  assumes "inv s" "phase s = Idle" "valid a" "valid_done a b"
  shows "\<exists>s'. traced (iface_step request run_job finish) [Request a, RunJob, Finish b, RunJob] s =
      Some (s', [handler_operation a, handler_done b]) \<and> inv s' \<and> phase s' = Idle"
  using run_simulates [OF assms(1), of "[Request a, RunJob, Finish b, RunJob]"] assms(2-) by simp

end

definition ppi_inv :: "int \<Rightarrow> PacketPassInterface \<Rightarrow> bool" where
  "ppi_inv mtu i \<longleftrightarrow> ppi_mtu i = mtu \<and> ppi_handler_done i \<and>
     (case ppi_state i of
        STATE_NONE \<Rightarrow> ppi_jobs i = []
      | STATE_OPERATION_PENDING \<Rightarrow> ppi_jobs i = [Job_operation] \<and> \<not> ppi_cancel_requested i
      | STATE_BUSY \<Rightarrow> ppi_jobs i = [] \<or>
          ppi_jobs i = [Job_requestcancel] \<and> ppi_cancel_requested i \<and> ppi_handler_requestcancel i
      | STATE_DONE_PENDING \<Rightarrow> ppi_jobs i = [Job_done])"

definition ppi_phase :: "PacketPassInterface \<Rightarrow> (packet_arg, unit) phase" where
  "ppi_phase i = (case ppi_state i of STATE_NONE \<Rightarrow> Idle | STATE_OPERATION_PENDING \<Rightarrow> Requested (ppi_operation i)
     | STATE_BUSY \<Rightarrow> Busy (ppi_operation i) | STATE_DONE_PENDING \<Rightarrow> Finishing ())"

definition valid_packet :: "int \<Rightarrow> packet_arg \<Rightarrow> bool" where
  "valid_packet mtu = (\<lambda>(data, n). 0 \<le> n \<and> n \<le> mtu \<and> (n = 0 \<or> data \<noteq> None))"

lemmas job_simps [simp] = job_set_def job_unset_def

lemmas ppi_defs = ppi_inv_def ppi_run_job_def Let_def PacketPassInterface_Done_def
  PacketPassInterface_Sender_Send_def PacketPassInterface_job_operation_def
  PacketPassInterface_job_requestcancel_def PacketPassInterface_job_done_def

lemma ppi_phase_iff:
  "ppi_phase i = Idle \<longleftrightarrow> ppi_state i = STATE_NONE"
  "ppi_phase i = Requested a \<longleftrightarrow> ppi_state i = STATE_OPERATION_PENDING \<and> ppi_operation i = a"
  "ppi_phase i = Busy a \<longleftrightarrow> ppi_state i = STATE_BUSY \<and> ppi_operation i = a"
  "ppi_phase i = Finishing b \<longleftrightarrow> ppi_state i = STATE_DONE_PENDING"
  by (auto simp: ppi_phase_def split: iface_state.split)

interpretation ppi: request_interface "ppi_inv mtu" ppi_phase PacketPassInterface_Sender_Send ppi_run_job
  "\<lambda>_. PacketPassInterface_Done" "valid_packet mtu" "\<lambda>_ _. True"
  for mtu
  by unfold_locales (auto simp: ppi_phase_iff ppi_defs valid_packet_def)

definition pri_inv :: "int \<Rightarrow> PacketRecvInterface \<Rightarrow> bool" where
  "pri_inv mtu i \<longleftrightarrow> pri_mtu i = mtu \<and> pri_handler_done i \<and>
     (case pri_state i of STATE_NONE \<Rightarrow> pri_jobs i = [] | STATE_OPERATION_PENDING \<Rightarrow> pri_jobs i = [Job_operation]
      | STATE_BUSY \<Rightarrow> pri_jobs i = [] | STATE_DONE_PENDING \<Rightarrow> pri_jobs i = [Job_done])"

definition pri_phase :: "PacketRecvInterface \<Rightarrow> (int option, int) phase" where
  "pri_phase i = (case pri_state i of STATE_NONE \<Rightarrow> Idle | STATE_OPERATION_PENDING \<Rightarrow> Requested (pri_operation i)
     | STATE_BUSY \<Rightarrow> Busy (pri_operation i) | STATE_DONE_PENDING \<Rightarrow> Finishing (pri_done_len i))"

lemmas pri_defs = pri_inv_def pri_run_job_def Let_def PacketRecvInterface_Done_def
  PacketRecvInterface_Receiver_Recv_def PacketRecvInterface_job_operation_def PacketRecvInterface_job_done_def

lemma pri_phase_iff:
  "pri_phase i = Idle \<longleftrightarrow> pri_state i = STATE_NONE"
  "pri_phase i = Requested a \<longleftrightarrow> pri_state i = STATE_OPERATION_PENDING \<and> pri_operation i = a"
  "pri_phase i = Busy a \<longleftrightarrow> pri_state i = STATE_BUSY \<and> pri_operation i = a"
  "pri_phase i = Finishing b \<longleftrightarrow> pri_state i = STATE_DONE_PENDING \<and> pri_done_len i = b"
  by (auto simp: pri_phase_def split: iface_state.split)

interpretation pri: request_interface "pri_inv mtu" pri_phase PacketRecvInterface_Receiver_Recv pri_run_job
  PacketRecvInterface_Done "\<lambda>d. d \<noteq> None" "\<lambda>_ n. 0 \<le> n \<and> n \<le> mtu"
  for mtu
  by unfold_locales (auto simp: pri_phase_iff pri_defs)

definition valid_stream :: "packet_arg \<Rightarrow> bool" where
  "valid_stream = (\<lambda>(data, n). 0 < n \<and> data \<noteq> None)"

definition valid_stream_done :: "packet_arg \<Rightarrow> int \<Rightarrow> bool" where
  "valid_stream_done a n \<longleftrightarrow> 0 < n \<and> n \<le> snd a"

definition spi_inv :: "StreamPassInterface \<Rightarrow> bool" where
  "spi_inv i \<longleftrightarrow> spi_handler_done i \<and>
     (case spi_state i of STATE_NONE \<Rightarrow> spi_jobs i = [] | STATE_OPERATION_PENDING \<Rightarrow> spi_jobs i = [Job_operation]
      | STATE_BUSY \<Rightarrow> spi_jobs i = [] | STATE_DONE_PENDING \<Rightarrow> spi_jobs i = [Job_done])"

definition spi_phase :: "StreamPassInterface \<Rightarrow> (packet_arg, int) phase" where
  "spi_phase i = (case spi_state i of STATE_NONE \<Rightarrow> Idle | STATE_OPERATION_PENDING \<Rightarrow> Requested (spi_operation i)
     | STATE_BUSY \<Rightarrow> Busy (spi_operation i) | STATE_DONE_PENDING \<Rightarrow> Finishing (spi_done_len i))"

lemmas spi_defs = spi_inv_def spi_run_job_def Let_def StreamPassInterface_Done_def StreamPassInterface_Sender_Send_def
  StreamPassInterface_job_operation_def StreamPassInterface_job_done_def valid_stream_def valid_stream_done_def

lemma spi_phase_iff:
  "spi_phase i = Idle \<longleftrightarrow> spi_state i = STATE_NONE"
  "spi_phase i = Requested a \<longleftrightarrow> spi_state i = STATE_OPERATION_PENDING \<and> spi_operation i = a"
  "spi_phase i = Busy a \<longleftrightarrow> spi_state i = STATE_BUSY \<and> spi_operation i = a"
  "spi_phase i = Finishing b \<longleftrightarrow> spi_state i = STATE_DONE_PENDING \<and> spi_done_len i = b"
  by (auto simp: spi_phase_def split: iface_state.split)

interpretation spi: request_interface spi_inv spi_phase StreamPassInterface_Sender_Send spi_run_job
  StreamPassInterface_Done valid_stream valid_stream_done
  by unfold_locales (auto simp: spi_phase_iff spi_defs)

definition sri_inv :: "StreamRecvInterface \<Rightarrow> bool" where
  "sri_inv i \<longleftrightarrow> sri_handler_done i \<and>
     (case sri_state i of STATE_NONE \<Rightarrow> sri_jobs i = [] | STATE_OPERATION_PENDING \<Rightarrow> sri_jobs i = [Job_operation]
      | STATE_BUSY \<Rightarrow> sri_jobs i = [] | STATE_DONE_PENDING \<Rightarrow> sri_jobs i = [Job_done])"

definition sri_phase :: "StreamRecvInterface \<Rightarrow> (packet_arg, int) phase" where
  "sri_phase i = (case sri_state i of STATE_NONE \<Rightarrow> Idle | STATE_OPERATION_PENDING \<Rightarrow> Requested (sri_operation i)
     | STATE_BUSY \<Rightarrow> Busy (sri_operation i) | STATE_DONE_PENDING \<Rightarrow> Finishing (sri_done_len i))"

lemmas sri_defs = sri_inv_def sri_run_job_def Let_def StreamRecvInterface_Done_def StreamRecvInterface_Receiver_Recv_def
  StreamRecvInterface_job_operation_def StreamRecvInterface_job_done_def valid_stream_def valid_stream_done_def

lemma sri_phase_iff:
  "sri_phase i = Idle \<longleftrightarrow> sri_state i = STATE_NONE"
  "sri_phase i = Requested a \<longleftrightarrow> sri_state i = STATE_OPERATION_PENDING \<and> sri_operation i = a"
  "sri_phase i = Busy a \<longleftrightarrow> sri_state i = STATE_BUSY \<and> sri_operation i = a"
  "sri_phase i = Finishing b \<longleftrightarrow> sri_state i = STATE_DONE_PENDING \<and> sri_done_len i = b"
  by (auto simp: sri_phase_def split: iface_state.split)

interpretation sri: request_interface sri_inv sri_phase StreamRecvInterface_Receiver_Recv sri_run_job
  StreamRecvInterface_Done valid_stream valid_stream_done
  by unfold_locales (auto simp: sri_phase_iff sri_defs)

section \<open>Cancellation\<close>

text \<open>Everything a packet interface takes part in: what its user does, what its provider does
  and the calls its jobs make.\<close>

datatype ppi_action =
    USend packet_arg | UCancel | PDone | OpCall packet_arg | CancelCall | DoneCall

inductive ppi_step :: "PacketPassInterface \<Rightarrow> ppi_action \<Rightarrow> PacketPassInterface \<Rightarrow> bool" where
  send: "PacketPassInterface_Sender_Send a i = Some i' \<Longrightarrow> ppi_step i (USend a) i'"
| cancel: "PacketPassInterface_Sender_RequestCancel i = Some i' \<Longrightarrow> ppi_step i UCancel i'"
| provider_done: "PacketPassInterface_Done i = Some i' \<Longrightarrow> ppi_step i PDone i'"
| op_call: "ppi_run_job i = Some (i', handler_operation a) \<Longrightarrow> ppi_step i (OpCall a) i'"
| cancel_call: "ppi_run_job i = Some (i', handler_requestcancel) \<Longrightarrow> ppi_step i CancelCall i'"
| done_call: "ppi_run_job i = Some (i', handler_done ()) \<Longrightarrow> ppi_step i DoneCall i'"

inductive_cases ppi_step_elims:
  "ppi_step i (USend a) i'" "ppi_step i UCancel i'" "ppi_step i PDone i'"
  "ppi_step i (OpCall a) i'" "ppi_step i CancelCall i'" "ppi_step i DoneCall i'"

inductive ppi_trace :: "PacketPassInterface \<Rightarrow> ppi_action list \<Rightarrow> PacketPassInterface \<Rightarrow> bool" where
  empty: "ppi_trace i [] i"
| snoc: "ppi_trace i tr i1 \<Longrightarrow> ppi_step i1 a i2 \<Longrightarrow> ppi_trace i (tr @ [a]) i2"

text \<open>The specification of an exchange with cancellation: \<^verbatim>\<open>CBusy a c n\<close> is an operation at the
  provider, with cancellation asked for (\<^verbatim>\<open>c\<close>) and passed on (\<^verbatim>\<open>n\<close>).\<close>

datatype cphase = CIdle | CRequested packet_arg | CBusy packet_arg bool bool | CFinishing

fun cphase_step :: "ppi_action \<Rightarrow> cphase \<Rightarrow> cphase option" where
  "cphase_step (USend a) CIdle = Some (CRequested a)"
| "cphase_step (OpCall b) (CRequested a) = (if b = a then Some (CBusy a False False) else None)"
| "cphase_step UCancel (CRequested a) = Some CFinishing"
| "cphase_step UCancel (CBusy a c n) = Some (CBusy a True n)"
| "cphase_step CancelCall (CBusy a c n) = (if c \<and> \<not> n then Some (CBusy a True True) else None)"
| "cphase_step PDone (CBusy a c n) = Some CFinishing"
| "cphase_step UCancel CFinishing = Some CFinishing"
| "cphase_step DoneCall CFinishing = Some CIdle"
| "cphase_step _ _ = None"

fun cphase_run :: "ppi_action list \<Rightarrow> cphase \<Rightarrow> cphase option" where
  "cphase_run [] p = Some p"
| "cphase_run (a # as) p = Option.bind (cphase_step a p) (cphase_run as)"

lemma cphase_run_append: "cphase_run (as @ bs) p = Option.bind (cphase_run as p) (cphase_run bs)"
  by (induction as arbitrary: p) (auto simp: Option.bind_assoc split: bind_splits)

definition ppi_cphase :: "PacketPassInterface \<Rightarrow> cphase" where
  "ppi_cphase i =
     (case ppi_state i of STATE_NONE \<Rightarrow> CIdle
      | STATE_OPERATION_PENDING \<Rightarrow> CRequested (ppi_operation i)
      | STATE_BUSY \<Rightarrow> CBusy (ppi_operation i) (ppi_cancel_requested i) (ppi_cancel_requested i \<and> ppi_jobs i = [])
      | STATE_DONE_PENDING \<Rightarrow> CFinishing)"

lemma ppi_step_simulates:
  assumes "ppi_step i a i'" "ppi_inv mtu i"
  shows "ppi_inv mtu i' \<and> cphase_step a (ppi_cphase i) = Some (ppi_cphase i')"
  using assms
proof (cases rule: ppi_step.cases)
  case (send b)
  then show ?thesis using assms(2) by (cases b) (auto simp: ppi_defs ppi_cphase_def split: if_splits)
next
  case cancel
  then show ?thesis
    using assms(2) by (cases "ppi_state i")
      (auto simp: ppi_defs ppi_cphase_def PacketPassInterface_Sender_RequestCancel_def split: if_splits)
next
  case provider_done
  then show ?thesis using assms(2) by (auto simp: ppi_defs ppi_cphase_def split: if_splits)
qed (use assms(2) in \<open>cases "ppi_state i"; auto simp: ppi_defs ppi_cphase_def split: if_splits\<close>)+

lemma ppi_trace_simulates:
  "ppi_trace i tr i' \<Longrightarrow> ppi_inv mtu i \<Longrightarrow> ppi_inv mtu i' \<and> cphase_run tr (ppi_cphase i) = Some (ppi_cphase i')"
  by (induction rule: ppi_trace.induct) (auto simp: cphase_run_append dest: ppi_step_simulates)

lemma ppi_job_runs: "ppi_inv mtu i \<Longrightarrow> ppi_jobs i \<noteq> [] \<Longrightarrow> ppi_run_job i \<noteq> None"
  by (cases "ppi_state i") (auto simp: ppi_defs)

section \<open>Properties\<close>

text \<open>
  C21: an exchange over a packet interface, with cancellation. Whatever its user and provider
  do within the assertions, the sequence of their actions and of the calls made by the
  interface is one the specification allows: a packet is handed to the provider at most
  once and unchanged, a cancelled request that has not reached the provider never reaches
  it, the provider hears of a cancellation at most once and only while it is busy, and
  every send is completed exactly once. No job that is set fails its assertions, and in a
  state between request and completion some job is set unless the provider is busy.
\<close>

theorem ppi_cancel_protocol:
  assumes "0 \<le> mtu"
    and "Option.bind (Option.bind (PacketPassInterface_Init mtu) PacketPassInterface_EnableCancel)
           PacketPassInterface_Sender_Init = Some i0"
    and "ppi_trace i0 tr i"
  shows "cphase_run tr CIdle = Some (ppi_cphase i) \<and>
     (ppi_jobs i \<noteq> [] \<longrightarrow> ppi_run_job i \<noteq> None) \<and>
     (ppi_jobs i = [] \<longrightarrow> ppi_state i = STATE_NONE \<or> ppi_state i = STATE_BUSY)"
proof -
  have i0: "ppi_inv mtu i0" "ppi_cphase i0 = CIdle"
    using assms(1,2) by (auto simp: PacketPassInterface_Init_def PacketPassInterface_EnableCancel_def
        PacketPassInterface_Sender_Init_def ppi_inv_def ppi_cphase_def)
  then have i: "ppi_inv mtu i" "cphase_run tr CIdle = Some (ppi_cphase i)"
    using ppi_trace_simulates [OF assms(3)] by auto
  moreover have "ppi_jobs i = [] \<longrightarrow> ppi_state i = STATE_NONE \<or> ppi_state i = STATE_BUSY"
    using i(1) by (cases "ppi_state i") (auto simp: ppi_inv_def)
  ultimately show ?thesis using ppi_job_runs by blast
qed

theorem ppi_cancel_protocol_witness:
  "\<exists>i0 i. Option.bind (Option.bind (PacketPassInterface_Init 10) PacketPassInterface_EnableCancel)
           PacketPassInterface_Sender_Init = Some i0 \<and>
     ppi_trace i0 [USend (Some 0, 5), UCancel] i \<and> cphase_run [USend (Some 0, 5), UCancel] CIdle = Some (ppi_cphase i)"
proof -
  define i0 where "i0 = \<lparr>ppi_mtu = 10, ppi_handler_requestcancel = True, ppi_handler_done = True,
      ppi_operation = (None, 0), ppi_state = STATE_NONE, ppi_cancel_requested = False, ppi_jobs = []\<rparr>"
  have 0: "Option.bind (Option.bind (PacketPassInterface_Init 10) PacketPassInterface_EnableCancel)
           PacketPassInterface_Sender_Init = Some i0"
    by (simp add: i0_def PacketPassInterface_Init_def PacketPassInterface_EnableCancel_def
        PacketPassInterface_Sender_Init_def)
  let ?i1 = "i0\<lparr>ppi_operation := (Some 0, 5), ppi_jobs := [Job_operation], ppi_state := STATE_OPERATION_PENDING\<rparr>"
  let ?i2 = "?i1\<lparr>ppi_cancel_requested := True, ppi_jobs := [Job_done], ppi_state := STATE_DONE_PENDING\<rparr>"
  have "ppi_trace i0 ([] @ [USend (Some 0, 5)]) ?i1"
    by (rule ppi_trace.intros ppi_step.intros)+ (simp add: i0_def PacketPassInterface_Sender_Send_def)
  moreover have "ppi_step ?i1 UCancel ?i2"
    by (rule ppi_step.cancel) (simp add: i0_def PacketPassInterface_Sender_RequestCancel_def)
  ultimately have t: "ppi_trace i0 (([] @ [USend (Some 0, 5)]) @ [UCancel]) ?i2"
    by (rule ppi_trace.snoc)
  show ?thesis using ppi_cancel_protocol [OF _ 0 t] 0 t by auto
qed

text \<open>
  A stream receiver and its provider see each request and each completion exactly once and
  unchanged: every legal interleaving of requests, jobs and completions, as the
  specification automaton defines it, is carried out by the interface with the same
  handler calls, and no assertion fails.
\<close>

theorem sri_refines_protocol:
  assumes "StreamRecvInterface_Receiver_Init StreamRecvInterface_Init = Some i"
    and "traced (phase_event valid_stream valid_stream_done) es Idle = Some (p, out)"
  shows "\<exists>i'. traced (iface_step StreamRecvInterface_Receiver_Recv sri_run_job StreamRecvInterface_Done) es i = Some (i', out) \<and>
     sri_phase i' = p"
proof -
  have "sri_inv i" "sri_phase i = Idle"
    using assms(1) by (auto simp: StreamRecvInterface_Receiver_Init_def StreamRecvInterface_Init_def
        sri_inv_def sri_phase_def)
  then show ?thesis using sri.run_simulates [of i es p out] assms(2) by auto
qed

theorem sri_refines_protocol_witness:
  "\<exists>i i'. StreamRecvInterface_Receiver_Init StreamRecvInterface_Init = Some i \<and>
     traced (iface_step StreamRecvInterface_Receiver_Recv sri_run_job StreamRecvInterface_Done)
       [Request (Some 0, 8), RunJob, Finish 3, RunJob] i =
     Some (i', [handler_operation (Some 0, 8), handler_done 3]) \<and> sri_phase i' = Idle"
proof -
  obtain i where i: "StreamRecvInterface_Receiver_Init StreamRecvInterface_Init = Some i"
    by (auto simp: StreamRecvInterface_Receiver_Init_def StreamRecvInterface_Init_def)
  show ?thesis
    using i sri_refines_protocol [OF i, of "[Request (Some 0, 8), RunJob, Finish 3, RunJob]"]
    by (simp add: valid_stream_def valid_stream_done_def)
qed

end
