(* ===== verification/Byteorder.thy ===== *)
theory Byteorder
  imports Prelude
begin

text \<open>
  Byte order conversion (\<^verbatim>\<open>misc/byteorder.h\<close>) and the pointer based integer readers and
  writers (\<^verbatim>\<open>misc/read_write_int.h\<close>). The build defines
  \<^verbatim>\<open>BADVPN_LITTLE_ENDIAN\<close>, so that branch of \<^verbatim>\<open>byteorder.h\<close> is the one modelled: the bytes
  of an integer lie in memory least significant first (\<^verbatim>\<open>mem16\<close>, \<^verbatim>\<open>mem32\<close>, \<^verbatim>\<open>mem64\<close>).
  A reader takes the bytes from the pointer onwards; a writer returns the bytes it stores.
\<close>

section \<open>Object representation on the little endian target\<close>

definition mem16 :: "u16 \<Rightarrow> bytes" where
  "mem16 x = [ucast x, ucast (drop_bit 8 x)]"

definition mem32 :: "u32 \<Rightarrow> bytes" where
  "mem32 x = [ucast x, ucast (drop_bit 8 x), ucast (drop_bit 16 x), ucast (drop_bit 24 x)]"

definition mem64 :: "u64 \<Rightarrow> bytes" where
  "mem64 x = [ucast x, ucast (drop_bit 8 x), ucast (drop_bit 16 x), ucast (drop_bit 24 x),
              ucast (drop_bit 32 x), ucast (drop_bit 40 x), ucast (drop_bit 48 x), ucast (drop_bit 56 x)]"

section \<open>Readers\<close>

definition badvpn_read_le8 :: "bytes \<Rightarrow> u8" where
  "badvpn_read_le8 p = p ! 0"

definition badvpn_read_le16 :: "bytes \<Rightarrow> u16" where
  "badvpn_read_le16 p = push_bit 8 (ucast (p ! 1)) OR ucast (p ! 0)"

definition badvpn_read_le32 :: "bytes \<Rightarrow> u32" where
  "badvpn_read_le32 p =
     push_bit 24 (ucast (p ! 3)) OR push_bit 16 (ucast (p ! 2)) OR
     push_bit 8 (ucast (p ! 1)) OR ucast (p ! 0)"

definition badvpn_read_le64 :: "bytes \<Rightarrow> u64" where
  "badvpn_read_le64 p =
     push_bit 56 (ucast (p ! 7)) OR push_bit 48 (ucast (p ! 6)) OR
     push_bit 40 (ucast (p ! 5)) OR push_bit 32 (ucast (p ! 4)) OR
     push_bit 24 (ucast (p ! 3)) OR push_bit 16 (ucast (p ! 2)) OR
     push_bit 8 (ucast (p ! 1)) OR ucast (p ! 0)"

definition badvpn_read_be8 :: "bytes \<Rightarrow> u8" where
  "badvpn_read_be8 p = p ! 0"

definition badvpn_read_be16 :: "bytes \<Rightarrow> u16" where
  "badvpn_read_be16 p = push_bit 8 (ucast (p ! 0)) OR ucast (p ! 1)"

definition badvpn_read_be32 :: "bytes \<Rightarrow> u32" where
  "badvpn_read_be32 p =
     push_bit 24 (ucast (p ! 0)) OR push_bit 16 (ucast (p ! 1)) OR
     push_bit 8 (ucast (p ! 2)) OR ucast (p ! 3)"

definition badvpn_read_be64 :: "bytes \<Rightarrow> u64" where
  "badvpn_read_be64 p =
     push_bit 56 (ucast (p ! 0)) OR push_bit 48 (ucast (p ! 1)) OR
     push_bit 40 (ucast (p ! 2)) OR push_bit 32 (ucast (p ! 3)) OR
     push_bit 24 (ucast (p ! 4)) OR push_bit 16 (ucast (p ! 5)) OR
     push_bit 8 (ucast (p ! 6)) OR ucast (p ! 7)"

section \<open>Writers\<close>

definition badvpn_write_le8 :: "u8 \<Rightarrow> bytes" where
  "badvpn_write_le8 x = [x]"

definition badvpn_write_le16 :: "u16 \<Rightarrow> bytes" where
  "badvpn_write_le16 x = [ucast x, ucast (drop_bit 8 x)]"

definition badvpn_write_le32 :: "u32 \<Rightarrow> bytes" where
  "badvpn_write_le32 x = [ucast x, ucast (drop_bit 8 x), ucast (drop_bit 16 x), ucast (drop_bit 24 x)]"

definition badvpn_write_le64 :: "u64 \<Rightarrow> bytes" where
  "badvpn_write_le64 x =
     [ucast x, ucast (drop_bit 8 x), ucast (drop_bit 16 x), ucast (drop_bit 24 x),
      ucast (drop_bit 32 x), ucast (drop_bit 40 x), ucast (drop_bit 48 x), ucast (drop_bit 56 x)]"

definition badvpn_write_be8 :: "u8 \<Rightarrow> bytes" where
  "badvpn_write_be8 x = [x]"

definition badvpn_write_be16 :: "u16 \<Rightarrow> bytes" where
  "badvpn_write_be16 x = [ucast (drop_bit 8 x), ucast x]"

definition badvpn_write_be32 :: "u32 \<Rightarrow> bytes" where
  "badvpn_write_be32 x = [ucast (drop_bit 24 x), ucast (drop_bit 16 x), ucast (drop_bit 8 x), ucast x]"

definition badvpn_write_be64 :: "u64 \<Rightarrow> bytes" where
  "badvpn_write_be64 x =
     [ucast (drop_bit 56 x), ucast (drop_bit 48 x), ucast (drop_bit 40 x), ucast (drop_bit 32 x),
      ucast (drop_bit 24 x), ucast (drop_bit 16 x), ucast (drop_bit 8 x), ucast x]"

section \<open>Byte order conversion\<close>

definition badvpn_reverse16 :: "u16 \<Rightarrow> u16" where
  "badvpn_reverse16 x = badvpn_read_le16 [mem16 x ! 1, mem16 x ! 0]"

definition badvpn_reverse32 :: "u32 \<Rightarrow> u32" where
  "badvpn_reverse32 x = badvpn_read_le32 [mem32 x ! 3, mem32 x ! 2, mem32 x ! 1, mem32 x ! 0]"

definition badvpn_reverse64 :: "u64 \<Rightarrow> u64" where
  "badvpn_reverse64 x =
     badvpn_read_le64 [mem64 x ! 7, mem64 x ! 6, mem64 x ! 5, mem64 x ! 4,
                       mem64 x ! 3, mem64 x ! 2, mem64 x ! 1, mem64 x ! 0]"

definition hton8 :: "u8 \<Rightarrow> u8" where "hton8 x = x"
definition htol8 :: "u8 \<Rightarrow> u8" where "htol8 x = x"
definition hton16 :: "u16 \<Rightarrow> u16" where "hton16 x = badvpn_reverse16 x"
definition hton32 :: "u32 \<Rightarrow> u32" where "hton32 x = badvpn_reverse32 x"
definition hton64 :: "u64 \<Rightarrow> u64" where "hton64 x = badvpn_reverse64 x"
definition htol16 :: "u16 \<Rightarrow> u16" where "htol16 x = x"
definition htol32 :: "u32 \<Rightarrow> u32" where "htol32 x = x"
definition htol64 :: "u64 \<Rightarrow> u64" where "htol64 x = x"
definition ntoh8 :: "u8 \<Rightarrow> u8" where "ntoh8 x = hton8 x"
definition ntoh16 :: "u16 \<Rightarrow> u16" where "ntoh16 x = hton16 x"
definition ntoh32 :: "u32 \<Rightarrow> u32" where "ntoh32 x = hton32 x"
definition ntoh64 :: "u64 \<Rightarrow> u64" where "ntoh64 x = hton64 x"
definition ltoh8 :: "u8 \<Rightarrow> u8" where "ltoh8 x = htol8 x"
definition ltoh16 :: "u16 \<Rightarrow> u16" where "ltoh16 x = htol16 x"
definition ltoh32 :: "u32 \<Rightarrow> u32" where "ltoh32 x = htol32 x"
definition ltoh64 :: "u64 \<Rightarrow> u64" where "ltoh64 x = htol64 x"

lemmas byteorder_defs =
  hton8_def htol8_def hton16_def hton32_def hton64_def htol16_def htol32_def htol64_def
  ntoh8_def ntoh16_def ntoh32_def ntoh64_def ltoh8_def ltoh16_def ltoh32_def ltoh64_def

lemmas write_defs =
  badvpn_write_le8_def badvpn_write_le16_def badvpn_write_le32_def badvpn_write_le64_def
  badvpn_write_be8_def badvpn_write_be16_def badvpn_write_be32_def badvpn_write_be64_def

lemmas read_defs =
  badvpn_read_le8_def badvpn_read_le16_def badvpn_read_le32_def badvpn_read_le64_def
  badvpn_read_be8_def badvpn_read_be16_def badvpn_read_be32_def badvpn_read_be64_def

section \<open>Round trips\<close>

lemma length_write [simp]:
  "length (badvpn_write_le8 x8) = 1" "length (badvpn_write_le16 x16) = 2"
  "length (badvpn_write_le32 x32) = 4" "length (badvpn_write_le64 x64) = 8"
  "length (badvpn_write_be8 x8) = 1" "length (badvpn_write_be16 x16) = 2"
  "length (badvpn_write_be32 x32) = 4" "length (badvpn_write_be64 x64) = 8"
  by (simp_all add: write_defs)

lemma read_write_le16 [simp]: "badvpn_read_le16 (badvpn_write_le16 x @ r) = x"
  by (rule bit_word_eqI) (auto simp: read_defs write_defs bit_or_iff bit_byte_piece bit_byte_piece_0)

lemma read_write_le32 [simp]: "badvpn_read_le32 (badvpn_write_le32 x @ r) = x"
  by (rule bit_word_eqI) (auto simp: read_defs write_defs bit_or_iff bit_byte_piece bit_byte_piece_0)

lemma read_write_le64 [simp]: "badvpn_read_le64 (badvpn_write_le64 x @ r) = x"
  by (rule bit_word_eqI) (auto simp: read_defs write_defs bit_or_iff bit_byte_piece bit_byte_piece_0)

lemma read_write_be16 [simp]: "badvpn_read_be16 (badvpn_write_be16 x @ r) = x"
  by (rule bit_word_eqI) (auto simp: read_defs write_defs bit_or_iff bit_byte_piece bit_byte_piece_0)

lemma read_write_be32 [simp]: "badvpn_read_be32 (badvpn_write_be32 x @ r) = x"
  by (rule bit_word_eqI) (auto simp: read_defs write_defs bit_or_iff bit_byte_piece bit_byte_piece_0)

lemma read_write_be64 [simp]: "badvpn_read_be64 (badvpn_write_be64 x @ r) = x"
  by (rule bit_word_eqI) (auto simp: read_defs write_defs bit_or_iff bit_byte_piece bit_byte_piece_0)

text \<open>The conversion functions of \<^verbatim>\<open>byteorder.h\<close>, seen through memory, store and load the
  same bytes as the writers and readers of \<^verbatim>\<open>read_write_int.h\<close>.\<close>

lemma mem_hton [simp]:
  "mem16 (hton16 x16) = badvpn_write_be16 x16"
  "mem32 (hton32 x32) = badvpn_write_be32 x32"
  "mem64 (hton64 x64) = badvpn_write_be64 x64"
  by (simp_all add: byteorder_defs badvpn_reverse16_def badvpn_reverse32_def badvpn_reverse64_def
      mem16_def mem32_def mem64_def read_defs write_defs)
     (auto intro!: bit_word_eqI simp: bit_simps)

lemma length_mem [simp]: "length (mem16 a) = 2" "length (mem32 b) = 4" "length (mem64 c) = 8"
  by (simp_all add: mem16_def mem32_def mem64_def)

end
