(* ===== verification/Chunk_Buffer.thy ===== *)
theory Chunk_Buffer
  imports Bsize Byteorder
begin

text \<open>
  The packet ring buffer \<^verbatim>\<open>structure/ChunkBuffer2.h\<close>. Its memory is an array of blocks of
  \<^verbatim>\<open>sizeof(int)\<close> = 4 bytes, modelled as the bytes of the array; a packet is one header
  block holding its length followed by as many blocks as its data needs. Pointers into
  the array (\<^verbatim>\<open>input_dest\<close>, \<^verbatim>\<open>output_dest\<close>) are byte offsets, \<^verbatim>\<open>NULL\<close> is \<^const>\<open>None\<close>.
  The assertion functions the code runs in debug builds are modelled as well: they are
  the invariant, and the lemmas show that no assertion can fail.
\<close>

section \<open>State and operations\<close>

record ChunkBuffer2 =
  cb_buffer :: bytes
  cb_size :: int
  cb_wrap :: int
  cb_start :: int
  cb_used :: int
  cb_mtu :: int
  cb_input_dest :: "int option"
  cb_input_avail :: int
  cb_output_dest :: "int option"
  cb_output_avail :: int

text \<open>\<^verbatim>\<open>bdivide_up(len, sizeof(struct ChunkBuffer2_block))\<close>, converted back to \<^verbatim>\<open>int\<close>.\<close>

definition data_blocks :: "int \<Rightarrow> int" where
  "data_blocks len = c_int (uint (bdivide_up (word_of_int len :: size_t) 4))"

text \<open>The member \<^verbatim>\<open>buffer[i].len\<close>: read and written in place.\<close>

definition block_len :: "bytes \<Rightarrow> int \<Rightarrow> int" where
  "block_len mem i = sint (badvpn_read_le32 (get_at (nat (4 * i)) 4 mem))"

definition set_block_len :: "int \<Rightarrow> int \<Rightarrow> bytes \<Rightarrow> bytes" where
  "set_block_len i len mem = put_at (nat (4 * i)) (mem32 (word_of_int len)) mem"

definition ChunkBuffer2_end :: "ChunkBuffer2 \<Rightarrow> int" where
  "ChunkBuffer2_end buf =
     (if cb_used buf \<ge> cb_wrap buf - cb_start buf
      then cb_used buf - (cb_wrap buf - cb_start buf)
      else cb_start buf + cb_used buf)"

definition ChunkBuffer2_assert_buffer :: "ChunkBuffer2 \<Rightarrow> bool" where
  "ChunkBuffer2_assert_buffer buf \<longleftrightarrow>
     cb_size buf > 0 \<and> cb_wrap buf > 0 \<and> cb_wrap buf \<le> cb_size buf \<and>
     cb_start buf \<ge> 0 \<and> cb_start buf < cb_wrap buf \<and>
     cb_used buf \<ge> 0 \<and> cb_used buf \<le> cb_wrap buf \<and>
     (cb_wrap buf = cb_size buf \<or> cb_used buf \<ge> cb_wrap buf - cb_start buf) \<and>
     cb_mtu buf \<ge> 0"

definition free_blocks :: "ChunkBuffer2 \<Rightarrow> int" where
  "free_blocks buf =
     (if cb_used buf \<ge> cb_wrap buf - cb_start buf
      then cb_start buf - ChunkBuffer2_end buf else cb_size buf - ChunkBuffer2_end buf)"

definition ChunkBuffer2_assert_input :: "ChunkBuffer2 \<Rightarrow> bool" where
  "ChunkBuffer2_assert_input buf \<longleftrightarrow>
     (let end' = ChunkBuffer2_end buf in
      if cb_size buf - end' - 1 < cb_mtu buf
      then cb_input_dest buf = None \<and> cb_input_avail buf = - 1
      else if free_blocks buf > 0
      then cb_input_dest buf = Some (4 * (end' + 1)) \<and> cb_input_avail buf = (free_blocks buf - 1) * 4
      else cb_input_dest buf = None \<and> cb_input_avail buf = - 1)"

definition ChunkBuffer2_assert_output :: "ChunkBuffer2 \<Rightarrow> bool" where
  "ChunkBuffer2_assert_output buf \<longleftrightarrow>
     (if cb_used buf > 0
      then let datalen = block_len (cb_buffer buf) (cb_start buf); blocklen = data_blocks datalen in
        datalen \<ge> 0 \<and> blocklen \<le> cb_used buf - 1 \<and> blocklen \<le> cb_wrap buf - cb_start buf - 1 \<and>
        cb_output_dest buf = Some (4 * (cb_start buf + 1)) \<and> cb_output_avail buf = datalen
      else cb_output_dest buf = None \<and> cb_output_avail buf = - 1)"

definition ChunkBuffer2_assert_io :: "ChunkBuffer2 \<Rightarrow> bool" where
  "ChunkBuffer2_assert_io buf \<longleftrightarrow> ChunkBuffer2_assert_input buf \<and> ChunkBuffer2_assert_output buf"

definition ChunkBuffer2_update_input :: "ChunkBuffer2 \<Rightarrow> ChunkBuffer2" where
  "ChunkBuffer2_update_input buf =
     (let end' = ChunkBuffer2_end buf in
      if cb_size buf - end' - 1 < cb_mtu buf
      then buf\<lparr>cb_input_dest := None, cb_input_avail := - 1\<rparr>
      else let free =
             (if cb_used buf \<ge> cb_wrap buf - cb_start buf
              then cb_start buf - end' else cb_size buf - end') in
        if free > 0
        then buf\<lparr>cb_input_dest := Some (4 * (end' + 1)), cb_input_avail := c_int ((free - 1) * 4)\<rparr>
        else buf\<lparr>cb_input_dest := None, cb_input_avail := - 1\<rparr>)"

definition ChunkBuffer2_update_output :: "ChunkBuffer2 \<Rightarrow> ChunkBuffer2" where
  "ChunkBuffer2_update_output buf =
     (if cb_used buf > 0
      then buf\<lparr>cb_output_dest := Some (4 * (cb_start buf + 1)),
               cb_output_avail := block_len (cb_buffer buf) (cb_start buf)\<rparr>
      else buf\<lparr>cb_output_dest := None, cb_output_avail := - 1\<rparr>)"

definition ChunkBuffer2_calc_blocks :: "int \<Rightarrow> int \<Rightarrow> int" where
  "ChunkBuffer2_calc_blocks chunk_len num =
     (let chunk_data_blocks = data_blocks chunk_len in
      if chunk_data_blocks > INT_MAX - 1 then - 1
      else let chunk_blocks = 1 + chunk_data_blocks in
      if num > INT_MAX - 1 then - 1
      else let num_chunks = num + 1 in
      if chunk_blocks > INT_MAX div num_chunks then - 1
      else chunk_blocks * num_chunks)"

definition ChunkBuffer2_Init :: "bytes \<Rightarrow> int \<Rightarrow> int \<Rightarrow> ChunkBuffer2" where
  "ChunkBuffer2_Init buffer blocks mtu =
     ChunkBuffer2_update_output (ChunkBuffer2_update_input
       \<lparr>cb_buffer = buffer, cb_size = blocks, cb_wrap = blocks, cb_start = 0, cb_used = 0,
        cb_mtu = data_blocks mtu, cb_input_dest = None, cb_input_avail = 0,
        cb_output_dest = None, cb_output_avail = 0\<rparr>)"

definition ChunkBuffer2_SubmitPacket :: "int \<Rightarrow> ChunkBuffer2 \<Rightarrow> ChunkBuffer2" where
  "ChunkBuffer2_SubmitPacket len buf =
     (let end' = ChunkBuffer2_end buf;
          blocklen = data_blocks len;
          buf1 = buf\<lparr>cb_buffer := set_block_len end' len (cb_buffer buf),
                     cb_used := cb_used buf + (1 + blocklen)\<rparr>;
          buf2 = (if cb_used buf1 \<le> cb_wrap buf1 - cb_start buf1 \<and>
                     cb_mtu buf1 > cb_size buf1 - (end' + 1 + blocklen) - 1
                  then buf1\<lparr>cb_wrap := end' + 1 + blocklen\<rparr> else buf1);
          buf3 = ChunkBuffer2_update_input buf2
      in if cb_used buf3 = 1 + blocklen then ChunkBuffer2_update_output buf3 else buf3)"

definition ChunkBuffer2_ConsumePacket :: "ChunkBuffer2 \<Rightarrow> ChunkBuffer2" where
  "ChunkBuffer2_ConsumePacket buf =
     (let blocklen = data_blocks (block_len (cb_buffer buf) (cb_start buf));
          data_wrapped = (cb_used buf \<ge> cb_wrap buf - cb_start buf);
          buf1 = buf\<lparr>cb_start := cb_start buf + (1 + blocklen), cb_used := cb_used buf - (1 + blocklen)\<rparr>;
          buf2 = (if cb_start buf1 = cb_wrap buf1
                  then buf1\<lparr>cb_start := 0, cb_wrap := cb_size buf1\<rparr> else buf1);
          buf3 = (if data_wrapped then ChunkBuffer2_update_input buf2 else buf2)
      in ChunkBuffer2_update_output buf3)"

section \<open>Block arithmetic\<close>

lemma data_blocks_eq: "0 \<le> len \<Longrightarrow> len \<le> INT_MAX \<Longrightarrow> data_blocks len = (len + 3) div 4"
proof -
  assume len: "0 \<le> len" "len \<le> INT_MAX"
  then have "unat (word_of_int len :: size_t) = nat len"
    by (simp add: unat_of_nonneg_int INT_MAX_def)
  then have "uint (bdivide_up (word_of_int len :: size_t) 4) = int (ceil_div (nat len) 4)"
    by (simp add: uint_nat unat_bdivide_up)
  also have "\<dots> = (len + 3) div 4" using len by (simp add: ceil_div_def zdiv_int)
  finally show ?thesis
    using len by (simp add: data_blocks_def INT_MAX_def)
qed

lemma data_blocks_bounds:
  assumes "0 \<le> len" "len \<le> INT_MAX"
  shows "0 \<le> data_blocks len" "len \<le> 4 * data_blocks len" "4 * data_blocks len \<le> len + 3"
  using assms by (auto simp: data_blocks_eq)

lemma data_blocks_le_iff:
  "0 \<le> len \<Longrightarrow> len \<le> INT_MAX \<Longrightarrow> data_blocks len \<le> n \<longleftrightarrow> len \<le> 4 * n"
  by (auto simp: data_blocks_eq)

lemma mem32_write: "mem32 x = badvpn_write_le32 x"
  by (simp add: mem32_def write_defs)

lemma block_len_set_same [simp]:
  assumes "0 \<le> len" "len \<le> INT_MAX" "0 \<le> i" "4 * (i + 1) \<le> int (length mem)"
  shows "block_len (set_block_len i len mem) i = len"
proof -
  have "badvpn_read_le32 (mem32 (word_of_int len)) = word_of_int len"
    using read_write_le32 [of _ "[]"] by (simp add: mem32_write)
  moreover have "length (mem32 (word_of_int len)) = 4" by (simp add: mem32_write)
  moreover have "sint (word_of_int len :: u32) = len"
    using assms c_int_id [of len] by (simp add: c_int_def INT_MAX_def)
  ultimately show ?thesis
    using assms by (simp add: block_len_def set_block_len_def nat_add_distrib)
qed

section \<open>Chains of chunks in memory\<close>

text \<open>
  \<^verbatim>\<open>chunks lim mem p ds q\<close>: from block \<^term>\<open>p\<close> up to block \<^term>\<open>q\<close> the memory holds the
  packets \<^term>\<open>ds\<close>, one after the other, none of them starting beyond block \<^term>\<open>lim\<close>.
\<close>

fun chunks :: "int \<Rightarrow> bytes \<Rightarrow> int \<Rightarrow> bytes list \<Rightarrow> int \<Rightarrow> bool" where
  "chunks lim mem p [] q \<longleftrightarrow> p = q"
| "chunks lim mem p (d # ds) q \<longleftrightarrow>
     p \<le> lim \<and> int (length d) \<le> INT_MAX \<and> block_len mem p = int (length d) \<and>
     get_at (nat (4 * (p + 1))) (length d) mem = d \<and>
     chunks lim mem (p + 1 + data_blocks (int (length d))) ds q"

definition agree :: "bytes \<Rightarrow> bytes \<Rightarrow> int \<Rightarrow> int \<Rightarrow> bool" where
  "agree mem mem' a b \<longleftrightarrow>
     (\<forall>off n. a \<le> int off \<longrightarrow> int off + int n \<le> b \<longrightarrow> get_at off n mem' = get_at off n mem)"

lemma agree_put:
  "off + length xs \<le> length mem \<Longrightarrow> int off \<ge> b \<or> int (off + length xs) \<le> a \<Longrightarrow>
     agree mem (put_at off xs mem) a b"
  unfolding agree_def by (elim disjE) (simp_all add: get_put_before get_put_after)

lemma agree_trans: "agree m1 m2 a b \<Longrightarrow> agree m2 m3 a b \<Longrightarrow> agree m1 m3 a b"
  by (simp add: agree_def)

lemma chunks_le: "chunks lim mem p ds q \<Longrightarrow> p \<le> q"
proof (induction ds arbitrary: p)
  case (Cons d ds)
  then show ?case using data_blocks_bounds [of "int (length d)"] by fastforce
qed simp

lemma chunks_append:
  "chunks lim mem p (xs @ ys) q \<longleftrightarrow> (\<exists>r. chunks lim mem p xs r \<and> chunks lim mem r ys q)"
  by (induction xs arbitrary: p) auto

lemma block_len_agree:
  "agree mem mem' (4 * p) (4 * q) \<Longrightarrow> 0 \<le> p \<Longrightarrow> p + 1 \<le> q \<Longrightarrow> block_len mem' p = block_len mem p"
  by (simp add: agree_def block_len_def)

lemma agree_mono: "agree mem mem' a b \<Longrightarrow> a \<le> a' \<Longrightarrow> b' \<le> b \<Longrightarrow> agree mem mem' a' b'"
  by (simp add: agree_def)

lemma chunks_frame:
  "chunks lim mem p ds q \<Longrightarrow> agree mem mem' (4 * p) (4 * q) \<Longrightarrow> 0 \<le> p \<Longrightarrow> chunks lim mem' p ds q"
proof (induction ds arbitrary: p)
  case (Cons d ds)
  let ?n = "p + 1 + data_blocks (int (length d))"
  have d: "int (length d) \<le> INT_MAX" using Cons.prems by simp
  note db = data_blocks_bounds [of "int (length d)"]
  have q: "?n \<le> q" using Cons.prems chunks_le by auto
  have "block_len mem' p = block_len mem p"
    using Cons.prems q d db by (intro block_len_agree) auto
  moreover have "get_at (nat (4 * (p + 1))) (length d) mem' = get_at (nat (4 * (p + 1))) (length d) mem"
    using Cons.prems q d db by (simp add: agree_def)
  moreover have "chunks lim mem' ?n ds q"
    using Cons.prems d db by (intro Cons.IH) (auto elim!: agree_mono)
  ultimately show ?case using Cons.prems by simp
qed simp

lemma chunks_extent:
  "chunks lim mem p ds q \<Longrightarrow> q - p = (\<Sum>d\<leftarrow>ds. 1 + data_blocks (int (length d)))"
  by (induction ds arbitrary: p) force+

section \<open>The buffer as a queue of packets\<close>

definition last_start :: "ChunkBuffer2 \<Rightarrow> int" where
  "last_start buf = cb_size buf - cb_mtu buf - 1"

text \<open>The debug assertions, plus what they leave implicit: the extent of the memory, the
  reason for an early wrap, and the place of every packet.\<close>

definition cb_geom :: "ChunkBuffer2 \<Rightarrow> bool" where
  "cb_geom buf \<longleftrightarrow> ChunkBuffer2_assert_buffer buf \<and>
     int (length (cb_buffer buf)) = 4 * cb_size buf \<and> 4 * cb_size buf \<le> INT_MAX \<and>
     cb_mtu buf < cb_size buf \<and>
     (cb_wrap buf = cb_size buf \<or> cb_mtu buf > cb_size buf - cb_wrap buf - 1)"

definition cb_data :: "ChunkBuffer2 \<Rightarrow> bytes list \<Rightarrow> bool" where
  "cb_data buf ps \<longleftrightarrow>
     (if cb_used buf \<ge> cb_wrap buf - cb_start buf
      then \<exists>ps1 ps2. ps = ps1 @ ps2 \<and>
        chunks (last_start buf) (cb_buffer buf) (cb_start buf) ps1 (cb_wrap buf) \<and>
        chunks (last_start buf) (cb_buffer buf) 0 ps2 (ChunkBuffer2_end buf)
      else chunks (last_start buf) (cb_buffer buf) (cb_start buf) ps (ChunkBuffer2_end buf) \<and>
        ChunkBuffer2_end buf \<le> last_start buf)"

definition cb_rep :: "ChunkBuffer2 \<Rightarrow> bytes list \<Rightarrow> bool" where
  "cb_rep buf ps \<longleftrightarrow> cb_geom buf \<and> ChunkBuffer2_assert_io buf \<and> cb_data buf ps"

text \<open>What the supplier of a packet does with \<^verbatim>\<open>input_dest\<close>: it stores the packet there.\<close>

definition cb_fill :: "bytes \<Rightarrow> ChunkBuffer2 \<Rightarrow> ChunkBuffer2" where
  "cb_fill data buf =
     (case cb_input_dest buf of None \<Rightarrow> buf
      | Some off \<Rightarrow> buf\<lparr>cb_buffer := put_at (nat off) data (cb_buffer buf)\<rparr>)"

text \<open>What the consumer of a packet sees through \<^verbatim>\<open>output_dest\<close> and \<^verbatim>\<open>output_avail\<close>.\<close>

definition cb_peek :: "ChunkBuffer2 \<Rightarrow> bytes option" where
  "cb_peek buf =
     map_option (\<lambda>off. get_at (nat off) (nat (cb_output_avail buf)) (cb_buffer buf)) (cb_output_dest buf)"

lemmas cb_defs = cb_geom_def cb_data_def last_start_def ChunkBuffer2_assert_buffer_def
  ChunkBuffer2_end_def

lemma update_fields [simp]:
  "cb_buffer (ChunkBuffer2_update_input buf) = cb_buffer buf"
  "cb_size (ChunkBuffer2_update_input buf) = cb_size buf"
  "cb_wrap (ChunkBuffer2_update_input buf) = cb_wrap buf"
  "cb_start (ChunkBuffer2_update_input buf) = cb_start buf"
  "cb_used (ChunkBuffer2_update_input buf) = cb_used buf"
  "cb_mtu (ChunkBuffer2_update_input buf) = cb_mtu buf"
  "cb_output_dest (ChunkBuffer2_update_input buf) = cb_output_dest buf"
  "cb_output_avail (ChunkBuffer2_update_input buf) = cb_output_avail buf"
  "cb_buffer (ChunkBuffer2_update_output buf) = cb_buffer buf"
  "cb_size (ChunkBuffer2_update_output buf) = cb_size buf"
  "cb_wrap (ChunkBuffer2_update_output buf) = cb_wrap buf"
  "cb_start (ChunkBuffer2_update_output buf) = cb_start buf"
  "cb_used (ChunkBuffer2_update_output buf) = cb_used buf"
  "cb_mtu (ChunkBuffer2_update_output buf) = cb_mtu buf"
  "cb_input_dest (ChunkBuffer2_update_output buf) = cb_input_dest buf"
  "cb_input_avail (ChunkBuffer2_update_output buf) = cb_input_avail buf"
  by (simp_all add: ChunkBuffer2_update_input_def ChunkBuffer2_update_output_def Let_def)

lemma cb_cong:
  assumes "cb_buffer b' = cb_buffer b" "cb_size b' = cb_size b" "cb_wrap b' = cb_wrap b"
    "cb_start b' = cb_start b" "cb_used b' = cb_used b" "cb_mtu b' = cb_mtu b"
  shows "cb_geom b' = cb_geom b" "cb_data b' = cb_data b" "ChunkBuffer2_end b' = ChunkBuffer2_end b"
    "free_blocks b' = free_blocks b"
  using assms by (simp_all add: cb_defs free_blocks_def fun_eq_iff)

lemma free_range: "cb_geom b \<Longrightarrow> (free_blocks b - 1) * 4 \<le> INT_MAX \<and> 0 \<le> ChunkBuffer2_end b"
  by (auto simp: free_blocks_def cb_defs)

lemma update_input_ok: "cb_geom b \<Longrightarrow> ChunkBuffer2_assert_input (ChunkBuffer2_update_input b)"
  using free_range [of b]
  by (simp add: ChunkBuffer2_assert_input_def Let_def cb_cong(3,4) [of "ChunkBuffer2_update_input b" b])
     (auto simp: ChunkBuffer2_update_input_def Let_def free_blocks_def INT_MAX_def)

lemma cb_data_first:
  assumes "cb_geom b" "cb_data b (p # ps)"
  shows "0 < cb_used b \<and> block_len (cb_buffer b) (cb_start b) = int (length p) \<and>
     int (length p) \<le> INT_MAX \<and>
     data_blocks (int (length p)) \<le> cb_used b - 1 \<and>
     data_blocks (int (length p)) \<le> cb_wrap b - cb_start b - 1 \<and>
     get_at (nat (4 * (cb_start b + 1))) (length p) (cb_buffer b) = p"
proof (cases "cb_used b \<ge> cb_wrap b - cb_start b")
  case True
  then obtain ps1 ps2 where "p # ps = ps1 @ ps2"
    and c: "chunks (last_start b) (cb_buffer b) (cb_start b) ps1 (cb_wrap b)"
    using assms by (auto simp: cb_data_def)
  moreover have "ps1 \<noteq> []" using c assms by (auto simp: cb_defs)
  ultimately obtain ps1' where "ps1 = p # ps1'" by (cases ps1) auto
  then show ?thesis
    using True assms c chunks_le [of _ _ "cb_start b + 1 + data_blocks (int (length p))" ps1']
    by (fastforce simp: cb_geom_def ChunkBuffer2_assert_buffer_def)
next
  case False
  then show ?thesis
    using assms chunks_le [of _ _ "cb_start b + 1 + data_blocks (int (length p))" ps]
      data_blocks_bounds [of "int (length p)"]
    by (fastforce simp: cb_defs)
qed

lemma cb_data_empty: "cb_geom b \<Longrightarrow> cb_data b [] \<Longrightarrow> cb_used b = 0"
  by (auto simp: cb_defs split: if_splits)

lemma update_output_ok:
  assumes "cb_geom b" "cb_data b ps"
  shows "ChunkBuffer2_assert_output (ChunkBuffer2_update_output b)"
proof (cases ps)
  case Nil
  then show ?thesis
    using assms cb_data_empty [of b] by (simp add: ChunkBuffer2_assert_output_def ChunkBuffer2_update_output_def)
next
  case (Cons p ps')
  then show ?thesis
    using assms cb_data_first [of b p ps']
    by (simp add: ChunkBuffer2_assert_output_def ChunkBuffer2_update_output_def)
qed

section \<open>Submitting a packet\<close>

definition written :: "int \<Rightarrow> bytes \<Rightarrow> bytes \<Rightarrow> bytes" where
  "written e data mem = set_block_len e (int (length data)) (put_at (nat (4 * (e + 1))) data mem)"

lemma chunk_written:
  assumes "0 \<le> e" "e \<le> lim" "int (length data) \<le> INT_MAX" "e + 1 + data_blocks (int (length data)) = q"
    "4 * q \<le> int (length mem)"
  shows "length (written e data mem) = length mem"
    and "chunks lim (written e data mem) e [data] q"
    and "b \<le> 4 * e \<or> 4 * q \<le> a \<Longrightarrow> agree mem (written e data mem) a b"
proof -
  note db = data_blocks_bounds [OF of_nat_0_le_iff assms(3)]
  have "int (nat (4 * (e + 1)) + length data) \<le> int (length mem)" using assms(1,4,5) db by simp
  then have off: "nat (4 * (e + 1)) + length data \<le> length mem" by (simp only: of_nat_le_iff)
  have len: "length (mem32 x) = 4" for x by (simp add: mem32_write)
  have hdr: "nat (4 * e) + 4 \<le> length mem" using assms(1) off by (simp add: nat_add_distrib)
  show "length (written e data mem) = length mem"
    using off hdr by (simp add: written_def set_block_len_def len)
  have "get_at (nat (4 * (e + 1))) (length data) (written e data mem) = data"
    using off hdr assms
    by (simp add: written_def set_block_len_def len get_put_after)
  moreover have "block_len (written e data mem) e = int (length data)"
    unfolding written_def using assms off hdr db by (intro block_len_set_same) auto
  ultimately show "chunks lim (written e data mem) e [data] q"
    using assms by simp
  show "agree mem (written e data mem) a b" if "b \<le> 4 * e \<or> 4 * q \<le> a"
  proof (rule agree_trans)
    show "agree mem (put_at (nat (4 * (e + 1))) data mem) a b"
      using that off assms db by (intro agree_put) auto
    show "agree (put_at (nat (4 * (e + 1))) data mem) (written e data mem) a b"
      unfolding written_def set_block_len_def
      using that off hdr assms db by (intro agree_put) (auto simp: len)
  qed
qed

text \<open>The blocks the packet takes, and the buffer without its derived input and output fields.\<close>

definition submitted :: "bytes \<Rightarrow> ChunkBuffer2 \<Rightarrow> ChunkBuffer2" where
  "submitted data b =
     (let e = ChunkBuffer2_end b; bl = data_blocks (int (length data));
          b1 = b\<lparr>cb_buffer := written e data (cb_buffer b), cb_used := cb_used b + (1 + bl)\<rparr>
      in if cb_used b + (1 + bl) \<le> cb_wrap b - cb_start b \<and> cb_mtu b > cb_size b - (e + 1 + bl) - 1
         then b1\<lparr>cb_wrap := e + 1 + bl\<rparr> else b1)"

lemma cb_input_fits:
  assumes "cb_rep b ps" "int (length data) \<le> cb_input_avail b"
  shows "cb_input_dest b = Some (4 * (ChunkBuffer2_end b + 1))"
    and "int (length data) \<le> INT_MAX"
    and "data_blocks (int (length data)) \<le> free_blocks b - 1"
    and "ChunkBuffer2_end b \<le> last_start b" and "0 \<le> ChunkBuffer2_end b"
proof -
  have r: "cb_geom b" "ChunkBuffer2_assert_input b"
    using assms by (simp_all add: cb_rep_def ChunkBuffer2_assert_io_def)
  then have "cb_input_dest b = Some (4 * (ChunkBuffer2_end b + 1)) \<and>
      cb_input_avail b = (free_blocks b - 1) * 4 \<and> ChunkBuffer2_end b \<le> last_start b"
    using assms(2) by (auto simp: ChunkBuffer2_assert_input_def Let_def last_start_def split: if_splits)
  then show "cb_input_dest b = Some (4 * (ChunkBuffer2_end b + 1))"
    "int (length data) \<le> INT_MAX" "data_blocks (int (length data)) \<le> free_blocks b - 1"
    "ChunkBuffer2_end b \<le> last_start b" "0 \<le> ChunkBuffer2_end b"
    using assms(2) free_range [OF r(1)]
      data_blocks_le_iff [of "int (length data)" "free_blocks b - 1"] by auto
qed

lemma submitted_geom_data:
  assumes rep: "cb_rep b ps" and fits: "int (length data) \<le> cb_input_avail b"
  shows "cb_geom (submitted data b)" "cb_data (submitted data b) (ps @ [data])"
proof -
  define e q where "e = ChunkBuffer2_end b" and "q = e + 1 + data_blocks (int (length data))"
  have g: "cb_geom b" and d: "cb_data b ps" using rep by (simp_all add: cb_rep_def)
  note f = cb_input_fits [OF rep fits]
  note db = data_blocks_bounds [of "int (length data)"]
  have q: "e < q" "q \<le> e + free_blocks b" using f db by (simp_all add: q_def e_def)
  then have qs: "q \<le> cb_size b" using g by (auto simp: free_blocks_def cb_defs e_def split: if_splits)
  have mem: "4 * q \<le> int (length (cb_buffer b))" using qs g by (simp add: cb_geom_def)
  note w = chunk_written [OF f(5,4,2), of q "cb_buffer b", folded e_def, OF q_def [symmetric] mem]
  let ?s = "submitted data b"
  have s: "?s = b\<lparr>cb_buffer := written e data (cb_buffer b), cb_used := cb_used b + (q - e),
     cb_wrap := if cb_used b + (q - e) \<le> cb_wrap b - cb_start b \<and> cb_mtu b > cb_size b - q - 1
                then q else cb_wrap b\<rparr>"
    by (cases b) (simp add: submitted_def Let_def q_def e_def)
  show "cb_geom ?s"
    using g q qs w(1) by (auto simp: s cb_defs free_blocks_def e_def split: if_splits)
  show "cb_data ?s (ps @ [data])"
  proof (cases "cb_used b \<ge> cb_wrap b - cb_start b")
    case True
    then obtain ps1 ps2 where ps: "ps = ps1 @ ps2"
      and c1: "chunks (last_start b) (cb_buffer b) (cb_start b) ps1 (cb_wrap b)"
      and c2: "chunks (last_start b) (cb_buffer b) 0 ps2 e"
      using d by (auto simp: cb_data_def e_def)
    have "q \<le> cb_start b" using True q by (simp add: free_blocks_def e_def)
    then have "chunks (last_start b) (written e data (cb_buffer b)) (cb_start b) ps1 (cb_wrap b)"
      using g by (intro chunks_frame [OF c1] w(3)) (auto simp: cb_defs)
    moreover have "chunks (last_start b) (written e data (cb_buffer b)) 0 (ps2 @ [data]) q"
      unfolding chunks_append using w(2) by (blast intro: chunks_frame [OF c2] w(3))
    ultimately show ?thesis
      using True q ps unfolding s cb_data_def by (auto simp: last_start_def ChunkBuffer2_end_def e_def)
  next
    case False
    then have c: "chunks (last_start b) (cb_buffer b) (cb_start b) ps e"
      and e: "e = cb_start b + cb_used b" and wr: "cb_wrap b = cb_size b"
      using d g by (auto simp: cb_defs e_def)
    have "chunks (last_start b) (written e data (cb_buffer b)) (cb_start b) ps e"
      using g by (intro chunks_frame [OF c] w(3)) (auto simp: cb_geom_def ChunkBuffer2_assert_buffer_def)
    then have "chunks (last_start b) (written e data (cb_buffer b)) (cb_start b) (ps @ [data]) q"
      unfolding chunks_append using w(2) by blast
    moreover from this have "\<exists>ps1 ps2. ps @ [data] = ps1 @ ps2 \<and>
        chunks (last_start b) (written e data (cb_buffer b)) (cb_start b) ps1 q \<and>
        chunks (last_start b) (written e data (cb_buffer b)) 0 ps2 0"
      by (intro exI [of _ "ps @ [data]"] exI [of _ "[]"]) simp
    ultimately show ?thesis
      using False q qs e wr g unfolding s cb_data_def
      by (auto simp: last_start_def ChunkBuffer2_end_def cb_geom_def ChunkBuffer2_assert_buffer_def)
  qed
qed

lemma submit_eq:
  assumes "cb_input_dest b = Some (4 * (ChunkBuffer2_end b + 1))"
  shows "ChunkBuffer2_SubmitPacket (int (length data)) (cb_fill data b) =
     (let s = ChunkBuffer2_update_input (submitted data b) in
      if cb_used s = 1 + data_blocks (int (length data)) then ChunkBuffer2_update_output s else s)"
proof -
  let ?f = "b\<lparr>cb_buffer := put_at (nat (4 * (ChunkBuffer2_end b + 1))) data (cb_buffer b)\<rparr>"
  have "cb_fill data b = ?f" using assms by (simp add: cb_fill_def)
  moreover have "ChunkBuffer2_end ?f = ChunkBuffer2_end b" by (simp add: ChunkBuffer2_end_def)
  ultimately show ?thesis
    by (simp add: ChunkBuffer2_SubmitPacket_def submitted_def Let_def written_def)
qed

lemma used_zero_iff: "cb_geom b \<Longrightarrow> cb_data b ps \<Longrightarrow> cb_used b = 0 \<longleftrightarrow> ps = []"
  using cb_data_empty [of b] cb_data_first [of b] by (cases ps) auto

theorem cb_submit_rep [inv_intros]:
  assumes rep: "cb_rep b ps" and fits: "int (length data) \<le> cb_input_avail b"
  shows "cb_rep (ChunkBuffer2_SubmitPacket (int (length data)) (cb_fill data b)) (ps @ [data])"
proof -
  let ?s = "submitted data b" and ?r = "ChunkBuffer2_SubmitPacket (int (length data)) (cb_fill data b)"
  let ?i = "ChunkBuffer2_update_input ?s"
  note f = cb_input_fits [OF rep fits]
  note gd = submitted_geom_data [OF rep fits]
  have u: "cb_used ?s = cb_used b + (1 + data_blocks (int (length data)))"
    by (simp add: submitted_def Let_def)
  have r: "?r = (if cb_used b = 0 then ChunkBuffer2_update_output ?i else ?i)"
    unfolding submit_eq [OF f(1)] using u by (simp add: Let_def)
  have keep: "cb_buffer ?r = cb_buffer ?s" "cb_size ?r = cb_size ?s" "cb_wrap ?r = cb_wrap ?s"
    "cb_start ?r = cb_start ?s" "cb_used ?r = cb_used ?s" "cb_mtu ?r = cb_mtu ?s"
    "cb_input_dest ?r = cb_input_dest ?i" "cb_input_avail ?r = cb_input_avail ?i"
    by (simp_all add: r)
  have geom: "cb_geom ?r" and data: "cb_data ?r (ps @ [data])"
    using gd cb_cong [OF keep(1-6)] by simp_all
  have inp: "ChunkBuffer2_assert_input ?r"
    using update_input_ok [OF gd(1)] keep cb_cong(3,4) [OF keep(1-6)] cb_cong(3,4) [of ?i ?s]
    by (simp add: ChunkBuffer2_assert_input_def Let_def)
  have out: "ChunkBuffer2_assert_output ?r"
  proof (cases "cb_used b = 0")
    case True
    then show ?thesis
      using r gd cb_cong(1,2) [of ?i ?s] update_output_ok [of ?i] by simp
  next
    case False
    have g: "cb_geom b" "cb_data b ps" "ChunkBuffer2_assert_output b" "0 \<le> cb_used b"
      using rep by (auto simp: cb_rep_def ChunkBuffer2_assert_io_def cb_geom_def ChunkBuffer2_assert_buffer_def)
    then obtain p ps' where ps: "ps = p # ps'" using used_zero_iff False by (cases ps) auto
    have "cb_start ?r = cb_start b" "cb_output_dest ?r = cb_output_dest b"
      "cb_output_avail ?r = cb_output_avail b"
      using False by (simp_all add: r submitted_def Let_def)
    then show ?thesis
      using cb_data_first [OF geom, of p "ps' @ [data]"] cb_data_first [OF g(1), of p ps'] data g False
      by (simp add: ChunkBuffer2_assert_output_def ps)
  qed
  show ?thesis using geom data inp out by (simp add: cb_rep_def ChunkBuffer2_assert_io_def)
qed

section \<open>Consuming a packet\<close>

definition consumed :: "bytes \<Rightarrow> ChunkBuffer2 \<Rightarrow> ChunkBuffer2" where
  "consumed p b =
     (let s = cb_start b + (1 + data_blocks (int (length p)));
          b1 = b\<lparr>cb_start := s, cb_used := cb_used b - (1 + data_blocks (int (length p)))\<rparr>
      in if s = cb_wrap b then b1\<lparr>cb_start := 0, cb_wrap := cb_size b\<rparr> else b1)"

lemma consume_eq:
  assumes "block_len (cb_buffer b) (cb_start b) = int (length p)"
  shows "ChunkBuffer2_ConsumePacket b =
     ChunkBuffer2_update_output (if cb_used b \<ge> cb_wrap b - cb_start b
       then ChunkBuffer2_update_input (consumed p b) else consumed p b)"
  using assms by (simp add: ChunkBuffer2_ConsumePacket_def consumed_def Let_def)

lemma consumed_geom_data:
  assumes g: "cb_geom b" and d: "cb_data b (p # ps)"
  shows "cb_geom (consumed p b)" "cb_data (consumed p b) ps"
proof -
  note f = cb_data_first [OF g d]
  then have bl: "0 \<le> data_blocks (int (length p))" using data_blocks_bounds by simp
  have "cb_geom (consumed p b) \<and> cb_data (consumed p b) ps"
  proof (cases "cb_used b \<ge> cb_wrap b - cb_start b")
    case True
    then obtain ps1 ps2 where "p # ps = ps1 @ ps2"
      and c1: "chunks (last_start b) (cb_buffer b) (cb_start b) ps1 (cb_wrap b)"
      and c2: "chunks (last_start b) (cb_buffer b) 0 ps2 (ChunkBuffer2_end b)"
      using d by (auto simp: cb_data_def)
    moreover have "ps1 \<noteq> []" using c1 g by (auto simp: cb_defs)
    ultimately obtain ps1' where ps: "ps = ps1' @ ps2" "ps1 = p # ps1'" by (cases ps1) auto
    let ?s = "cb_start b + 1 + data_blocks (int (length p))"
    have c1': "chunks (last_start b) (cb_buffer b) ?s ps1' (cb_wrap b)" "cb_start b \<le> last_start b"
      using c1 ps by auto
    show ?thesis
    proof (cases ps1')
      case Nil
      then have "?s = cb_wrap b" using c1' by simp
      moreover from this have e: "ChunkBuffer2_end b = cb_used b - (1 + data_blocks (int (length p)))"
        using True by (simp add: ChunkBuffer2_end_def)
      ultimately show ?thesis
        using True g f bl c2 [unfolded e] ps Nil c1'(2)
        by (auto simp: consumed_def Let_def cb_defs algebra_simps)
    next
      case (Cons x xs)
      then have "?s < cb_wrap b"
        using c1'(1) chunks_le [of _ _ "?s + 1 + data_blocks (int (length x))" xs]
          data_blocks_bounds [of "int (length x)"] by fastforce
      then show ?thesis
        using True g f bl c2 ps c1'
        by (auto simp: consumed_def Let_def cb_defs algebra_simps)
    qed
  next
    case False
    then have "chunks (last_start b) (cb_buffer b) (cb_start b + 1 + data_blocks (int (length p))) ps
        (ChunkBuffer2_end b)" "ChunkBuffer2_end b \<le> last_start b" "cb_wrap b = cb_size b"
      using d g by (auto simp: cb_data_def cb_geom_def ChunkBuffer2_assert_buffer_def)
    then show ?thesis
      using False g f bl by (auto simp: consumed_def Let_def cb_defs algebra_simps)
  qed
  then show "cb_geom (consumed p b)" "cb_data (consumed p b) ps" by simp_all
qed

theorem cb_consume_rep [inv_intros]:
  assumes rep: "cb_rep b (p # ps)"
  shows "cb_rep (ChunkBuffer2_ConsumePacket b) ps"
proof -
  have g: "cb_geom b" "cb_data b (p # ps)" "ChunkBuffer2_assert_input b"
    using rep by (auto simp: cb_rep_def ChunkBuffer2_assert_io_def)
  note f = cb_data_first [OF g(1,2)]
  let ?c = "consumed p b" and ?r = "ChunkBuffer2_ConsumePacket b"
  let ?i = "if cb_used b \<ge> cb_wrap b - cb_start b then ChunkBuffer2_update_input ?c else ?c"
  have r: "?r = ChunkBuffer2_update_output ?i" using f by (intro consume_eq) simp
  note gd = consumed_geom_data [OF g(1,2)]
  have i: "cb_geom ?i" "cb_data ?i ps" using gd cb_cong(1,2) [of "ChunkBuffer2_update_input ?c" ?c] by auto
  have inp: "ChunkBuffer2_assert_input ?i"
  proof (cases "cb_used b \<ge> cb_wrap b - cb_start b")
    case False
    then have "?c = b\<lparr>cb_start := cb_start b + (1 + data_blocks (int (length p))),
        cb_used := cb_used b - (1 + data_blocks (int (length p)))\<rparr>"
      using f by (simp add: consumed_def Let_def)
    then show ?thesis
      using False g(3) by (simp add: ChunkBuffer2_assert_input_def Let_def free_blocks_def ChunkBuffer2_end_def)
  qed (simp add: update_input_ok gd)
  have "ChunkBuffer2_assert_input ?r"
    using inp r cb_cong(3,4) [of ?r ?i] by (simp add: ChunkBuffer2_assert_input_def Let_def)
  moreover have "cb_geom ?r" "cb_data ?r ps"
    using i r cb_cong(1,2) [of ?r ?i] by simp_all
  ultimately show ?thesis
    using update_output_ok [OF i] r by (simp add: cb_rep_def ChunkBuffer2_assert_io_def)
qed

lemma cb_peek_rep [refine_simps]:
  "cb_rep b ps \<Longrightarrow> cb_peek b = (case ps of [] \<Rightarrow> None | p # _ \<Rightarrow> Some p)"
  "cb_rep b ps \<Longrightarrow> cb_output_avail b = (case ps of [] \<Rightarrow> - 1 | p # _ \<Rightarrow> int (length p))"
  "cb_rep b ps \<Longrightarrow> cb_output_dest b = (case ps of [] \<Rightarrow> None | p # _ \<Rightarrow> Some (4 * (cb_start b + 1)))"
  by (cases ps; use cb_data_first [of b] cb_data_empty [of b] in
      \<open>fastforce simp: cb_rep_def cb_peek_def ChunkBuffer2_assert_io_def ChunkBuffer2_assert_output_def\<close>)+

section \<open>Room\<close>

lemma cb_used_sum: "cb_rep b ps \<Longrightarrow> cb_used b = (\<Sum>d\<leftarrow>ps. 1 + data_blocks (int (length d)))"
  by (auto simp: cb_rep_def cb_data_def ChunkBuffer2_end_def sum_list.append dest!: chunks_extent
      split: if_splits)

lemma cb_room:
  assumes rep: "cb_rep b ps" and free: "cb_mtu b < free_blocks b"
    and "ChunkBuffer2_end b \<le> last_start b"
  shows "cb_input_dest b = Some (4 * (ChunkBuffer2_end b + 1)) \<and> 4 * cb_mtu b \<le> cb_input_avail b"
  using assms
  by (auto simp: cb_rep_def cb_geom_def ChunkBuffer2_assert_buffer_def ChunkBuffer2_assert_io_def
      ChunkBuffer2_assert_input_def Let_def last_start_def)

lemma cb_end_le_last_start:
  assumes rep: "cb_rep b ps"
  shows "ChunkBuffer2_end b \<le> last_start b"
proof (cases "cb_used b \<ge> cb_wrap b - cb_start b")
  case True
  then obtain ps1 where "chunks (last_start b) (cb_buffer b) (cb_start b) ps1 (cb_wrap b)"
    using rep by (auto simp: cb_rep_def cb_data_def)
  then have "cb_start b \<le> last_start b"
    using rep by (cases ps1) (auto simp: cb_rep_def cb_geom_def ChunkBuffer2_assert_buffer_def)
  then show ?thesis
    using True rep by (auto simp: cb_rep_def cb_geom_def ChunkBuffer2_assert_buffer_def ChunkBuffer2_end_def)
qed (use rep in \<open>auto simp: cb_rep_def cb_data_def\<close>)

lemma cb_empty_room:
  assumes "cb_rep b []"
  shows "cb_input_dest b = Some (4 * (ChunkBuffer2_end b + 1)) \<and> 4 * cb_mtu b \<le> cb_input_avail b"
proof (rule cb_room [OF assms _ cb_end_le_last_start [OF assms]])
  have "cb_used b = 0" using assms cb_data_empty by (auto simp: cb_rep_def)
  then show "cb_mtu b < free_blocks b"
    using cb_end_le_last_start [OF assms] assms
    by (auto simp: free_blocks_def last_start_def cb_rep_def cb_geom_def ChunkBuffer2_assert_buffer_def)
qed

lemma cb_capacity:
  assumes rep: "cb_rep b ps" and size: "(1 + cb_mtu b) * (num + 1) \<le> cb_size b"
    and small: "\<And>d. d \<in> set ps \<Longrightarrow> data_blocks (int (length d)) \<le> cb_mtu b"
    and few: "int (length ps) < num"
  shows "cb_input_dest b = Some (4 * (ChunkBuffer2_end b + 1)) \<and> 4 * cb_mtu b \<le> cb_input_avail b"
proof (rule cb_room [OF rep _ cb_end_le_last_start [OF rep]])
  have g: "cb_geom b" using rep by (simp add: cb_rep_def)
  have "cb_used b \<le> (\<Sum>d\<leftarrow>ps. 1 + cb_mtu b)"
    unfolding cb_used_sum [OF rep] using small by (intro sum_list_mono) simp
  also have "\<dots> = int (length ps) * (1 + cb_mtu b)" by (simp add: sum_list_triv)
  also have "\<dots> \<le> (num - 1) * (1 + cb_mtu b)"
    using few g by (intro mult_right_mono) (auto simp: cb_geom_def ChunkBuffer2_assert_buffer_def)
  finally have "cb_used b + 2 * (1 + cb_mtu b) \<le> cb_size b"
    using size by (simp add: algebra_simps)
  then show "cb_mtu b < free_blocks b"
    using g cb_end_le_last_start [OF rep]
    by (auto simp: free_blocks_def cb_defs split: if_splits)
qed

lemma consume_end_free:
  assumes rep: "cb_rep b (p # ps)"
  shows "ChunkBuffer2_end (ChunkBuffer2_ConsumePacket b) = ChunkBuffer2_end b"
    "free_blocks b \<le> free_blocks (ChunkBuffer2_ConsumePacket b)"
    "cb_size (ChunkBuffer2_ConsumePacket b) = cb_size b" "cb_mtu (ChunkBuffer2_ConsumePacket b) = cb_mtu b"
    "cb_buffer (ChunkBuffer2_ConsumePacket b) = cb_buffer b"
proof -
  have g: "cb_geom b" "cb_data b (p # ps)" using rep by (auto simp: cb_rep_def)
  note f = cb_data_first [OF this]
  have bl: "0 \<le> data_blocks (int (length p))" using f data_blocks_bounds by simp
  let ?c = "consumed p b" and ?r = "ChunkBuffer2_ConsumePacket b"
  have r: "?r = ChunkBuffer2_update_output (if cb_used b \<ge> cb_wrap b - cb_start b
       then ChunkBuffer2_update_input ?c else ?c)"
    using f by (intro consume_eq) simp
  then show "cb_size ?r = cb_size b" "cb_mtu ?r = cb_mtu b" "cb_buffer ?r = cb_buffer b"
    by (simp_all add: consumed_def Let_def)
  have "ChunkBuffer2_end ?c = ChunkBuffer2_end b \<and> free_blocks b \<le> free_blocks ?c"
    using g(1) f bl by (auto simp: consumed_def Let_def free_blocks_def cb_defs)
  then show "ChunkBuffer2_end ?r = ChunkBuffer2_end b" "free_blocks b \<le> free_blocks ?r"
    using r cb_cong(3,4) [of ?r ?c] by simp_all
qed

lemma consume_input_mono:
  assumes rep: "cb_rep b (p # ps)"
  shows "cb_input_avail b \<le> cb_input_avail (ChunkBuffer2_ConsumePacket b)"
    "cb_input_dest b = Some d \<Longrightarrow> cb_input_dest (ChunkBuffer2_ConsumePacket b) = Some d"
proof -
  have "ChunkBuffer2_assert_input b" "ChunkBuffer2_assert_input (ChunkBuffer2_ConsumePacket b)"
    using rep cb_consume_rep [OF rep] by (simp_all add: cb_rep_def ChunkBuffer2_assert_io_def)
  then show "cb_input_avail b \<le> cb_input_avail (ChunkBuffer2_ConsumePacket b)"
    "cb_input_dest b = Some d \<Longrightarrow> cb_input_dest (ChunkBuffer2_ConsumePacket b) = Some d"
    using consume_end_free [OF rep]
    by (auto simp: ChunkBuffer2_assert_input_def Let_def split: if_splits)
qed

lemma submit_fields:
  assumes "cb_rep b ps" "int (length data) \<le> cb_input_avail b"
  shows "cb_size (ChunkBuffer2_SubmitPacket (int (length data)) (cb_fill data b)) = cb_size b"
    "cb_mtu (ChunkBuffer2_SubmitPacket (int (length data)) (cb_fill data b)) = cb_mtu b"
    "cb_start (ChunkBuffer2_SubmitPacket (int (length data)) (cb_fill data b)) = cb_start b"
  unfolding submit_eq [OF cb_input_fits(1) [OF assms]] by (simp_all add: Let_def submitted_def)

section \<open>Initialisation\<close>

lemma cb_init_rep [inv_intros]:
  assumes "int (length mem) = 4 * blocks" "4 * blocks \<le> INT_MAX" "0 \<le> mtu" "mtu \<le> INT_MAX"
    "data_blocks mtu < blocks"
  shows "cb_rep (ChunkBuffer2_Init mem blocks mtu) []"
    "cb_size (ChunkBuffer2_Init mem blocks mtu) = blocks"
    "cb_mtu (ChunkBuffer2_Init mem blocks mtu) = data_blocks mtu"
proof -
  define z where "z = \<lparr>cb_buffer = mem, cb_size = blocks, cb_wrap = blocks, cb_start = 0, cb_used = 0,
        cb_mtu = data_blocks mtu, cb_input_dest = None, cb_input_avail = 0,
        cb_output_dest = None, cb_output_avail = 0\<rparr>"
  let ?i = "ChunkBuffer2_update_input z" and ?r = "ChunkBuffer2_Init mem blocks mtu"
  have r: "?r = ChunkBuffer2_update_output ?i" by (simp add: ChunkBuffer2_Init_def z_def)
  have "cb_geom z" "cb_data z []"
    using assms data_blocks_bounds [of mtu] by (auto simp: z_def cb_defs)
  then have i: "cb_geom ?i" "cb_data ?i []" "ChunkBuffer2_assert_input ?i"
    using cb_cong(1,2) [of ?i z] update_input_ok by simp_all
  then show "cb_rep ?r []"
    using update_output_ok [OF i(1,2)] cb_cong [of ?r ?i]
    by (simp add: r cb_rep_def ChunkBuffer2_assert_io_def ChunkBuffer2_assert_input_def Let_def)
  show "cb_size ?r = blocks" "cb_mtu ?r = data_blocks mtu" by (simp_all add: r z_def)
qed

lemma mult_le_div_iff: "a > m div c \<longleftrightarrow> m < a * c" if c: "0 < c" for a c m :: int
proof -
  have m: "(m div c) * c + m mod c = m" by (rule div_mult_mod_eq)
  have r: "0 \<le> m mod c" "m mod c < c" using c by simp_all
  have "m < a * c" if "m div c < a"
  proof -
    have "(m div c + 1) * c \<le> a * c" using that c by (intro mult_right_mono) auto
    then have "(m div c) * c + c \<le> a * c" by (simp add: algebra_simps)
    then show ?thesis using m r by linarith
  qed
  moreover have "a * c \<le> m" if "a \<le> m div c"
    using m r mult_right_mono [of a "m div c" c] that c by linarith
  ultimately show ?thesis by linarith
qed

lemma calc_blocks_exact:
  assumes "0 \<le> chunk_len" "chunk_len \<le> INT_MAX" "0 \<le> num" "num \<le> INT_MAX"
  shows "ChunkBuffer2_calc_blocks chunk_len num =
     (let n = (1 + data_blocks chunk_len) * (num + 1) in if n \<le> INT_MAX then n else - 1)"
proof -
  have db: "0 \<le> data_blocks chunk_len" "data_blocks chunk_len \<le> INT_MAX - 1"
    using assms data_blocks_bounds [of chunk_len] by (auto simp: INT_MAX_def)
  show ?thesis
  proof (cases "num = INT_MAX")
    case True
    have "num + 1 \<le> (1 + data_blocks chunk_len) * (num + 1)"
      using db(1) assms mult_right_mono [of 1 "1 + data_blocks chunk_len" "num + 1"] by simp
    then have "\<not> (1 + data_blocks chunk_len) * (INT_MAX + 1) \<le> INT_MAX" unfolding True by linarith
    then show ?thesis using True db by (simp add: ChunkBuffer2_calc_blocks_def Let_def)
  qed (use assms db in \<open>auto simp: ChunkBuffer2_calc_blocks_def Let_def mult_le_div_iff\<close>)
qed

lemma cb_input_in_bounds:
  assumes "cb_rep b ps" "int n \<le> cb_input_avail b" "cb_input_dest b = Some off"
  shows "0 \<le> off" "off + int n \<le> int (length (cb_buffer b))"
proof -
  have g: "cb_geom b" "ChunkBuffer2_assert_input b"
    using assms(1) by (simp_all add: cb_rep_def ChunkBuffer2_assert_io_def)
  then have i: "off = 4 * (ChunkBuffer2_end b + 1)" "cb_input_avail b = (free_blocks b - 1) * 4"
    using assms(3) by (auto simp: ChunkBuffer2_assert_input_def Let_def split: if_splits)
  show "0 \<le> off" using i free_range [OF g(1)] by simp
  have "ChunkBuffer2_end b + free_blocks b \<le> cb_size b"
    using g(1) by (auto simp: free_blocks_def cb_defs)
  then show "off + int n \<le> int (length (cb_buffer b))"
    using i assms(2) g(1) by (simp add: cb_geom_def)
qed

section \<open>The contract\<close>

text \<open>
  What a packet buffer promises its user, whatever its memory layout: submitted packets
  come out in order, and reading makes room. The representation relation is then unique:
  the packets a buffer holds can be recovered by draining it.
\<close>

locale packet_fifo =
  fixes rep :: "'b \<Rightarrow> bytes list \<Rightarrow> bool"
    and submit :: "bytes \<Rightarrow> 'b \<Rightarrow> 'b" and consume :: "'b \<Rightarrow> 'b"
    and peek :: "'b \<Rightarrow> bytes option" and room :: "'b \<Rightarrow> int"
  assumes submit_rep: "rep b ps \<Longrightarrow> int (length d) \<le> room b \<Longrightarrow> rep (submit d b) (ps @ [d])"
    and consume_rep: "rep b (p # ps) \<Longrightarrow> rep (consume b) ps"
    and peek_rep: "rep b ps \<Longrightarrow> peek b = (case ps of [] \<Rightarrow> None | p # _ \<Rightarrow> Some p)"
    and room_mono: "rep b (p # ps) \<Longrightarrow> room b \<le> room (consume b)"
begin

lemma consume_many: "rep b (ps @ qs) \<Longrightarrow> rep ((consume ^^ length ps) b) qs"
  by (induction ps arbitrary: b) (auto simp: funpow_swap1 dest: consume_rep)

lemma consume_drop: "rep b ps \<Longrightarrow> n \<le> length ps \<Longrightarrow> rep ((consume ^^ n) b) (drop n ps)"
  using consume_many [of b "take n ps" "drop n ps"] by (simp add: min_absorb2)

lemma peek_nth: "rep b ps \<Longrightarrow> n < length ps \<Longrightarrow> peek ((consume ^^ n) b) = Some (ps ! n)"
  using consume_drop [of b ps n] peek_rep [of "(consume ^^ n) b" "drop n ps"]
  by (simp add: Cons_nth_drop_Suc [symmetric])

lemma rep_unique: "rep b ps \<Longrightarrow> rep b qs \<Longrightarrow> ps = qs"
proof (induction ps arbitrary: b qs)
  case Nil
  then show ?case using peek_rep [of b "[]"] peek_rep [of b qs] by (cases qs) auto
next
  case (Cons p ps)
  then obtain qs' where "qs = p # qs'"
    using peek_rep [of b "p # ps"] peek_rep [of b qs] by (cases qs) auto
  then show ?case using Cons consume_rep by blast
qed

lemma room_drained: "rep b ps \<Longrightarrow> n \<le> length ps \<Longrightarrow> room b \<le> room ((consume ^^ n) b)"
proof (induction n)
  case (Suc n)
  then have "rep ((consume ^^ n) b) (ps ! n # drop (Suc n) ps)"
    using consume_drop [of b ps n] by (simp add: Cons_nth_drop_Suc)
  then show ?case using Suc room_mono by fastforce
qed simp

end

interpretation cb: packet_fifo cb_rep
  "\<lambda>d b. ChunkBuffer2_SubmitPacket (int (length d)) (cb_fill d b)"
  ChunkBuffer2_ConsumePacket cb_peek cb_input_avail
  by unfold_locales (simp_all add: cb_submit_rep cb_consume_rep cb_peek_rep consume_input_mono)

end
