(* ===== verification/Packet_Buffer.thy ===== *)
theory Packet_Buffer
  imports Chunk_Buffer
begin

text \<open>
  The packet buffer \<^verbatim>\<open>flow/PacketBuffer.c\<close>: it receives packets from a
  \<^verbatim>\<open>PacketRecvInterface\<close> into a chunk buffer and passes them on to a \<^verbatim>\<open>PacketPassInterface\<close>.
  A handler returns the new state and the interface calls it makes, in order. The
  environment (the two peers) is the state of the two interfaces: the destination of the
  receive that is outstanding and the packet whose send is outstanding. An interface call
  made while the interface is busy is an assertion failure in the code; here it makes the
  run undefined, and the theorems show that it never happens.
\<close>

section \<open>State and handlers\<close>

record PacketBuffer =
  pb_input_mtu :: int
  pb_buf :: ChunkBuffer2

datatype pb_call =
    Receiver_Recv "int option"
  | Sender_Send "int option" int

definition pb_input_handler_done :: "int \<Rightarrow> PacketBuffer \<Rightarrow> PacketBuffer \<times> pb_call list" where
  "pb_input_handler_done in_len pb =
     (let was_empty = (cb_output_avail (pb_buf pb) < 0);
          b = ChunkBuffer2_SubmitPacket in_len (pb_buf pb)
      in (pb\<lparr>pb_buf := b\<rparr>,
          (if cb_input_avail b \<ge> pb_input_mtu pb then [Receiver_Recv (cb_input_dest b)] else []) @
          (if was_empty then [Sender_Send (cb_output_dest b) (cb_output_avail b)] else [])))"

definition pb_output_handler_done :: "PacketBuffer \<Rightarrow> PacketBuffer \<times> pb_call list" where
  "pb_output_handler_done pb =
     (let was_full = (cb_input_avail (pb_buf pb) < pb_input_mtu pb);
          b = ChunkBuffer2_ConsumePacket (pb_buf pb)
      in (pb\<lparr>pb_buf := b\<rparr>,
          (if was_full \<and> cb_input_avail b \<ge> pb_input_mtu pb then [Receiver_Recv (cb_input_dest b)] else []) @
          (if cb_output_avail b \<ge> 0 then [Sender_Send (cb_output_dest b) (cb_output_avail b)] else [])))"

text \<open>\<^verbatim>\<open>alloc\<close> is \<^verbatim>\<open>BAllocArray\<close>: the memory of the given number of blocks, or nothing.\<close>

definition PacketBuffer_Init ::
    "(int \<Rightarrow> bytes option) \<Rightarrow> int \<Rightarrow> int \<Rightarrow> (PacketBuffer \<times> pb_call list) option" where
  "PacketBuffer_Init alloc input_mtu num_packets =
     (let num_blocks = ChunkBuffer2_calc_blocks input_mtu num_packets in
      if num_blocks < 0 then None
      else case alloc num_blocks of
        None \<Rightarrow> None
      | Some mem \<Rightarrow>
          let b = ChunkBuffer2_Init mem num_blocks input_mtu in
          Some (\<lparr>pb_input_mtu = input_mtu, pb_buf = b\<rparr>, [Receiver_Recv (cb_input_dest b)]))"

section \<open>The buffer between its two interfaces\<close>

record pb_sys =
  sys_pb :: PacketBuffer
  recv_at :: "int option"
  send_at :: "(int \<times> int) option"
  received :: "bytes list"
  sent :: "bytes list"

fun pb_perform :: "pb_call list \<Rightarrow> pb_sys \<Rightarrow> pb_sys option" where
  "pb_perform [] s = Some s"
| "pb_perform (Receiver_Recv d # cs) s =
     (if recv_at s = None \<and> d \<noteq> None then pb_perform cs (s\<lparr>recv_at := d\<rparr>) else None)"
| "pb_perform (Sender_Send d n # cs) s =
     (case d of None \<Rightarrow> None
      | Some off \<Rightarrow>
          if send_at s = None \<and> 0 \<le> n \<and> n \<le> pb_input_mtu (sys_pb s)
          then pb_perform cs (s\<lparr>send_at := Some (off, n)\<rparr>) else None)"

text \<open>
  \<^verbatim>\<open>PacketIn\<close>: the supplier stores a packet of at most the MTU at the destination it was
  given and reports it. \<^verbatim>\<open>PacketOut\<close>: the consumer has taken the packet it was given. An
  event that the interface state does not allow does not happen.
\<close>

datatype pb_event = PacketIn bytes | PacketOut

fun pb_event_step :: "pb_event \<Rightarrow> pb_sys \<Rightarrow> pb_sys option" where
  "pb_event_step (PacketIn data) s =
     (case recv_at s of None \<Rightarrow> Some s
      | Some off \<Rightarrow>
          if int (length data) \<le> pb_input_mtu (sys_pb s) then
            let b = pb_buf (sys_pb s);
                pb = (sys_pb s)\<lparr>pb_buf := b\<lparr>cb_buffer := put_at (nat off) data (cb_buffer b)\<rparr>\<rparr>;
                (pb', calls) = pb_input_handler_done (int (length data)) pb
            in pb_perform calls (s\<lparr>sys_pb := pb', recv_at := None, received := received s @ [data]\<rparr>)
          else Some s)"
| "pb_event_step PacketOut s =
     (case send_at s of None \<Rightarrow> Some s
      | Some (off, n) \<Rightarrow>
          let data = get_at (nat off) (nat n) (cb_buffer (pb_buf (sys_pb s)));
              (pb', calls) = pb_output_handler_done (sys_pb s)
          in pb_perform calls (s\<lparr>sys_pb := pb', send_at := None, sent := sent s @ [data]\<rparr>))"

definition pb_start :: "(int \<Rightarrow> bytes option) \<Rightarrow> int \<Rightarrow> int \<Rightarrow> pb_sys option" where
  "pb_start alloc input_mtu num_packets =
     (case PacketBuffer_Init alloc input_mtu num_packets of
        None \<Rightarrow> None
      | Some (pb, calls) \<Rightarrow>
          pb_perform calls \<lparr>sys_pb = pb, recv_at = None, send_at = None, received = [], sent = []\<rparr>)"

fun pb_run :: "pb_event list \<Rightarrow> pb_sys \<Rightarrow> pb_sys option" where
  "pb_run [] s = Some s"
| "pb_run (e # es) s = Option.bind (pb_event_step e s) (pb_run es)"

section \<open>Invariant\<close>

definition pb_ok :: "int \<Rightarrow> int \<Rightarrow> pb_sys \<Rightarrow> bytes list \<Rightarrow> bool" where
  "pb_ok mtu num s ps \<longleftrightarrow>
     (let b = pb_buf (sys_pb s) in
      pb_input_mtu (sys_pb s) = mtu \<and> 0 \<le> mtu \<and> mtu \<le> INT_MAX \<and>
      cb_mtu b = data_blocks mtu \<and> cb_size b = (1 + data_blocks mtu) * (num + 1) \<and>
      cb_rep b ps \<and> (\<forall>d \<in> set ps. int (length d) \<le> mtu) \<and>
      received s = sent s @ ps \<and>
      recv_at s = (if cb_input_avail b \<ge> mtu then cb_input_dest b else None) \<and>
      send_at s = (case cb_output_dest b of None \<Rightarrow> None | Some off \<Rightarrow> Some (off, cb_output_avail b)))"

lemma cb_dest_Some: "cb_rep b ps \<Longrightarrow> 0 \<le> n \<Longrightarrow> n \<le> cb_input_avail b \<Longrightarrow> cb_input_dest b \<noteq> None"
  using cb_input_fits(1) [of b ps "[]"] by simp

lemma pb_ok_event:
  assumes ok: "pb_ok mtu num s ps"
  shows "\<exists>s' ps'. pb_event_step e s = Some s' \<and> pb_ok mtu num s' ps'"
proof -
  let ?b = "pb_buf (sys_pb s)"
  have o: "pb_input_mtu (sys_pb s) = mtu" "0 \<le> mtu" "mtu \<le> INT_MAX" "cb_mtu ?b = data_blocks mtu"
    "cb_size ?b = (1 + data_blocks mtu) * (num + 1)" "cb_rep ?b ps" "\<forall>d \<in> set ps. int (length d) \<le> mtu"
    "received s = sent s @ ps" "recv_at s = (if cb_input_avail ?b \<ge> mtu then cb_input_dest ?b else None)"
    "send_at s = (case cb_output_dest ?b of None \<Rightarrow> None | Some off \<Rightarrow> Some (off, cb_output_avail ?b))"
    using ok by (auto simp: pb_ok_def Let_def)
  show ?thesis
  proof (cases e)
    case (PacketIn data)
    show ?thesis
    proof (cases "recv_at s = None \<or> \<not> int (length data) \<le> mtu")
      case True
      then show ?thesis using ok o PacketIn by (auto split: option.split)
    next
      case False
      then obtain off where off: "recv_at s = Some off" "cb_input_dest ?b = Some off"
        and fits: "int (length data) \<le> cb_input_avail ?b" and len: "int (length data) \<le> mtu"
        using o(9) by (auto split: if_splits)
      let ?b' = "ChunkBuffer2_SubmitPacket (int (length data)) (cb_fill data ?b)"
      have fill: "?b\<lparr>cb_buffer := put_at (nat off) data (cb_buffer ?b)\<rparr> = cb_fill data ?b"
        by (simp add: cb_fill_def off)
      note rep' = cb_submit_rep [OF o(6) fits]
      note fld = submit_fields [OF o(6) fits]
      have outs: "cb_output_avail (cb_fill data ?b) = cb_output_avail ?b" by (simp add: cb_fill_def off)
      show ?thesis
        using PacketIn off o len rep' fld cb_peek_rep(2,3) [OF o(6)] cb_peek_rep(2,3) [OF rep'] outs
          cb_dest_Some [OF rep' o(2)]
        by (cases ps)
           (auto simp: pb_input_handler_done_def Let_def fill pb_ok_def intro!: exI [of _ "ps @ [data]"])
    qed
  next
    case PacketOut
    show ?thesis
    proof (cases ps)
      case Nil
      then show ?thesis using ok o PacketOut cb_peek_rep(3) [OF o(6)] by (auto split: option.split)
    next
      case (Cons p ps')
      let ?b' = "ChunkBuffer2_ConsumePacket ?b"
      have rep: "cb_rep ?b (p # ps')" using o(6) Cons by simp
      note rep' = cb_consume_rep [OF rep]
      note pk = cb_peek_rep [OF rep] and pk' = cb_peek_rep [OF rep']
      have "get_at (nat (4 * (cb_start ?b + 1))) (length p) (cb_buffer ?b) = p"
        using pk by (simp add: cb_peek_def)
      then show ?thesis
        using PacketOut o Cons rep' pk pk' consume_end_free [OF rep] consume_input_mono [OF rep]
          cb_dest_Some [OF rep' o(2)] cb_dest_Some [OF rep o(2)]
        by (cases ps')
           (auto simp: pb_output_handler_done_def Let_def pb_ok_def intro!: exI [of _ ps'])
    qed
  qed
qed

lemma pb_perform_fields:
  "pb_perform calls s = Some s' \<Longrightarrow> received s' = received s \<and> sent s' = sent s \<and> sys_pb s' = sys_pb s \<and>
     (recv_at s \<noteq> None \<longrightarrow> recv_at s' = recv_at s)"
  by (induction calls s rule: pb_perform.induct) (auto split: if_splits option.splits)

lemma pb_event_received:
  assumes "pb_ok mtu num s ps" "recv_at s = Some off" "int (length data) \<le> mtu"
    "pb_event_step (PacketIn data) s = Some s'"
  shows "received s' = received s @ [data]"
proof -
  have "pb_input_mtu (sys_pb s) = mtu" using assms(1) by (simp add: pb_ok_def Let_def)
  then show ?thesis using assms(2-) by (auto simp: Let_def dest!: pb_perform_fields split: prod.splits)
qed

lemma pb_event_out:
  assumes "pb_ok mtu num s ps" "pb_event_step PacketOut s = Some s'"
  shows "received s' = received s" "recv_at s \<noteq> None \<Longrightarrow> recv_at s' = recv_at s"
  using assms by (auto simp: Let_def dest!: pb_perform_fields split: prod.splits option.splits)

lemma pb_ok_run: "pb_ok mtu num s ps \<Longrightarrow> \<exists>s' ps'. pb_run es s = Some s' \<and> pb_ok mtu num s' ps'"
proof (induction es arbitrary: s ps)
  case (Cons e es)
  then show ?case using pb_ok_event [OF Cons.prems, of e] by fastforce
qed auto

text \<open>What the start of a buffer needs: sizes that an \<^verbatim>\<open>int\<close> can hold in bytes, and memory.\<close>

definition pb_sizes_ok :: "(int \<Rightarrow> bytes option) \<Rightarrow> int \<Rightarrow> int \<Rightarrow> bool" where
  "pb_sizes_ok alloc mtu num \<longleftrightarrow>
     0 \<le> mtu \<and> mtu \<le> INT_MAX \<and> 0 < num \<and> num \<le> INT_MAX \<and>
     4 * ((1 + data_blocks mtu) * (num + 1)) \<le> INT_MAX \<and>
     (case alloc ((1 + data_blocks mtu) * (num + 1)) of None \<Rightarrow> False
      | Some mem \<Rightarrow> int (length mem) = 4 * ((1 + data_blocks mtu) * (num + 1)))"

lemma pb_start_ok:
  assumes "pb_sizes_ok alloc mtu num"
  shows "\<exists>s. pb_start alloc mtu num = Some s \<and> pb_ok mtu num s []"
proof -
  let ?n = "(1 + data_blocks mtu) * (num + 1)"
  obtain mem where a: "0 \<le> mtu" "mtu \<le> INT_MAX" "0 < num" "num \<le> INT_MAX" "4 * ?n \<le> INT_MAX"
    "alloc ?n = Some mem" "int (length mem) = 4 * ?n"
    using assms by (auto simp: pb_sizes_ok_def split: option.splits)
  let ?b = "ChunkBuffer2_Init mem ?n mtu"
  have db: "0 \<le> data_blocks mtu" "mtu \<le> 4 * data_blocks mtu" using a data_blocks_bounds by simp_all
  have "1 + data_blocks mtu \<le> ?n"
    using a(3) db mult_left_mono [of 1 "num + 1" "1 + data_blocks mtu"] by simp
  then have i: "cb_rep ?b []" "cb_size ?b = ?n" "cb_mtu ?b = data_blocks mtu"
    using a cb_init_rep [of mem ?n mtu] by simp_all
  have blocks: "ChunkBuffer2_calc_blocks mtu num = ?n" "\<not> ?n < 0"
    using a db by (simp_all add: calc_blocks_exact Let_def)
  have "cb_input_dest ?b = Some (4 * (ChunkBuffer2_end ?b + 1))" "mtu \<le> cb_input_avail ?b"
    using cb_empty_room [OF i(1)] i(3) db by simp_all
  then show ?thesis
    using a i blocks cb_peek_rep(2,3) [OF i(1)]
    by (simp add: pb_start_def PacketBuffer_Init_def Let_def pb_ok_def)
qed

lemma pb_reached:
  assumes "pb_sizes_ok alloc mtu num"
  shows "\<exists>s ps. Option.bind (pb_start alloc mtu num) (pb_run es) = Some s \<and> pb_ok mtu num s ps"
  using pb_start_ok [OF assms] pb_ok_run [of mtu num _ "[]" es] by fastforce

lemma pb_ok_interfaces:
  assumes ok: "pb_ok mtu num s ps"
  shows "send_at s = None \<longleftrightarrow> ps = []" "int (length ps) < num \<Longrightarrow> recv_at s \<noteq> None"
    "ps = [] \<Longrightarrow> recv_at s \<noteq> None"
proof -
  let ?b = "pb_buf (sys_pb s)"
  have o: "0 \<le> mtu" "mtu \<le> INT_MAX" "cb_mtu ?b = data_blocks mtu"
    "cb_size ?b = (1 + data_blocks mtu) * (num + 1)" "cb_rep ?b ps" "\<forall>d \<in> set ps. int (length d) \<le> mtu"
    "recv_at s = (if cb_input_avail ?b \<ge> mtu then cb_input_dest ?b else None)"
    "send_at s = (case cb_output_dest ?b of None \<Rightarrow> None | Some off \<Rightarrow> Some (off, cb_output_avail ?b))"
    using ok by (auto simp: pb_ok_def Let_def)
  note db = data_blocks_bounds [OF o(1,2)]
  show "send_at s = None \<longleftrightarrow> ps = []"
    using o(8) cb_peek_rep(3) [OF o(5)] by (cases ps) auto
  show "recv_at s \<noteq> None" if "ps = []"
    using that o(5,7) cb_empty_room [of ?b] o(3) db by simp
  have "data_blocks (int (length d)) \<le> data_blocks mtu" if "d \<in> set ps" for d
    using that o(1,2,6) db by (subst data_blocks_le_iff) force+
  then show "recv_at s \<noteq> None" if "int (length ps) < num"
    using that o(3,4,7) cb_capacity [OF o(5), of num] db by simp
qed

section \<open>Properties\<close>

text \<open>
  C7: whatever its two neighbours do, a packet buffer that could be initialised never makes
  an interface call on a busy interface (the run is defined), it passes packets on
  unchanged and in the order received, and it loses none: what has been received is what
  has been sent followed by what the ring buffer holds.
\<close>

theorem pb_in_order:
  assumes "pb_sizes_ok alloc mtu num"
  shows "\<exists>s ps. Option.bind (pb_start alloc mtu num) (pb_run es) = Some s \<and>
     received s = sent s @ ps \<and> cb_rep (pb_buf (sys_pb s)) ps"
  using pb_reached [OF assms, of es] by (auto simp: pb_ok_def Let_def)

theorem pb_in_order_witness:
  "\<exists>s ps. Option.bind (pb_start (\<lambda>n. Some (replicate (nat (4 * n)) 0)) 5 2)
       (pb_run [PacketIn [1, 2, 3], PacketIn [4, 5, 6, 7, 8], PacketOut]) = Some s \<and>
     received s = sent s @ ps \<and> cb_rep (pb_buf (sys_pb s)) ps"
  by (rule pb_in_order) (simp add: pb_sizes_ok_def data_blocks_eq INT_MAX_def)

text \<open>
  C8: the packet buffer never stalls. In every state it can reach, a send is outstanding
  exactly when it holds packets, and a receive is outstanding whenever it holds fewer than
  the \<^verbatim>\<open>num_packets\<close> it was created for; so an empty buffer always accepts a packet of full
  MTU, although the ring may have been wrapped anywhere.
\<close>

theorem pb_never_stalls:
  assumes "pb_sizes_ok alloc mtu num"
    and "Option.bind (pb_start alloc mtu num) (pb_run es) = Some s"
  shows "(send_at s = None \<longleftrightarrow> received s = sent s) \<and>
     (int (length (received s)) - int (length (sent s)) < num \<longrightarrow> recv_at s \<noteq> None)"
proof -
  obtain ps where ok: "pb_ok mtu num s ps" using pb_reached [OF assms(1), of es] assms(2) by auto
  then have "received s = sent s @ ps" by (simp add: pb_ok_def Let_def)
  then show ?thesis using pb_ok_interfaces [OF ok] by simp
qed

theorem pb_never_stalls_witness:
  "\<exists>s. Option.bind (pb_start (\<lambda>n. Some (replicate (nat (4 * n)) 0)) 5 2)
       (pb_run [PacketIn [1, 2, 3]]) = Some s \<and>
     (send_at s = None \<longleftrightarrow> received s = sent s)"
proof -
  have ok: "pb_sizes_ok (\<lambda>n. Some (replicate (nat (4 * n)) 0)) 5 2"
    by (simp add: pb_sizes_ok_def data_blocks_eq INT_MAX_def)
  from pb_reached [OF ok, of "[PacketIn [1, 2, 3]]"] pb_never_stalls [OF ok, of "[PacketIn [1, 2, 3]]"]
  show ?thesis by blast
qed

end
