(* ===== verification/Packet_Proto.thy ===== *)
theory Packet_Proto
  imports Bsize Byteorder
begin

text \<open>
  The packet protocol that frames packets in a byte stream: \<^verbatim>\<open>protocol/packetproto.h\<close>,
  \<^verbatim>\<open>flow/PacketProtoEncoder.c\<close> and \<^verbatim>\<open>flow/PacketProtoDecoder.c\<close>. A packet is framed by its
  length as a 16-bit little endian integer. The decoder is modelled with its buffer and
  every interface call it makes; its environment hands it the stream in pieces of any
  size. The specification is the function \<^verbatim>\<open>pp_split\<close> that cuts a stream into packets.
\<close>

section \<open>packetproto.h\<close>

definition PACKETPROTO_MAXPAYLOAD :: int where
  "PACKETPROTO_MAXPAYLOAD = 65535"

definition PACKETPROTO_ENCLEN :: "int \<Rightarrow> int" where
  "PACKETPROTO_ENCLEN len = 2 + len"

text \<open>\<^verbatim>\<open>struct packetproto_header\<close> in memory, and read back from memory.\<close>

definition packetproto_header :: "u16 \<Rightarrow> bytes" where
  "packetproto_header len = mem16 len"

definition packetproto_header_len :: "bytes \<Rightarrow> u16" where
  "packetproto_header_len p = badvpn_read_le16 p"

section \<open>The encoder\<close>

text \<open>\<^verbatim>\<open>output_packet\<close> is an offset into the buffer of the packet receiver.\<close>

record PacketProtoEncoder =
  enc_output_mtu :: int
  enc_output_packet :: "int option"

datatype enc_call =
    Enc_Receiver_Recv int
  | Enc_Output_Done int

definition PacketProtoEncoder_Init :: "int \<Rightarrow> PacketProtoEncoder" where
  "PacketProtoEncoder_Init input_mtu =
     \<lparr>enc_output_mtu = PACKETPROTO_ENCLEN input_mtu, enc_output_packet = None\<rparr>"

definition enc_output_handler_recv :: "int \<Rightarrow> PacketProtoEncoder \<Rightarrow> PacketProtoEncoder \<times> enc_call list" where
  "enc_output_handler_recv data enc =
     (enc\<lparr>enc_output_packet := Some data\<rparr>, [Enc_Receiver_Recv (data + 2)])"

definition enc_input_handler_done ::
    "int \<Rightarrow> PacketProtoEncoder \<times> bytes \<Rightarrow> (PacketProtoEncoder \<times> bytes) \<times> enc_call list" where
  "enc_input_handler_done in_len = (\<lambda>(enc, mem).
     case enc_output_packet enc of
       None \<Rightarrow> ((enc, mem), [])
     | Some off \<Rightarrow>
         ((enc\<lparr>enc_output_packet := None\<rparr>,
           put_at (nat off) (packetproto_header (htol16 (word_of_int in_len))) mem),
          [Enc_Output_Done (PACKETPROTO_ENCLEN in_len)]))"

section \<open>The decoder\<close>

record PacketProtoDecoder =
  dec_output_mtu :: int
  dec_buf_size :: int
  dec_buf_start :: int
  dec_buf_used :: int
  dec_buf :: bytes

datatype dec_call =
    Dec_Sender_Send int int
  | Dec_Receiver_Recv int int
  | Dec_handler_error

definition dec_process_data :: "PacketProtoDecoder \<Rightarrow> PacketProtoDecoder \<times> dec_call list" where
  "dec_process_data enc =
     (let data = dec_buf_start enc;
          left = dec_buf_used enc;
          receive = (\<lambda>e. Dec_Receiver_Recv (dec_buf_start e + dec_buf_used e)
                           (dec_buf_size e - (dec_buf_start e + dec_buf_used e)));
          no_packet =
            (let e = (if dec_buf_start enc + dec_buf_used enc = dec_buf_size enc
                      then enc\<lparr>dec_buf := put_at 0 (get_at (nat (dec_buf_start enc)) (nat (dec_buf_used enc)) (dec_buf enc))
                                            (dec_buf enc),
                               dec_buf_start := 0\<rparr>
                      else enc)
             in (e, [receive e]))
      in if left < 2 then no_packet
         else let data_len = uint (ltoh16 (packetproto_header_len (get_at (nat data) 2 (dec_buf enc))));
                  data' = data + 2;
                  left' = left - 2
              in if data_len > dec_output_mtu enc
                 then let e = enc\<lparr>dec_buf_start := 0, dec_buf_used := 0\<rparr>
                      in (e, [receive e, Dec_handler_error])
                 else if left' < data_len then no_packet
                 else (enc\<lparr>dec_buf_start := dec_buf_start enc + (2 + data_len),
                           dec_buf_used := dec_buf_used enc - (2 + data_len)\<rparr>,
                       [Dec_Sender_Send data' data_len]))"

definition dec_input_handler_done :: "int \<Rightarrow> PacketProtoDecoder \<Rightarrow> PacketProtoDecoder \<times> dec_call list" where
  "dec_input_handler_done data_len enc =
     dec_process_data (enc\<lparr>dec_buf_used := dec_buf_used enc + data_len\<rparr>)"

definition dec_output_handler_done :: "PacketProtoDecoder \<Rightarrow> PacketProtoDecoder \<times> dec_call list" where
  "dec_output_handler_done enc = dec_process_data enc"

text \<open>\<^verbatim>\<open>alloc\<close> is \<^verbatim>\<open>malloc\<close> of the given number of bytes.\<close>

definition PacketProtoDecoder_Init ::
    "(int \<Rightarrow> bytes option) \<Rightarrow> int \<Rightarrow> (PacketProtoDecoder \<times> dec_call list) option" where
  "PacketProtoDecoder_Init alloc output_interface_mtu =
     (let output_mtu = bmin output_interface_mtu PACKETPROTO_MAXPAYLOAD;
          buf_size = PACKETPROTO_ENCLEN output_mtu
      in case alloc buf_size of
           None \<Rightarrow> None
         | Some buf \<Rightarrow>
             Some (\<lparr>dec_output_mtu = output_mtu, dec_buf_size = buf_size, dec_buf_start = 0,
                    dec_buf_used = 0, dec_buf = buf\<rparr>,
                   [Dec_Receiver_Recv 0 buf_size]))"

definition PacketProtoDecoder_Reset :: "PacketProtoDecoder \<Rightarrow> PacketProtoDecoder" where
  "PacketProtoDecoder_Reset enc =
     enc\<lparr>dec_buf_start := dec_buf_start enc + dec_buf_used enc, dec_buf_used := 0\<rparr>"

section \<open>Specification: cutting a stream into packets\<close>

definition pp_encode :: "bytes \<Rightarrow> bytes" where
  "pp_encode p = badvpn_write_le16 (of_nat (length p)) @ p"

datatype pp_result = More | TooLarge | Packet bytes bytes

definition pp_next :: "int \<Rightarrow> bytes \<Rightarrow> pp_result" where
  "pp_next mtu bs =
     (if length bs < 2 then More
      else let n = unat (badvpn_read_le16 bs) in
        if int n > mtu then TooLarge
        else if length bs - 2 < n then More
        else Packet (take n (drop 2 bs)) (drop (2 + n) bs))"

lemma pp_next_shorter: "pp_next mtu bs = Packet p r \<Longrightarrow> length r < length bs"
  by (auto simp: pp_next_def Let_def split: if_splits)

function pp_split :: "int \<Rightarrow> bytes \<Rightarrow> bytes list \<times> bytes \<times> bool" where
  "pp_split mtu bs =
     (case pp_next mtu bs of
        More \<Rightarrow> ([], bs, False)
      | TooLarge \<Rightarrow> ([], bs, True)
      | Packet p r \<Rightarrow> (case pp_split mtu r of (ps, rest, e) \<Rightarrow> (p # ps, rest, e)))"
  by pat_completeness auto
termination
  by (relation "measure (\<lambda>(_, bs). length bs)") (auto dest: pp_next_shorter)

declare pp_split.simps [simp del]

section \<open>The decoder between its interfaces\<close>

record dec_sys =
  ds_dec :: PacketProtoDecoder
  ds_recv :: "(int \<times> int) option"
  ds_send :: "(int \<times> int) option"
  ds_fed :: bytes
  ds_delivered :: "bytes list"
  ds_error :: bool

fun dec_perform :: "dec_call list \<Rightarrow> dec_sys \<Rightarrow> dec_sys option" where
  "dec_perform [] s = Some s"
| "dec_perform (Dec_Receiver_Recv off n # cs) s =
     (if ds_recv s = None \<and> 0 < n then dec_perform cs (s\<lparr>ds_recv := Some (off, n)\<rparr>) else None)"
| "dec_perform (Dec_Sender_Send off n # cs) s =
     (if ds_send s = None \<and> 0 \<le> n \<and> n \<le> dec_output_mtu (ds_dec s)
      then dec_perform cs (s\<lparr>ds_send := Some (off, n)\<rparr>) else None)"
| "dec_perform (Dec_handler_error # cs) s = dec_perform cs (s\<lparr>ds_error := True\<rparr>)"

text \<open>
  \<^verbatim>\<open>Feed\<close>: the stream delivers some bytes into the buffer space of the outstanding receive.
  \<^verbatim>\<open>Taken\<close>: the consumer has taken the packet of the outstanding send. After an error
  report the owner disposes of the decoder, so nothing happens any more.
\<close>

datatype dec_event = Feed bytes | Taken

fun dec_event_step :: "dec_event \<Rightarrow> dec_sys \<Rightarrow> dec_sys option" where
  "dec_event_step (Feed bs) s =
     (case ds_recv s of
        Some (off, n) \<Rightarrow>
          if \<not> ds_error s \<and> bs \<noteq> [] \<and> int (length bs) \<le> n then
            let d = (ds_dec s)\<lparr>dec_buf := put_at (nat off) bs (dec_buf (ds_dec s))\<rparr>;
                (d', calls) = dec_input_handler_done (int (length bs)) d
            in dec_perform calls (s\<lparr>ds_dec := d', ds_recv := None, ds_fed := ds_fed s @ bs\<rparr>)
          else Some s
      | None \<Rightarrow> Some s)"
| "dec_event_step Taken s =
     (case ds_send s of
        Some (off, n) \<Rightarrow>
          if \<not> ds_error s then
            let p = get_at (nat off) (nat n) (dec_buf (ds_dec s));
                (d', calls) = dec_output_handler_done (ds_dec s)
            in dec_perform calls (s\<lparr>ds_dec := d', ds_send := None, ds_delivered := ds_delivered s @ [p]\<rparr>)
          else Some s
      | None \<Rightarrow> Some s)"

fun dec_run :: "dec_event list \<Rightarrow> dec_sys \<Rightarrow> dec_sys option" where
  "dec_run [] s = Some s"
| "dec_run (e # es) s = Option.bind (dec_event_step e s) (dec_run es)"

definition dec_start :: "(int \<Rightarrow> bytes option) \<Rightarrow> int \<Rightarrow> dec_sys option" where
  "dec_start alloc mtu =
     (case PacketProtoDecoder_Init alloc mtu of
        None \<Rightarrow> None
      | Some (d, calls) \<Rightarrow>
          dec_perform calls \<lparr>ds_dec = d, ds_recv = None, ds_send = None, ds_fed = [], ds_delivered = [], ds_error = False\<rparr>)"

section \<open>Framing lemmas\<close>

lemma write_read_le16: "2 \<le> length bs \<Longrightarrow> badvpn_write_le16 (badvpn_read_le16 bs) = take 2 bs"
proof -
  assume "2 \<le> length bs"
  then obtain a b r where "bs = a # b # r"
    by (metis Suc_le_length_iff numeral_2_eq_2)
  then show ?thesis
    by (auto simp: read_defs write_defs intro!: bit_word_eqI) (auto simp: bit_simps dest: bit_imp_le_length)
qed

lemma read_le16_take [simp]: "2 \<le> n \<Longrightarrow> badvpn_read_le16 (take n bs) = badvpn_read_le16 bs"
  by (simp add: badvpn_read_le16_def)

lemma pp_next_Packet:
  assumes "pp_next mtu bs = Packet p r"
  shows "bs = pp_encode p @ r" "int (length p) \<le> mtu"
    "length p = unat (badvpn_read_le16 bs)" "2 + length p \<le> length bs"
proof -
  let ?n = "unat (badvpn_read_le16 bs)"
  have n: "2 \<le> length bs" "int ?n \<le> mtu" "?n \<le> length bs - 2"
    "p = take ?n (drop 2 bs)" "r = drop (2 + ?n) bs"
    using assms by (auto simp: pp_next_def Let_def not_less split: if_splits)
  then show len: "length p = ?n" by simp
  then have "pp_encode p = take 2 bs @ p"
    using n(1) by (simp add: pp_encode_def write_read_le16)
  then show "bs = pp_encode p @ r"
    using n by (metis append.assoc append_take_drop_id drop_drop add.commute)
  show "int (length p) \<le> mtu" "2 + length p \<le> length bs" using n len by auto
qed

lemma pp_next_encode:
  assumes "int (length p) \<le> mtu" "mtu \<le> PACKETPROTO_MAXPAYLOAD"
  shows "pp_next mtu (pp_encode p @ r) = Packet p r"
proof -
  have "unat (of_nat (length p) :: u16) = length p"
    using assms by (simp add: unat_of_nat PACKETPROTO_MAXPAYLOAD_def)
  then show ?thesis
    using assms by (simp add: pp_next_def pp_encode_def Let_def)
qed

lemma pp_split_encode:
  assumes "int (length p) \<le> mtu" "mtu \<le> PACKETPROTO_MAXPAYLOAD"
  shows "pp_split mtu (pp_encode p @ r) = (case pp_split mtu r of (ps, rest, e) \<Rightarrow> (p # ps, rest, e))"
  by (subst pp_split.simps) (simp add: pp_next_encode [OF assms])

lemma pp_split_concat:
  assumes "mtu \<le> PACKETPROTO_MAXPAYLOAD"
  shows "\<forall>p \<in> set ps. int (length p) \<le> mtu \<Longrightarrow>
     pp_split mtu (concat (map pp_encode ps) @ r) =
       (case pp_split mtu r of (qs, rest, e) \<Rightarrow> (ps @ qs, rest, e))"
  using assms by (induction ps) (auto simp: pp_split_encode split: prod.splits)

lemma pp_split_stop:
  "pp_next mtu bs = More \<Longrightarrow> pp_split mtu bs = ([], bs, False)"
  "pp_next mtu bs = TooLarge \<Longrightarrow> pp_split mtu bs = ([], bs, True)"
  by (subst pp_split.simps; simp)+

section \<open>One round of the decoder\<close>

definition unread :: "PacketProtoDecoder \<Rightarrow> bytes" where
  "unread d = get_at (nat (dec_buf_start d)) (nat (dec_buf_used d)) (dec_buf d)"

definition dec_wf :: "int \<Rightarrow> PacketProtoDecoder \<Rightarrow> bool" where
  "dec_wf mtu d \<longleftrightarrow>
     dec_output_mtu d = mtu \<and> 0 \<le> mtu \<and> mtu \<le> PACKETPROTO_MAXPAYLOAD \<and> dec_buf_size d = PACKETPROTO_ENCLEN mtu \<and>
     int (length (dec_buf d)) = dec_buf_size d \<and>
     0 \<le> dec_buf_start d \<and> 0 \<le> dec_buf_used d \<and> dec_buf_start d + dec_buf_used d \<le> dec_buf_size d"

lemma length_unread: "dec_wf mtu d \<Longrightarrow> int (length (unread d)) = dec_buf_used d"
proof -
  assume wf: "dec_wf mtu d"
  then have "nat (dec_buf_start d) + nat (dec_buf_used d) \<le> length (dec_buf d)"
    by (auto simp: dec_wf_def nat_add_distrib [symmetric] nat_le_iff)
  then show ?thesis using wf by (simp add: unread_def dec_wf_def)
qed

text \<open>The test the decoder makes is the test of the specification on its unread bytes.\<close>

definition dec_data_len :: "PacketProtoDecoder \<Rightarrow> int" where
  "dec_data_len d = uint (ltoh16 (packetproto_header_len (get_at (nat (dec_buf_start d)) 2 (dec_buf d))))"

lemma pp_next_unread:
  assumes wf: "dec_wf mtu d"
  shows "pp_next mtu (unread d) =
     (if dec_buf_used d < 2 then More
      else if dec_data_len d > mtu then TooLarge
      else if dec_buf_used d - 2 < dec_data_len d then More
      else Packet (take (nat (dec_data_len d)) (drop 2 (unread d)))
                  (drop (2 + nat (dec_data_len d)) (unread d)))"
proof (cases "dec_buf_used d < 2")
  case False
  then have "get_at (nat (dec_buf_start d)) 2 (dec_buf d) = take 2 (unread d)"
    by (simp add: unread_def get_at_def min_def)
  then have n: "dec_data_len d = uint (badvpn_read_le16 (unread d))"
    by (simp add: dec_data_len_def byteorder_defs packetproto_header_len_def)
  have "2 \<le> length (unread d)" using False length_unread [OF wf] by linarith
  then have "length (unread d) - 2 < unat (badvpn_read_le16 (unread d)) \<longleftrightarrow>
      dec_buf_used d - 2 < dec_data_len d"
    unfolding n uint_nat length_unread [OF wf, symmetric] by presburger
  moreover have "nat (dec_data_len d) = unat (badvpn_read_le16 (unread d))" by (simp add: n)
  ultimately show ?thesis
    using False \<open>2 \<le> length (unread d)\<close> n by (simp add: pp_next_def Let_def)
qed (use length_unread [OF wf] in \<open>simp add: pp_next_def\<close>)

lemma process_eq:
  "dec_process_data d =
     (let receive = (\<lambda>e. Dec_Receiver_Recv (dec_buf_start e + dec_buf_used e)
                           (dec_buf_size e - (dec_buf_start e + dec_buf_used e)));
          no_packet = (let e = (if dec_buf_start d + dec_buf_used d = dec_buf_size d
                      then d\<lparr>dec_buf := put_at 0 (unread d) (dec_buf d), dec_buf_start := 0\<rparr> else d)
             in (e, [receive e]));
          e = d\<lparr>dec_buf_start := 0, dec_buf_used := 0\<rparr>
      in if dec_buf_used d < 2 then no_packet
         else if dec_data_len d > dec_output_mtu d then (e, [receive e, Dec_handler_error])
         else if dec_buf_used d - 2 < dec_data_len d then no_packet
         else (d\<lparr>dec_buf_start := dec_buf_start d + (2 + dec_data_len d),
                 dec_buf_used := dec_buf_used d - (2 + dec_data_len d)\<rparr>,
               [Dec_Sender_Send (dec_buf_start d + 2) (dec_data_len d)]))"
  by (simp add: dec_process_data_def Let_def unread_def dec_data_len_def)

lemma process_more:
  assumes wf: "dec_wf mtu d" and more: "pp_next mtu (unread d) = More"
  shows "\<exists>d'. dec_process_data d =
      (d', [Dec_Receiver_Recv (dec_buf_start d' + dec_buf_used d')
              (dec_buf_size d' - (dec_buf_start d' + dec_buf_used d'))]) \<and>
     dec_wf mtu d' \<and> unread d' = unread d \<and> dec_buf_start d' + dec_buf_used d' < dec_buf_size d'"
proof -
  define e where "e = (if dec_buf_start d + dec_buf_used d = dec_buf_size d
      then d\<lparr>dec_buf := put_at 0 (unread d) (dec_buf d), dec_buf_start := 0\<rparr> else d)"
  have lu: "int (length (unread d)) = dec_buf_used d" using length_unread [OF wf] .
  have small: "dec_buf_used d < 2 + mtu"
    using more wf unfolding pp_next_unread [OF wf] by (auto simp: dec_wf_def split: if_splits)
  have "dec_process_data d = (e, [Dec_Receiver_Recv (dec_buf_start e + dec_buf_used e)
              (dec_buf_size e - (dec_buf_start e + dec_buf_used e))])"
    using more wf unfolding pp_next_unread [OF wf] process_eq
    by (auto simp: Let_def e_def dec_wf_def split: if_splits)
  moreover have "dec_wf mtu e" "unread e = unread d"
    using wf lu by (auto simp: e_def dec_wf_def unread_def [of "d\<lparr>dec_buf := _, dec_buf_start := _\<rparr>"])
  moreover have "dec_buf_start e + dec_buf_used e < dec_buf_size e"
    using wf small by (auto simp: e_def dec_wf_def PACKETPROTO_ENCLEN_def)
  ultimately show ?thesis by blast
qed

lemma process_packet:
  assumes wf: "dec_wf mtu d" and pkt: "pp_next mtu (unread d) = Packet p r"
  shows "\<exists>d' off. dec_process_data d = (d', [Dec_Sender_Send off (int (length p))]) \<and>
     dec_wf mtu d' \<and> unread d' = r \<and> get_at (nat off) (length p) (dec_buf d') = p \<and>
     int (length p) \<le> mtu"
proof -
  note lu = length_unread [OF wf]
  define n where "n = dec_data_len d"
  have n: "0 \<le> n" "n \<le> mtu" "2 + n \<le> dec_buf_used d"
    "p = take (nat n) (drop 2 (unread d))" "r = drop (2 + nat n) (unread d)"
    using pkt unfolding pp_next_unread [OF wf] by (auto simp: n_def dec_data_len_def split: if_splits)
  have len: "int (length p) = n" using n lu by simp
  let ?d' = "d\<lparr>dec_buf_start := dec_buf_start d + (2 + n), dec_buf_used := dec_buf_used d - (2 + n)\<rparr>"
  have "dec_process_data d = (?d', [Dec_Sender_Send (dec_buf_start d + 2) n])"
    using n wf unfolding process_eq by (simp add: Let_def dec_wf_def n_def)
  moreover have "dec_wf mtu ?d'" using wf n by (simp add: dec_wf_def)
  moreover have "unread ?d' = r"
    using wf n by (simp add: unread_def get_at_def dec_wf_def drop_take nat_add_distrib nat_diff_distrib
        add.commute add.left_commute)
  moreover have "get_at (nat (dec_buf_start d + 2)) (nat n) (dec_buf d) = p"
  proof -
    have "nat n \<le> nat (dec_buf_used d) - 2" using n by linarith
    then show ?thesis
      using wf n(4) by (simp add: unread_def get_at_def dec_wf_def drop_take nat_add_distrib min_absorb1 add.commute)
  qed
  moreover have "nat n = length p" using len by simp
  ultimately show ?thesis
    using len n(2) by (intro exI [of _ ?d'] exI [of _ "dec_buf_start d + 2"]) simp
qed

lemma process_too_large:
  assumes wf: "dec_wf mtu d" and large: "pp_next mtu (unread d) = TooLarge"
  shows "\<exists>d'. dec_process_data d = (d', [Dec_Receiver_Recv 0 (dec_buf_size d), Dec_handler_error]) \<and>
     dec_wf mtu d' \<and> dec_buf_size d > 0"
  using assms unfolding pp_next_unread [OF wf] process_eq
  by (auto simp: Let_def dec_wf_def PACKETPROTO_ENCLEN_def split: if_splits)

section \<open>Invariant\<close>

text \<open>Waiting for input: no complete packet is left in the buffer and a receive with room is
  outstanding. Delivering: one packet is on offer.\<close>

definition dec_waiting :: "int \<Rightarrow> dec_sys \<Rightarrow> bool" where
  "dec_waiting mtu s \<longleftrightarrow>
     (let d = ds_dec s; e = dec_buf_start d + dec_buf_used d in
      ds_send s = None \<and> ds_recv s = Some (e, dec_buf_size d - e) \<and> e < dec_buf_size d \<and>
      ds_fed s = concat (map pp_encode (ds_delivered s)) @ unread d \<and> pp_next mtu (unread d) = More)"

definition dec_delivering :: "int \<Rightarrow> dec_sys \<Rightarrow> bool" where
  "dec_delivering mtu s \<longleftrightarrow>
     (\<exists>p off. ds_recv s = None \<and> ds_send s = Some (off, int (length p)) \<and>
        get_at (nat off) (length p) (dec_buf (ds_dec s)) = p \<and> int (length p) \<le> mtu \<and>
        ds_fed s = concat (map pp_encode (ds_delivered s)) @ pp_encode p @ unread (ds_dec s))"

definition dec_ok :: "int \<Rightarrow> dec_sys \<Rightarrow> bool" where
  "dec_ok mtu s \<longleftrightarrow>
     (\<forall>p \<in> set (ds_delivered s). int (length p) \<le> mtu) \<and> dec_wf mtu (ds_dec s) \<and>
     (if ds_error s
      then \<exists>rest. pp_split mtu (ds_fed s) = (ds_delivered s, rest, True)
      else dec_waiting mtu s \<or> dec_delivering mtu s)"

lemma dec_process_ok:
  assumes wf: "dec_wf mtu d" and small: "\<forall>p \<in> set (ds_delivered s). int (length p) \<le> mtu"
    and fed: "ds_fed s = concat (map pp_encode (ds_delivered s)) @ unread d"
    and idle: "ds_recv s = None" "ds_send s = None" "\<not> ds_error s"
    and pr: "dec_process_data d = (ds_dec s, calls)"
  shows "\<exists>s'. dec_perform calls s = Some s' \<and> dec_ok mtu s'"
proof (cases "pp_next mtu (unread d)")
  case More
  then show ?thesis
    using process_more [OF wf More] pr idle fed small
    by (auto simp: dec_ok_def dec_waiting_def Let_def)
next
  case TooLarge
  have "mtu \<le> PACKETPROTO_MAXPAYLOAD" using wf by (simp add: dec_wf_def)
  then have "pp_split mtu (ds_fed s) = (ds_delivered s, unread d, True)"
    using small by (simp add: fed pp_split_concat pp_split_stop(2) [OF TooLarge])
  then show ?thesis
    using process_too_large [OF wf TooLarge] pr idle small by (auto simp: dec_ok_def)
next
  case (Packet p r)
  then show ?thesis
    using process_packet [OF wf Packet] pp_next_Packet(1) [OF Packet] pr idle fed small wf
    by (auto simp: dec_ok_def dec_delivering_def dec_wf_def intro!: exI [of _ p])
qed

lemma put_unread:
  assumes wf: "dec_wf mtu d" and e: "e = dec_buf_start d + dec_buf_used d"
    and len: "int (length bs) \<le> dec_buf_size d - e"
  defines "d1 \<equiv> d\<lparr>dec_buf := put_at (nat e) bs (dec_buf d), dec_buf_used := dec_buf_used d + int (length bs)\<rparr>"
  shows "dec_wf mtu d1" "unread d1 = unread d @ bs"
proof -
  have fit: "nat e + length bs \<le> length (dec_buf d)" using wf len e by (simp add: dec_wf_def) linarith
  then show "dec_wf mtu d1" using wf e len by (simp add: d1_def dec_wf_def)
  have "nat e = nat (dec_buf_start d) + nat (dec_buf_used d)"
    using wf e by (simp add: dec_wf_def nat_add_distrib)
  then show "unread d1 = unread d @ bs"
    using wf fit by (simp add: d1_def unread_def dec_wf_def nat_add_distrib get_at_append_split get_put_before)
qed

lemma dec_ok_event:
  assumes ok: "dec_ok mtu s"
  shows "\<exists>s'. dec_event_step e s = Some s' \<and> dec_ok mtu s'"
proof (cases "ds_error s")
  case True
  then show ?thesis using ok by (cases e) (auto split: option.split)
next
  case False
  have wf: "dec_wf mtu (ds_dec s)" and small: "\<forall>p \<in> set (ds_delivered s). int (length p) \<le> mtu"
    using ok by (simp_all add: dec_ok_def)
  from False consider "dec_waiting mtu s" | "dec_delivering mtu s" using ok by (auto simp: dec_ok_def)
  then show ?thesis
  proof cases
    case 1
    let ?d = "ds_dec s" and ?e = "dec_buf_start (ds_dec s) + dec_buf_used (ds_dec s)"
    show ?thesis
    proof (cases "\<exists>bs. e = Feed bs \<and> bs \<noteq> [] \<and> int (length bs) \<le> dec_buf_size ?d - ?e")
      case True
      then obtain bs where e: "e = Feed bs" "bs \<noteq> []" "int (length bs) \<le> dec_buf_size ?d - ?e" by blast
      obtain d' calls where pr: "dec_process_data (?d\<lparr>dec_buf := put_at (nat ?e) bs (dec_buf ?d),
          dec_buf_used := dec_buf_used ?d + int (length bs)\<rparr>) = (d', calls)"
        by (meson surj_pair)
      let ?s = "s\<lparr>ds_dec := d', ds_recv := None, ds_fed := ds_fed s @ bs\<rparr>"
      have "\<exists>s'. dec_perform calls ?s = Some s' \<and> dec_ok mtu s'"
        using 1 False small put_unread [OF wf refl e(3)] pr
        by (intro dec_process_ok) (auto simp: dec_waiting_def Let_def)
      then show ?thesis
        using 1 e pr False by (simp add: dec_waiting_def Let_def dec_input_handler_done_def)
    qed (use ok 1 False in \<open>cases e; auto simp: dec_waiting_def Let_def\<close>)
  next
    case 2
    then obtain p off where p: "ds_recv s = None" "ds_send s = Some (off, int (length p))"
      "get_at (nat off) (length p) (dec_buf (ds_dec s)) = p" "int (length p) \<le> mtu"
      "ds_fed s = concat (map pp_encode (ds_delivered s)) @ pp_encode p @ unread (ds_dec s)"
      by (auto simp: dec_delivering_def)
    obtain d' calls where pr: "dec_process_data (ds_dec s) = (d', calls)" by (meson surj_pair)
    let ?s = "s\<lparr>ds_dec := d', ds_send := None, ds_delivered := ds_delivered s @ [p]\<rparr>"
    have "\<exists>s'. dec_perform calls ?s = Some s' \<and> dec_ok mtu s'"
      using p False small pr by (intro dec_process_ok [OF wf]) auto
    then show ?thesis
      using p ok pr False by (cases e) (simp_all add: dec_output_handler_done_def)
  qed
qed

lemma dec_ok_run: "dec_ok mtu s \<Longrightarrow> \<exists>s'. dec_run es s = Some s' \<and> dec_ok mtu s'"
proof (induction es arbitrary: s)
  case (Cons e es)
  then show ?case using dec_ok_event [OF Cons.prems, of e] by fastforce
qed auto

definition dec_alloc_ok :: "(int \<Rightarrow> bytes option) \<Rightarrow> int \<Rightarrow> bool" where
  "dec_alloc_ok alloc mtu \<longleftrightarrow>
     (case alloc (PACKETPROTO_ENCLEN mtu) of None \<Rightarrow> False | Some buf \<Rightarrow> int (length buf) = PACKETPROTO_ENCLEN mtu)"

lemma dec_start_ok:
  assumes "0 \<le> mtu" and "dec_alloc_ok alloc (min mtu PACKETPROTO_MAXPAYLOAD)"
  shows "\<exists>s. dec_start alloc mtu = Some s \<and> dec_ok (min mtu PACKETPROTO_MAXPAYLOAD) s"
proof -
  define m where "m = min mtu PACKETPROTO_MAXPAYLOAD"
  have m: "bmin mtu PACKETPROTO_MAXPAYLOAD = m" by (simp add: bmin_def min_def m_def)
  have mr: "0 \<le> m" "m \<le> PACKETPROTO_MAXPAYLOAD"
    using assms(1) by (simp_all add: m_def PACKETPROTO_MAXPAYLOAD_def)
  obtain buf where buf: "alloc (PACKETPROTO_ENCLEN m) = Some buf" "int (length buf) = PACKETPROTO_ENCLEN m"
    using assms(2) by (auto simp: m_def [symmetric] dec_alloc_ok_def split: option.splits)
  have "pp_next m [] = More" by (simp add: pp_next_def)
  then show ?thesis
    unfolding m_def [symmetric] using buf mr
    by (simp add: dec_start_def PacketProtoDecoder_Init_def Let_def m dec_ok_def dec_wf_def
        dec_waiting_def unread_def PACKETPROTO_ENCLEN_def)
qed

lemma dec_ok_split:
  assumes ok: "dec_ok mtu s"
  shows "ds_send s = None \<Longrightarrow> \<exists>rest. pp_split mtu (ds_fed s) = (ds_delivered s, rest, ds_error s)"
    and "prefix (ds_delivered s) (fst (pp_split mtu (ds_fed s)))"
proof -
  have small: "\<forall>p \<in> set (ds_delivered s). int (length p) \<le> mtu" and "mtu \<le> PACKETPROTO_MAXPAYLOAD"
    using ok by (simp_all add: dec_ok_def dec_wf_def)
  note sp = pp_split_concat [OF this(2,1)]
  show "\<exists>rest. pp_split mtu (ds_fed s) = (ds_delivered s, rest, ds_error s)" if idle: "ds_send s = None"
  proof (cases "ds_error s")
    case False
    then have "dec_waiting mtu s" using ok idle by (auto simp: dec_ok_def dec_delivering_def)
    then show ?thesis
      using False sp [of "unread (ds_dec s)"] pp_split_stop(1) by (simp add: dec_waiting_def Let_def)
  qed (use ok in \<open>simp add: dec_ok_def\<close>)
  show "prefix (ds_delivered s) (fst (pp_split mtu (ds_fed s)))"
  proof (cases "ds_error s")
    case False
    then obtain r where "ds_fed s = concat (map pp_encode (ds_delivered s)) @ r"
      using ok unfolding dec_ok_def dec_waiting_def dec_delivering_def Let_def by auto
    then show ?thesis using sp [of r] by (simp split: prod.split)
  qed (use ok in \<open>auto simp: dec_ok_def\<close>)
qed

section \<open>Properties\<close>

text \<open>
  C9: however the stream is cut into pieces and whenever the consumer takes its packets, the
  decoder never calls a busy interface nor asks for zero bytes, and it delivers exactly the
  packets that the specification finds in the bytes fed so far: a prefix of them while a
  packet is still on offer, all of them once it waits for input again. It reports an error
  exactly when the specification meets a length above the MTU.
\<close>

theorem dec_delivers_split:
  assumes "0 \<le> mtu" and "dec_alloc_ok alloc (min mtu PACKETPROTO_MAXPAYLOAD)"
  shows "\<exists>s. Option.bind (dec_start alloc mtu) (dec_run es) = Some s \<and>
     (let (ps, rest, err) = pp_split (min mtu PACKETPROTO_MAXPAYLOAD) (ds_fed s) in
        prefix (ds_delivered s) ps \<and>
        (ds_send s = None \<longrightarrow> ds_delivered s = ps \<and> ds_error s = err))"
proof -
  obtain s where s: "Option.bind (dec_start alloc mtu) (dec_run es) = Some s"
    and ok: "dec_ok (min mtu PACKETPROTO_MAXPAYLOAD) s"
    using dec_start_ok [OF assms] dec_ok_run [of _ _ es] by fastforce
  then show ?thesis using dec_ok_split [OF ok] by fastforce
qed

theorem dec_delivers_split_witness:
  "\<exists>s. Option.bind (dec_start (\<lambda>n. Some (replicate (nat n) 0)) 4) (dec_run [Feed [2], Feed [0, 7, 8, 9], Taken]) = Some s \<and>
     (let (ps, rest, err) = pp_split (min 4 PACKETPROTO_MAXPAYLOAD) (ds_fed s) in prefix (ds_delivered s) ps)"
  using dec_delivers_split [of 4 "\<lambda>n. Some (replicate (nat n) 0)" "[Feed [2], Feed [0, 7, 8, 9], Taken]"]
  by (auto simp: dec_alloc_ok_def PACKETPROTO_ENCLEN_def PACKETPROTO_MAXPAYLOAD_def Let_def split: prod.splits)

text \<open>
  Framing round trip. If the bytes fed to the decoder are the concatenation of the frames
  the encoder makes of the packets \<^term>\<open>ps\<close>, none longer than the decoder's MTU, then once
  the decoder waits for input it has delivered exactly \<^term>\<open>ps\<close>, without an error; the
  frame boundaries need not coincide with the pieces the stream arrives in.
\<close>

theorem dec_round_trip:
  assumes "0 \<le> mtu" "mtu \<le> PACKETPROTO_MAXPAYLOAD" "dec_alloc_ok alloc mtu"
    and "\<And>p. p \<in> set ps \<Longrightarrow> int (length p) \<le> mtu"
    and "Option.bind (dec_start alloc mtu) (dec_run es) = Some s"
    and "ds_fed s = concat (map pp_encode ps)" "ds_send s = None"
  shows "ds_delivered s = ps \<and> \<not> ds_error s"
proof -
  have "\<exists>s. Option.bind (dec_start alloc mtu) (dec_run es) = Some s \<and> dec_ok mtu s"
    using dec_start_ok [of mtu alloc] dec_ok_run [of mtu _ es] assms(1-3) by (fastforce simp: min_absorb1)
  then have ok: "dec_ok mtu s" using assms(5) by auto
  have "pp_split mtu [] = ([], [], False)" by (rule pp_split_stop) (simp add: pp_next_def)
  then have "pp_split mtu (ds_fed s) = (ps, [], False)"
    using pp_split_concat [OF assms(2), of ps "[]"] assms(4,6) by simp
  then show ?thesis using dec_ok_split(1) [OF ok assms(7)] by simp
qed

theorem dec_round_trip_witness:
  "\<exists>s. Option.bind (dec_start (\<lambda>n. Some (replicate (nat n) 0)) 4)
       (dec_run [Feed [2], Feed [0, 7, 8, 1], Taken, Feed [0], Feed [9], Taken]) = Some s \<and>
     ds_delivered s = [[7, 8], [9]] \<and> \<not> ds_error s"
proof -
  let ?r = "Option.bind (dec_start (\<lambda>n. Some (replicate (nat n) 0)) 4)
       (dec_run [Feed [2], Feed [0, 7, 8, 1], Taken, Feed [0], Feed [9], Taken])"
  have "map_option (\<lambda>s. (ds_fed s, ds_send s)) ?r = Some (concat (map pp_encode [[7, 8], [9]]), None)"
    by code_simp
  then obtain s where s: "?r = Some s" "ds_fed s = concat (map pp_encode [[7, 8], [9]])" "ds_send s = None"
    by (cases ?r) auto
  have "ds_delivered s = [[7, 8], [9]] \<and> \<not> ds_error s"
    by (rule dec_round_trip [OF _ _ _ _ s])
       (auto simp: dec_alloc_ok_def PACKETPROTO_ENCLEN_def PACKETPROTO_MAXPAYLOAD_def)
  then show ?thesis using s(1) by blast
qed

text \<open>
  C10: the encoder frames in place. The packet is received two bytes behind the position the
  consumer asked for; when its length is known, the header is put in front of it, and the
  frame reported to the consumer is the encoding of the packet.
\<close>

theorem enc_frames_in_place:
  assumes "0 \<le> off" "int (length data) \<le> PACKETPROTO_MAXPAYLOAD"
    and "off + 2 + int (length data) \<le> int (length mem)"
    and "enc_output_handler_recv off enc = (enc1, [Enc_Receiver_Recv dest])"
    and "enc_input_handler_done (int (length data)) (enc1, put_at (nat dest) data mem) = ((enc2, mem'), calls)"
  shows "calls = [Enc_Output_Done (int (length (pp_encode data)))] \<and>
     get_at (nat off) (length (pp_encode data)) mem' = pp_encode data \<and>
     length mem' = length mem \<and> enc_output_packet enc2 = None"
proof -
  have dest: "dest = off + 2" "enc1 = enc\<lparr>enc_output_packet := Some off\<rparr>"
    using assms(4) by (auto simp: enc_output_handler_recv_def)
  have hdr: "packetproto_header (htol16 (of_nat (length data))) = badvpn_write_le16 (of_nat (length data))"
    by (simp add: packetproto_header_def byteorder_defs mem16_def write_defs)
  have fit: "nat (off + 2) + length data \<le> length mem" using assms(1,3) by linarith
  have mem': "mem' = put_at (nat off) (badvpn_write_le16 (of_nat (length data))) (put_at (nat (off + 2)) data mem)"
    "calls = [Enc_Output_Done (2 + int (length data))]" "enc_output_packet enc2 = None"
    using assms(5) by (auto simp: enc_input_handler_done_def dest hdr PACKETPROTO_ENCLEN_def)
  have n: "nat (off + 2) = nat off + 2" using assms(1) by (simp add: nat_add_distrib)
  have "get_at (nat off) 2 mem' = badvpn_write_le16 (of_nat (length data))"
    using fit n by (simp add: mem'(1))
  moreover have "get_at (nat off + 2) (length data) mem' = data"
    using fit n by (simp add: mem'(1) get_put_after)
  ultimately show ?thesis
    using mem' fit n by (simp add: pp_encode_def get_at_append_split [of _ 2 "length data", simplified])
qed

theorem enc_frames_in_place_witness:
  "\<exists>enc2 mem'. enc_input_handler_done 3
      (fst (enc_output_handler_recv 1 (PacketProtoEncoder_Init 10)), put_at 3 [7, 8, 9] (replicate 8 0)) =
        ((enc2, mem'), [Enc_Output_Done 5]) \<and> get_at 1 5 mem' = [3, 0, 7, 8, 9]"
proof -
  let ?e = "enc_output_handler_recv 1 (PacketProtoEncoder_Init 10)"
  obtain enc2 mem' calls where r: "enc_input_handler_done (int (length [7, 8, 9 :: u8]))
      (fst ?e, put_at (nat 3) [7, 8, 9] (replicate 8 0)) = ((enc2, mem'), calls)"
    by (metis surj_pair)
  have e: "?e = (fst ?e, [Enc_Receiver_Recv 3])" by (simp add: enc_output_handler_recv_def)
  have "pp_encode [7, 8, 9] = [3, 0, 7, 8, 9]" by (simp add: pp_encode_def write_defs)
  then show ?thesis
    using r enc_frames_in_place [OF _ _ _ e r] by (simp add: PACKETPROTO_MAXPAYLOAD_def eval_nat_numeral)
qed

end
