(* ===== verification/Packet_Flow.thy ===== *)
theory Packet_Flow
  imports Packet_Buffer Packet_Proto
begin

text \<open>
  The small flow components around the packet buffer: \<^verbatim>\<open>flow/PacketStreamSender.c\<close>,
  \<^verbatim>\<open>flow/SinglePacketBuffer.c\<close>, \<^verbatim>\<open>flow/PacketPassConnector.c\<close>, \<^verbatim>\<open>flow/BufferWriter.c\<close>, and
  their composition \<^verbatim>\<open>flow/PacketProtoFlow.c\<close>. As before a handler returns the interface
  calls it makes, pointers are offsets into the memory of their owner, and a call on a
  busy interface makes a run undefined.
\<close>

section \<open>PacketStreamSender\<close>

record PacketStreamSender =
  pss_in_len :: int
  pss_in :: int
  pss_in_used :: int

datatype pss_call =
    Pss_Stream_Send int int
  | Pss_Input_Done

definition pss_send_data :: "PacketStreamSender \<Rightarrow> PacketStreamSender \<times> pss_call list" where
  "pss_send_data s =
     (if pss_in_used s < pss_in_len s
      then (s, [Pss_Stream_Send (pss_in s + pss_in_used s) (pss_in_len s - pss_in_used s)])
      else (s\<lparr>pss_in_len := - 1\<rparr>, [Pss_Input_Done]))"

definition pss_input_handler_send :: "int \<Rightarrow> int \<Rightarrow> PacketStreamSender \<Rightarrow> PacketStreamSender \<times> pss_call list" where
  "pss_input_handler_send data data_len s =
     pss_send_data (s\<lparr>pss_in_len := data_len, pss_in := data, pss_in_used := 0\<rparr>)"

definition pss_output_handler_done :: "int \<Rightarrow> PacketStreamSender \<Rightarrow> PacketStreamSender \<times> pss_call list" where
  "pss_output_handler_done data_len s =
     pss_send_data (s\<lparr>pss_in_used := pss_in_used s + data_len\<rparr>)"

definition PacketStreamSender_Init :: PacketStreamSender where
  "PacketStreamSender_Init = \<lparr>pss_in_len = - 1, pss_in = 0, pss_in_used = 0\<rparr>"

text \<open>The sender between its interfaces. \<^verbatim>\<open>mem\<close> is the memory of the packets, which their owner
  leaves alone until they are done; \<^verbatim>\<open>ss_packets\<close> are the packets accepted so far.\<close>

record pss_sys =
  ss_sender :: PacketStreamSender
  ss_busy :: bool
  ss_out :: "(int \<times> int) option"
  ss_stream :: bytes
  ss_packets :: "bytes list"

fun pss_perform :: "pss_call list \<Rightarrow> pss_sys \<Rightarrow> pss_sys option" where
  "pss_perform [] s = Some s"
| "pss_perform (Pss_Stream_Send p n # cs) s =
     (if ss_out s = None \<and> 0 < n then pss_perform cs (s\<lparr>ss_out := Some (p, n)\<rparr>) else None)"
| "pss_perform (Pss_Input_Done # cs) s =
     (if ss_busy s then pss_perform cs (s\<lparr>ss_busy := False\<rparr>) else None)"

datatype pss_event = SendPacket int int | StreamTook int

fun pss_event_step :: "bytes \<Rightarrow> pss_event \<Rightarrow> pss_sys \<Rightarrow> pss_sys option" where
  "pss_event_step mem (SendPacket p n) s =
     (if \<not> ss_busy s \<and> 0 \<le> p \<and> 0 \<le> n \<and> p + n \<le> int (length mem) then
        let (x, calls) = pss_input_handler_send p n (ss_sender s)
        in pss_perform calls (s\<lparr>ss_sender := x, ss_busy := True,
                                ss_packets := ss_packets s @ [get_at (nat p) (nat n) mem]\<rparr>)
      else Some s)"
| "pss_event_step mem (StreamTook n) s =
     (case ss_out s of None \<Rightarrow> Some s
      | Some (p, m) \<Rightarrow>
          if 0 < n \<and> n \<le> m then
            let (x, calls) = pss_output_handler_done n (ss_sender s)
            in pss_perform calls (s\<lparr>ss_sender := x, ss_out := None,
                                    ss_stream := ss_stream s @ get_at (nat p) (nat n) mem\<rparr>)
          else Some s)"

fun pss_run :: "bytes \<Rightarrow> pss_event list \<Rightarrow> pss_sys \<Rightarrow> pss_sys option" where
  "pss_run mem [] s = Some s"
| "pss_run mem (e # es) s = Option.bind (pss_event_step mem e s) (pss_run mem es)"

definition pss_start :: pss_sys where
  "pss_start = \<lparr>ss_sender = PacketStreamSender_Init, ss_busy = False, ss_out = None, ss_stream = [], ss_packets = []\<rparr>"

definition pss_ok :: "bytes \<Rightarrow> pss_sys \<Rightarrow> bool" where
  "pss_ok mem s \<longleftrightarrow>
     (let x = ss_sender s in
      if ss_busy s then
        0 \<le> pss_in x \<and> 0 \<le> pss_in_used x \<and> pss_in_used x < pss_in_len x \<and>
        pss_in x + pss_in_len x \<le> int (length mem) \<and>
        ss_out s = Some (pss_in x + pss_in_used x, pss_in_len x - pss_in_used x) \<and>
        (\<exists>ps. ss_packets s = ps @ [get_at (nat (pss_in x)) (nat (pss_in_len x)) mem] \<and>
          ss_stream s = concat ps @ get_at (nat (pss_in x)) (nat (pss_in_used x)) mem)
      else ss_out s = None \<and> ss_stream s = concat (ss_packets s))"

lemma get_at_extend:
  "0 \<le> p \<Longrightarrow> 0 \<le> u \<Longrightarrow> 0 \<le> n \<Longrightarrow>
     get_at (nat p) (nat (u + n)) mem = get_at (nat p) (nat u) mem @ get_at (nat (p + u)) (nat n) mem"
  by (simp add: nat_add_distrib get_at_append_split)

lemma pss_ok_event:
  assumes ok: "pss_ok mem s"
  shows "\<exists>s'. pss_event_step mem e s = Some s' \<and> pss_ok mem s'"
proof (cases e)
  case (SendPacket p n)
  show ?thesis
  proof (cases "\<not> ss_busy s \<and> 0 \<le> p \<and> 0 \<le> n \<and> p + n \<le> int (length mem)")
    case True
    then show ?thesis
      using ok SendPacket
      by (cases "n = 0") (auto simp: pss_ok_def Let_def pss_input_handler_send_def pss_send_data_def)
  qed (use ok SendPacket in auto)
next
  case (StreamTook n)
  show ?thesis
  proof (cases "ss_busy s \<and> 0 < n \<and> n \<le> pss_in_len (ss_sender s) - pss_in_used (ss_sender s)")
    case True
    let ?x = "ss_sender s"
    obtain ps where o: "0 \<le> pss_in ?x" "0 \<le> pss_in_used ?x" "pss_in ?x + pss_in_len ?x \<le> int (length mem)"
      "ss_out s = Some (pss_in ?x + pss_in_used ?x, pss_in_len ?x - pss_in_used ?x)"
      "ss_packets s = ps @ [get_at (nat (pss_in ?x)) (nat (pss_in_len ?x)) mem]"
      "ss_stream s = concat ps @ get_at (nat (pss_in ?x)) (nat (pss_in_used ?x)) mem"
      using ok True by (auto simp: pss_ok_def Let_def)
    have "get_at (nat (pss_in ?x)) (nat (pss_in_used ?x + n)) mem =
        get_at (nat (pss_in ?x)) (nat (pss_in_used ?x)) mem @ get_at (nat (pss_in ?x + pss_in_used ?x)) (nat n) mem"
      using o True by (simp add: get_at_extend)
    then show ?thesis
      using StreamTook True o
      by (cases "pss_in_used ?x + n = pss_in_len ?x")
         (auto simp: pss_ok_def Let_def pss_output_handler_done_def pss_send_data_def)
  qed (use ok StreamTook in \<open>auto simp: pss_ok_def Let_def split: option.split if_splits\<close>)
qed

lemma pss_ok_run: "pss_ok mem s \<Longrightarrow> \<exists>s'. pss_run mem es s = Some s' \<and> pss_ok mem s'"
proof (induction es arbitrary: s)
  case (Cons e es)
  then show ?case using pss_ok_event [OF Cons.prems, of e] by fastforce
qed auto

lemma pss_start_ok: "pss_ok mem pss_start"
  by (simp add: pss_start_def pss_ok_def)

text \<open>
  C22: the packet stream sender turns packets into a stream. However little of its data the
  stream takes at a time, the bytes put on the stream are a prefix of the concatenation of
  the packets accepted, and all of it whenever no packet is in progress; a packet in
  progress always has a non-empty send outstanding, so the sender waits only for the
  stream. No interface is called while busy.
\<close>

theorem pss_stream_exact:
  "\<exists>s. pss_run mem es pss_start = Some s \<and>
     prefix (ss_stream s) (concat (ss_packets s)) \<and>
     (if ss_busy s then \<exists>p n. ss_out s = Some (p, n) \<and> n > 0
      else ss_out s = None \<and> ss_stream s = concat (ss_packets s))"
proof -
  obtain s where s: "pss_run mem es pss_start = Some s" "pss_ok mem s"
    using pss_ok_run [OF pss_start_ok] by blast
  have "prefix (get_at p u mem) (get_at p n mem)" if "u \<le> n" for p u n
    using that get_at_append_split [of p u "n - u" mem] by simp
  then show ?thesis
    using s by (auto simp: pss_ok_def Let_def split: if_splits)
qed

section \<open>SinglePacketBuffer\<close>

datatype spb_call = Spb_Send int | Spb_Recv

definition spb_input_handler_done :: "int \<Rightarrow> spb_call list" where
  "spb_input_handler_done in_len = [Spb_Send in_len]"

definition spb_output_handler_done :: "spb_call list" where
  "spb_output_handler_done = [Spb_Recv]"

definition SinglePacketBuffer_Init :: "(int \<Rightarrow> bytes option) \<Rightarrow> int \<Rightarrow> (bytes \<times> spb_call list) option" where
  "SinglePacketBuffer_Init alloc input_mtu = map_option (\<lambda>buf. (buf, [Spb_Recv])) (alloc input_mtu)"

section \<open>PacketPassConnector\<close>

record PacketPassConnector =
  ppc_in_len :: int
  ppc_in :: int
  ppc_output :: bool

datatype ppc_call =
    Ppc_Output_Init
  | Ppc_Output_Send int int
  | Ppc_Input_Done

definition PacketPassConnector_Init :: PacketPassConnector where
  "PacketPassConnector_Init = \<lparr>ppc_in_len = - 1, ppc_in = 0, ppc_output = False\<rparr>"

definition ppc_input_handler_send :: "int \<Rightarrow> int \<Rightarrow> PacketPassConnector \<Rightarrow> PacketPassConnector \<times> ppc_call list" where
  "ppc_input_handler_send data data_len c =
     (let c1 = c\<lparr>ppc_in_len := data_len, ppc_in := data\<rparr>
      in (c1, if ppc_output c1 then [Ppc_Output_Send (ppc_in c1) (ppc_in_len c1)] else []))"

definition ppc_output_handler_done :: "PacketPassConnector \<Rightarrow> PacketPassConnector \<times> ppc_call list" where
  "ppc_output_handler_done c = (c\<lparr>ppc_in_len := - 1\<rparr>, [Ppc_Input_Done])"

definition PacketPassConnector_ConnectOutput :: "PacketPassConnector \<Rightarrow> PacketPassConnector \<times> ppc_call list" where
  "PacketPassConnector_ConnectOutput c =
     (c\<lparr>ppc_output := True\<rparr>,
      Ppc_Output_Init # (if ppc_in_len c \<ge> 0 then [Ppc_Output_Send (ppc_in c) (ppc_in_len c)] else []))"

definition PacketPassConnector_DisconnectOutput :: "PacketPassConnector \<Rightarrow> PacketPassConnector" where
  "PacketPassConnector_DisconnectOutput c = c\<lparr>ppc_output := False\<rparr>"

text \<open>The connector with an input that sends one packet at a time and an output that may be
  replaced by a fresh one at any time. \<^verbatim>\<open>cs_accepted\<close> logs the packets taken from the input,
  \<^verbatim>\<open>cs_finished\<close> those reported as done, \<^verbatim>\<open>cs_tries\<close> the sends on outputs.\<close>

record ppc_sys =
  cs_conn :: PacketPassConnector
  cs_packet :: "(int \<times> int) option"
  cs_out :: "(int \<times> int) option"
  cs_accepted :: "(int \<times> int) list"
  cs_finished :: "(int \<times> int) list"
  cs_tries :: "(int \<times> int) list"

fun ppc_perform :: "ppc_call list \<Rightarrow> ppc_sys \<Rightarrow> ppc_sys option" where
  "ppc_perform [] s = Some s"
| "ppc_perform (Ppc_Output_Init # cs) s = ppc_perform cs (s\<lparr>cs_out := None\<rparr>)"
| "ppc_perform (Ppc_Output_Send p n # cs) s =
     (if cs_out s = None \<and> 0 \<le> n
      then ppc_perform cs (s\<lparr>cs_out := Some (p, n), cs_tries := cs_tries s @ [(p, n)]\<rparr>) else None)"
| "ppc_perform (Ppc_Input_Done # cs) s =
     (case cs_packet s of None \<Rightarrow> None
      | Some x \<Rightarrow> ppc_perform cs (s\<lparr>cs_packet := None, cs_finished := cs_finished s @ [x]\<rparr>))"

datatype ppc_event = InputSends int int | OutputDone | Connect | Disconnect

fun ppc_event_step :: "ppc_event \<Rightarrow> ppc_sys \<Rightarrow> ppc_sys option" where
  "ppc_event_step (InputSends p n) s =
     (if cs_packet s = None \<and> 0 \<le> n then
        let (c, calls) = ppc_input_handler_send p n (cs_conn s)
        in ppc_perform calls (s\<lparr>cs_conn := c, cs_packet := Some (p, n), cs_accepted := cs_accepted s @ [(p, n)]\<rparr>)
      else Some s)"
| "ppc_event_step OutputDone s =
     (if cs_out s \<noteq> None then
        let (c, calls) = ppc_output_handler_done (cs_conn s)
        in ppc_perform calls (s\<lparr>cs_conn := c, cs_out := None\<rparr>)
      else Some s)"
| "ppc_event_step Connect s =
     (if \<not> ppc_output (cs_conn s) then
        let (c, calls) = PacketPassConnector_ConnectOutput (cs_conn s) in ppc_perform calls (s\<lparr>cs_conn := c\<rparr>)
      else Some s)"
| "ppc_event_step Disconnect s =
     (if ppc_output (cs_conn s) then
        Some (s\<lparr>cs_conn := PacketPassConnector_DisconnectOutput (cs_conn s), cs_out := None\<rparr>)
      else Some s)"

fun ppc_run :: "ppc_event list \<Rightarrow> ppc_sys \<Rightarrow> ppc_sys option" where
  "ppc_run [] s = Some s"
| "ppc_run (e # es) s = Option.bind (ppc_event_step e s) (ppc_run es)"

definition ppc_start :: ppc_sys where
  "ppc_start = \<lparr>cs_conn = PacketPassConnector_Init, cs_packet = None, cs_out = None,
                cs_accepted = [], cs_finished = [], cs_tries = []\<rparr>"

definition ppc_ok :: "ppc_sys \<Rightarrow> bool" where
  "ppc_ok s \<longleftrightarrow>
     (case cs_packet s of
        None \<Rightarrow> ppc_in_len (cs_conn s) = - 1 \<and> cs_out s = None \<and> cs_accepted s = cs_finished s
      | Some (p, n) \<Rightarrow> 0 \<le> n \<and> ppc_in_len (cs_conn s) = n \<and> ppc_in (cs_conn s) = p \<and>
          cs_out s = (if ppc_output (cs_conn s) then Some (p, n) else None) \<and>
          (ppc_output (cs_conn s) \<longrightarrow> (p, n) \<in> set (cs_tries s)) \<and>
          cs_accepted s = cs_finished s @ [(p, n)]) \<and>
     set (cs_finished s) \<subseteq> set (cs_tries s) \<and> set (cs_tries s) \<subseteq> set (cs_accepted s)"

lemma ppc_ok_event: "ppc_ok s \<Longrightarrow> \<exists>s'. ppc_event_step e s = Some s' \<and> ppc_ok s'"
  by (cases e; cases "cs_packet s"; cases "ppc_output (cs_conn s)")
     (auto simp: ppc_ok_def ppc_input_handler_send_def ppc_output_handler_done_def
       PacketPassConnector_ConnectOutput_def PacketPassConnector_DisconnectOutput_def Let_def)

lemma ppc_ok_run: "ppc_ok s \<Longrightarrow> \<exists>s'. ppc_run es s = Some s' \<and> ppc_ok s'"
proof (induction es arbitrary: s)
  case (Cons e es)
  then show ?case using ppc_ok_event [OF Cons.prems, of e] by fastforce
qed auto

text \<open>
  A packet passed to a connector survives reconnections. Whatever the order of sends,
  completions, disconnections and connections, no interface is called while busy, the
  packets reported to the input as done are exactly the accepted ones except the one still
  held, each was sent on some output, and a held packet is outstanding on the output
  whenever one is connected.
\<close>

theorem ppc_keeps_packet:
  "\<exists>s. ppc_run es ppc_start = Some s \<and>
     cs_accepted s = cs_finished s @ (case cs_packet s of None \<Rightarrow> [] | Some x \<Rightarrow> [x]) \<and>
     set (cs_finished s) \<subseteq> set (cs_tries s) \<and>
     (if ppc_output (cs_conn s) then cs_out s = cs_packet s else cs_out s = None)"
proof -
  have "ppc_ok ppc_start" by (simp add: ppc_ok_def ppc_start_def PacketPassConnector_Init_def)
  then obtain s where "ppc_run es ppc_start = Some s" "ppc_ok s" using ppc_ok_run by blast
  then show ?thesis by (auto simp: ppc_ok_def split: option.splits)
qed

section \<open>BufferWriter\<close>

record BufferWriter =
  bw_out_have :: bool
  bw_out :: int

definition BufferWriter_Init :: BufferWriter where
  "BufferWriter_Init = \<lparr>bw_out_have = False, bw_out = 0\<rparr>"

definition bw_output_handler_recv :: "int \<Rightarrow> BufferWriter \<Rightarrow> BufferWriter" where
  "bw_output_handler_recv data o' = o'\<lparr>bw_out_have := True, bw_out := data\<rparr>"

definition BufferWriter_StartPacket :: "BufferWriter \<Rightarrow> int option" where
  "BufferWriter_StartPacket o' = (if \<not> bw_out_have o' then None else Some (bw_out o'))"

text \<open>Returns the length reported by \<^verbatim>\<open>PacketRecvInterface_Done\<close>.\<close>

definition BufferWriter_EndPacket :: "int \<Rightarrow> BufferWriter \<Rightarrow> BufferWriter \<times> int" where
  "BufferWriter_EndPacket len o' = (o'\<lparr>bw_out_have := False\<rparr>, len)"

section \<open>PacketProtoFlow\<close>

text \<open>
  A buffer writer, an encoder and a packet buffer in series, with the jobs of the interfaces
  between them run to completion. A receive of the packet buffer travels through the
  encoder to the writer; a packet finished by the writer travels back.
\<close>

record PacketProtoFlow =
  ppf_ainput :: BufferWriter
  ppf_encoder :: PacketProtoEncoder
  ppf_buffer :: pb_sys

text \<open>The receive of the packet buffer reaches the encoder and then the writer.\<close>

definition ppf_recv :: "PacketProtoFlow \<Rightarrow> PacketProtoFlow" where
  "ppf_recv f =
     (case recv_at (ppf_buffer f) of
        None \<Rightarrow> f
      | Some off \<Rightarrow>
          (case enc_output_handler_recv off (ppf_encoder f) of
             (enc, [Enc_Receiver_Recv d]) \<Rightarrow>
               f\<lparr>ppf_encoder := enc, ppf_ainput := bw_output_handler_recv d (ppf_ainput f)\<rparr>
           | (enc, _) \<Rightarrow> f\<lparr>ppf_encoder := enc\<rparr>))"

definition PacketProtoFlow_Init :: "(int \<Rightarrow> bytes option) \<Rightarrow> int \<Rightarrow> int \<Rightarrow> PacketProtoFlow option" where
  "PacketProtoFlow_Init alloc input_mtu num_packets =
     (let enc = PacketProtoEncoder_Init input_mtu in
      case pb_start alloc (enc_output_mtu enc) num_packets of
        None \<Rightarrow> None
      | Some s \<Rightarrow> Some (ppf_recv \<lparr>ppf_ainput = BufferWriter_Init, ppf_encoder = enc, ppf_buffer = s\<rparr>))"

text \<open>A user of the flow writes one packet: it asks for a buffer, fills it and ends the packet.
  Without a buffer the packet is dropped.\<close>

definition ppf_write :: "bytes \<Rightarrow> PacketProtoFlow \<Rightarrow> PacketProtoFlow option" where
  "ppf_write data f =
     (case BufferWriter_StartPacket (ppf_ainput f) of
        None \<Rightarrow> Some f
      | Some out \<Rightarrow>
          let s = ppf_buffer f;
              b = pb_buf (sys_pb s);
              mem1 = put_at (nat out) data (cb_buffer b);
              (bw, len) = BufferWriter_EndPacket (int (length data)) (ppf_ainput f);
              ((enc, mem2), calls) = enc_input_handler_done len (ppf_encoder f, mem1)
          in (case calls of
                [Enc_Output_Done n] \<Rightarrow>
                  let pb = (sys_pb s)\<lparr>pb_buf := b\<lparr>cb_buffer := mem2\<rparr>\<rparr>;
                      (pb', pcalls) = pb_input_handler_done n pb
                  in map_option (\<lambda>s'. ppf_recv (f\<lparr>ppf_ainput := bw, ppf_encoder := enc, ppf_buffer := s'\<rparr>))
                       (pb_perform pcalls (s\<lparr>sys_pb := pb', recv_at := None,
                                             received := received s @ [pp_encode data]\<rparr>))
              | _ \<Rightarrow> None))"

text \<open>The output has taken a packet.\<close>

definition ppf_output_done :: "PacketProtoFlow \<Rightarrow> PacketProtoFlow option" where
  "ppf_output_done f =
     map_option (\<lambda>s'. if recv_at (ppf_buffer f) = None then ppf_recv (f\<lparr>ppf_buffer := s'\<rparr>) else f\<lparr>ppf_buffer := s'\<rparr>)
       (pb_event_step PacketOut (ppf_buffer f))"

definition ppf_ok :: "int \<Rightarrow> int \<Rightarrow> PacketProtoFlow \<Rightarrow> bytes list \<Rightarrow> bool" where
  "ppf_ok mtu num f ps \<longleftrightarrow>
     0 \<le> mtu \<and> mtu \<le> PACKETPROTO_MAXPAYLOAD \<and> pb_ok (PACKETPROTO_ENCLEN mtu) num (ppf_buffer f) ps \<and>
     enc_output_packet (ppf_encoder f) = recv_at (ppf_buffer f) \<and>
     BufferWriter_StartPacket (ppf_ainput f) = map_option (\<lambda>off. off + 2) (recv_at (ppf_buffer f))"

lemma ppf_recv_ok:
  assumes "pb_ok (PACKETPROTO_ENCLEN mtu) num (ppf_buffer f) ps" "0 \<le> mtu" "mtu \<le> PACKETPROTO_MAXPAYLOAD"
    and "enc_output_packet (ppf_encoder f) = None" "\<not> bw_out_have (ppf_ainput f)"
  shows "ppf_ok mtu num (ppf_recv f) ps" "ppf_buffer (ppf_recv f) = ppf_buffer f"
  using assms
  by (auto simp: ppf_ok_def ppf_recv_def enc_output_handler_recv_def bw_output_handler_recv_def
      BufferWriter_StartPacket_def split: option.split)

lemma enc_done_mem:
  assumes "enc_output_packet enc = Some off" "0 \<le> off" "off + 2 + int (length data) \<le> int (length mem)"
  shows "enc_input_handler_done (int (length data)) (enc, put_at (nat (off + 2)) data mem) =
     ((enc\<lparr>enc_output_packet := None\<rparr>, put_at (nat off) (pp_encode data) mem),
      [Enc_Output_Done (int (length (pp_encode data)))])"
proof -
  have off: "nat (off + 2) = nat off + 2" using assms(2) by (simp add: nat_add_distrib)
  have "nat off + 2 + length data \<le> length mem" using assms(2,3) by linarith
  then have "put_at (nat off) (badvpn_write_le16 (of_nat (length data))) (put_at (nat off + 2) data mem) =
      put_at (nat off) (pp_encode data) mem"
    using put_at_append [of "nat off" "badvpn_write_le16 (of_nat (length data))" data mem]
    by (simp add: pp_encode_def)
  then show ?thesis
    using assms(1) by (simp add: enc_input_handler_done_def off packetproto_header_def byteorder_defs
        mem16_def write_defs PACKETPROTO_ENCLEN_def pp_encode_def)
qed

lemma ppf_write_event:
  assumes ok: "ppf_ok mtu num f ps" and off: "recv_at (ppf_buffer f) = Some off"
    and len: "int (length data) \<le> mtu"
  shows "ppf_write data f =
     map_option (\<lambda>s'. ppf_recv (f\<lparr>ppf_ainput := (ppf_ainput f)\<lparr>bw_out_have := False\<rparr>,
         ppf_encoder := (ppf_encoder f)\<lparr>enc_output_packet := None\<rparr>, ppf_buffer := s'\<rparr>))
       (pb_event_step (PacketIn (pp_encode data)) (ppf_buffer f))"
proof -
  let ?s = "ppf_buffer f" let ?b = "pb_buf (sys_pb ?s)"
  have pb: "pb_input_mtu (sys_pb ?s) = PACKETPROTO_ENCLEN mtu" "cb_rep ?b ps"
    "cb_input_avail ?b \<ge> PACKETPROTO_ENCLEN mtu" "cb_input_dest ?b = Some off"
    using ok off by (auto simp: ppf_ok_def pb_ok_def Let_def split: if_splits)
  have n: "int (length (pp_encode data)) \<le> cb_input_avail ?b" "int (length (pp_encode data)) \<le> PACKETPROTO_ENCLEN mtu"
    "length (pp_encode data) = 2 + length data"
    using pb(3) len by (simp_all add: pp_encode_def PACKETPROTO_ENCLEN_def)
  note bnd = cb_input_in_bounds [OF pb(2) n(1) pb(4)]
  have enc: "enc_input_handler_done (int (length data)) (ppf_encoder f, put_at (nat (off + 2)) data (cb_buffer ?b)) =
     (((ppf_encoder f)\<lparr>enc_output_packet := None\<rparr>, put_at (nat off) (pp_encode data) (cb_buffer ?b)),
      [Enc_Output_Done (int (length (pp_encode data)))])"
    using ok off bnd n(3) by (intro enc_done_mem) (simp_all add: ppf_ok_def)
  have st: "BufferWriter_StartPacket (ppf_ainput f) = Some (off + 2)" using ok off by (simp add: ppf_ok_def)
  show ?thesis
    using off n(2) pb(1)
    by (simp add: ppf_write_def st BufferWriter_EndPacket_def enc Let_def split: prod.split)
qed

lemma ppf_write_ok:
  assumes ok: "ppf_ok mtu num f ps" and len: "int (length data) \<le> mtu"
  shows "\<exists>f' ps'. ppf_write data f = Some f' \<and> ppf_ok mtu num f' ps' \<and>
     received (ppf_buffer f') = received (ppf_buffer f) @
       (if recv_at (ppf_buffer f) = None then [] else [pp_encode data])"
proof (cases "recv_at (ppf_buffer f)")
  case None
  then show ?thesis using ok by (auto simp: ppf_ok_def ppf_write_def)
next
  case (Some off)
  have pb: "pb_ok (PACKETPROTO_ENCLEN mtu) num (ppf_buffer f) ps" "0 \<le> mtu" "mtu \<le> PACKETPROTO_MAXPAYLOAD"
    using ok by (simp_all add: ppf_ok_def)
  have len': "int (length (pp_encode data)) \<le> PACKETPROTO_ENCLEN mtu"
    using len by (simp add: pp_encode_def PACKETPROTO_ENCLEN_def)
  obtain s' ps' where s': "pb_event_step (PacketIn (pp_encode data)) (ppf_buffer f) = Some s'"
    "pb_ok (PACKETPROTO_ENCLEN mtu) num s' ps'" "received s' = received (ppf_buffer f) @ [pp_encode data]"
    using pb_ok_event [OF pb(1)] pb_event_received [OF pb(1) Some len'] by metis
  let ?f = "f\<lparr>ppf_ainput := (ppf_ainput f)\<lparr>bw_out_have := False\<rparr>,
         ppf_encoder := (ppf_encoder f)\<lparr>enc_output_packet := None\<rparr>, ppf_buffer := s'\<rparr>"
  have "ppf_write data f = Some (ppf_recv ?f)" using ppf_write_event [OF ok Some len] s'(1) by simp
  moreover have "ppf_ok mtu num (ppf_recv ?f) ps'" "ppf_buffer (ppf_recv ?f) = s'"
    using s'(2) pb(2,3) by (auto intro!: ppf_recv_ok(1) simp: ppf_recv_ok(2))
  ultimately show ?thesis using s'(3) Some by auto
qed

lemma ppf_output_ok:
  assumes ok: "ppf_ok mtu num f ps"
  shows "\<exists>f' ps'. ppf_output_done f = Some f' \<and> ppf_ok mtu num f' ps' \<and>
     received (ppf_buffer f') = received (ppf_buffer f)"
proof -
  have pb: "pb_ok (PACKETPROTO_ENCLEN mtu) num (ppf_buffer f) ps" "0 \<le> mtu" "mtu \<le> PACKETPROTO_MAXPAYLOAD"
    using ok by (simp_all add: ppf_ok_def)
  obtain s' ps' where s': "pb_event_step PacketOut (ppf_buffer f) = Some s'"
    "pb_ok (PACKETPROTO_ENCLEN mtu) num s' ps'" "received s' = received (ppf_buffer f)"
    "recv_at (ppf_buffer f) \<noteq> None \<Longrightarrow> recv_at s' = recv_at (ppf_buffer f)"
    using pb_ok_event [OF pb(1)] pb_event_out [OF pb(1)] by metis
  show ?thesis
  proof (cases "recv_at (ppf_buffer f)")
    case None
    then have "\<not> bw_out_have (ppf_ainput f)" "enc_output_packet (ppf_encoder f) = None"
      using ok by (auto simp: ppf_ok_def BufferWriter_StartPacket_def split: if_splits)
    then show ?thesis
      using None s' pb ppf_recv_ok [of mtu num "f\<lparr>ppf_buffer := s'\<rparr>" ps'] by (auto simp: ppf_output_done_def)
  next
    case (Some off)
    then show ?thesis using ok s' by (auto simp: ppf_output_done_def ppf_ok_def)
  qed
qed

datatype ppf_event = WritePacket bytes | OutputTook

fun ppf_event_step :: "ppf_event \<Rightarrow> PacketProtoFlow \<Rightarrow> PacketProtoFlow option" where
  "ppf_event_step (WritePacket data) f = ppf_write data f"
| "ppf_event_step OutputTook f = ppf_output_done f"

fun ppf_run :: "ppf_event list \<Rightarrow> PacketProtoFlow \<Rightarrow> PacketProtoFlow option" where
  "ppf_run [] f = Some f"
| "ppf_run (e # es) f = Option.bind (ppf_event_step e f) (ppf_run es)"

fun packets_written :: "ppf_event list \<Rightarrow> bytes list" where
  "packets_written [] = []"
| "packets_written (WritePacket d # es) = d # packets_written es"
| "packets_written (OutputTook # es) = packets_written es"

lemma ppf_run_ok:
  "ppf_ok mtu num f ps \<Longrightarrow> (\<And>d. d \<in> set (packets_written es) \<Longrightarrow> int (length d) \<le> mtu) \<Longrightarrow>
     \<exists>f' ps' ws. ppf_run es f = Some f' \<and> ppf_ok mtu num f' ps' \<and> subseq ws (packets_written es) \<and>
       received (ppf_buffer f') = received (ppf_buffer f) @ map pp_encode ws"
proof (induction es arbitrary: f ps)
  case Nil
  then show ?case by (intro exI [of _ f] exI [of _ ps] exI [of _ "[]"]) simp
next
  case (Cons e es)
  obtain f1 ps1 ws1 where 1: "ppf_event_step e f = Some f1" "ppf_ok mtu num f1 ps1"
    "received (ppf_buffer f1) = received (ppf_buffer f) @ map pp_encode ws1"
    "subseq ws1 (packets_written [e])"
  proof (cases e)
    case (WritePacket d)
    let ?ws = "if recv_at (ppf_buffer f) = None then [] else [d]"
    have len: "int (length d) \<le> mtu" using Cons.prems(2) WritePacket by simp
    from ppf_write_ok [OF Cons.prems(1) len] obtain f1 ps1 where
      "ppf_write d f = Some f1" "ppf_ok mtu num f1 ps1"
      "received (ppf_buffer f1) = received (ppf_buffer f) @ map pp_encode ?ws"
      by (auto split: if_splits)
    then show thesis by (intro that [of f1 ps1 ?ws]) (simp_all add: WritePacket)
  next
    case OutputTook
    with ppf_output_ok [OF Cons.prems(1)] show thesis by (fastforce intro: that [where ?ws1.0 = "[]"])
  qed
  moreover have "\<And>d. d \<in> set (packets_written es) \<Longrightarrow> int (length d) \<le> mtu"
    using Cons.prems(2) by (cases e) auto
  ultimately obtain f' ps' ws where 2: "ppf_run es f1 = Some f'" "ppf_ok mtu num f' ps'"
    "subseq ws (packets_written es)" "received (ppf_buffer f') = received (ppf_buffer f1) @ map pp_encode ws"
    using Cons.IH by blast
  have "packets_written (e # es) = packets_written [e] @ packets_written es" by (cases e) auto
  then have "subseq (ws1 @ ws) (packets_written (e # es))" using 1(4) 2(3) by (simp add: list_emb_append_mono)
  then show ?case using 1 2 by (intro exI [of _ f'] exI [of _ ps'] exI [of _ "ws1 @ ws"]) simp
qed



end
