(* ===== verification/Fair_Queue.thy ===== *)
theory Fair_Queue
  imports Bsize
begin

text \<open>
  The fair queue \<^verbatim>\<open>flow/PacketPassFairQueue.c\<close>: many input flows share one output; the flow
  with the smallest virtual time sends next, and its time grows by the weight of a packet
  plus its length. Times are 64-bit counters; when one would overflow, the smallest time
  in the queue is subtracted from all of them. A flow is named by its address; the search
  tree of queued flows is its sequence of entries in the order of \<^verbatim>\<open>compare_flows\<close>.
\<close>

section \<open>State\<close>

record fq_flow =
  fl_time :: u64
  fl_is_queued :: bool
  fl_data :: int
  fl_len :: int
  fl_handler_busy :: bool

record PacketPassFairQueue =
  fq_mtu :: int
  fq_use_cancel :: bool
  fq_packet_weight :: int
  fq_sending_flow :: "nat option"
  fq_sending_len :: int
  fq_previous_flow :: "nat option"
  fq_queued_tree :: "nat list"
  fq_flows_list :: "nat list"
  fq_flow_at :: "nat \<Rightarrow> fq_flow"
  fq_freeing :: bool
  fq_schedule_job :: bool

datatype fq_call =
    Fq_Output_Send int int
  | Fq_Input_Done nat
  | Fq_handler_busy nat
  | Fq_Output_RequestCancel

definition FAIRQUEUE_MAX_TIME :: u64 where
  "FAIRQUEUE_MAX_TIME = - 1"

definition fq_time :: "PacketPassFairQueue \<Rightarrow> nat \<Rightarrow> u64" where
  "fq_time m f = fl_time (fq_flow_at m f)"

definition set_flow :: "nat \<Rightarrow> fq_flow \<Rightarrow> PacketPassFairQueue \<Rightarrow> PacketPassFairQueue" where
  "set_flow f v m = m\<lparr>fq_flow_at := (fq_flow_at m)(f := v)\<rparr>"

section \<open>The queue of flows\<close>

definition compare_flows :: "PacketPassFairQueue \<Rightarrow> nat \<Rightarrow> nat \<Rightarrow> int" where
  "compare_flows m f1 f2 =
     (let cmp = B_COMPARE (fq_time m f1) (fq_time m f2) in if cmp \<noteq> 0 then cmp else B_COMPARE f1 f2)"

fun tree_insert :: "PacketPassFairQueue \<Rightarrow> nat \<Rightarrow> nat list \<Rightarrow> nat list" where
  "tree_insert m f [] = [f]"
| "tree_insert m f (g # gs) = (if compare_flows m f g < 0 then f # g # gs else g # tree_insert m f gs)"

definition tree_first :: "nat list \<Rightarrow> nat option" where
  "tree_first t = (case t of [] \<Rightarrow> None | f # _ \<Rightarrow> Some f)"

definition get_current_time :: "PacketPassFairQueue \<Rightarrow> u64" where
  "get_current_time m =
     (case fq_sending_flow m of
        Some f \<Rightarrow> fq_time m f
      | None \<Rightarrow>
          let (time, have') = (case tree_first (fq_queued_tree m) of
                 Some f \<Rightarrow> (fq_time m f, True) | None \<Rightarrow> (0, False));
              (time, have') = (case fq_previous_flow m of
                 Some f \<Rightarrow> if \<not> have' \<or> fq_time m f < time then (fq_time m f, True) else (time, have')
               | None \<Rightarrow> (time, have'))
          in if have' then time else 0)"

text \<open>The loop over the list of flows.\<close>

fun subtract_all :: "u64 \<Rightarrow> nat \<Rightarrow> nat list \<Rightarrow> PacketPassFairQueue \<Rightarrow> PacketPassFairQueue" where
  "subtract_all subtract flow [] m = m"
| "subtract_all subtract flow (g # gs) m =
     (let x = fq_flow_at m g;
          x' = (if subtract > fl_time x \<and> g \<noteq> flow then x\<lparr>fl_time := 0\<rparr>
                else x\<lparr>fl_time := fl_time x - subtract\<rparr>)
      in subtract_all subtract flow gs (set_flow g x' m))"

definition increment_sent_flow :: "nat \<Rightarrow> u64 \<Rightarrow> PacketPassFairQueue \<Rightarrow> PacketPassFairQueue" where
  "increment_sent_flow flow amount m =
     (let m1 = (if amount > FAIRQUEUE_MAX_TIME - fq_time m flow
                then let subtract = (case tree_first (fq_queued_tree m) of
                        None \<Rightarrow> fq_time m flow | Some f \<Rightarrow> fq_time m f)
                     in subtract_all subtract flow (fq_flows_list m) m
                else m);
          x = fq_flow_at m1 flow
      in set_flow flow (x\<lparr>fl_time := fl_time x + amount\<rparr>) m1)"

definition fq_schedule :: "PacketPassFairQueue \<Rightarrow> PacketPassFairQueue \<times> fq_call list" where
  "fq_schedule m =
     (case tree_first (fq_queued_tree m) of
        None \<Rightarrow> (m, [])
      | Some q \<Rightarrow>
          let x = fq_flow_at m q;
              m1 = set_flow q (x\<lparr>fl_is_queued := False\<rparr>) (m\<lparr>fq_queued_tree := remove1 q (fq_queued_tree m)\<rparr>)
          in (m1\<lparr>fq_sending_flow := Some q, fq_sending_len := fl_len x\<rparr>, [Fq_Output_Send (fl_data x) (fl_len x)]))"

definition schedule_job_handler :: "PacketPassFairQueue \<Rightarrow> PacketPassFairQueue \<times> fq_call list" where
  "schedule_job_handler m =
     (let m1 = m\<lparr>fq_previous_flow := None\<rparr>
      in if fq_queued_tree m1 \<noteq> [] then fq_schedule m1 else (m1, []))"

definition fq_input_handler_send ::
    "nat \<Rightarrow> int \<Rightarrow> int \<Rightarrow> PacketPassFairQueue \<Rightarrow> PacketPassFairQueue \<times> fq_call list" where
  "fq_input_handler_send flow data data_len m =
     (let m1 = (if Some flow = fq_previous_flow m then m\<lparr>fq_previous_flow := None\<rparr>
                else let x = fq_flow_at m flow
                     in set_flow flow (x\<lparr>fl_time := bmax (fl_time x) (get_current_time m)\<rparr>) m);
          x = fq_flow_at m1 flow;
          m2 = set_flow flow (x\<lparr>fl_data := data, fl_len := data_len\<rparr>) m1;
          m3 = m2\<lparr>fq_queued_tree := tree_insert m2 flow (fq_queued_tree m2)\<rparr>;
          m4 = set_flow flow ((fq_flow_at m3 flow)\<lparr>fl_is_queued := True\<rparr>) m3
      in if fq_sending_flow m4 = None \<and> \<not> fq_schedule_job m4 then fq_schedule m4 else (m4, []))"

definition fq_output_handler_done :: "PacketPassFairQueue \<Rightarrow> PacketPassFairQueue \<times> fq_call list" where
  "fq_output_handler_done m =
     (case fq_sending_flow m of
        None \<Rightarrow> (m, [])
      | Some flow \<Rightarrow>
          let m1 = m\<lparr>fq_sending_flow := None, fq_previous_flow := Some flow\<rparr>;
              m2 = increment_sent_flow flow (word_of_int (fq_packet_weight m1) + word_of_int (fq_sending_len m1)) m1;
              m3 = m2\<lparr>fq_schedule_job := True\<rparr>;
              x = fq_flow_at m3 flow
          in if fl_handler_busy x
             then (set_flow flow (x\<lparr>fl_handler_busy := False\<rparr>) m3, [Fq_Input_Done flow, Fq_handler_busy flow])
             else (m3, [Fq_Input_Done flow]))"

definition PacketPassFairQueue_Init :: "int \<Rightarrow> bool \<Rightarrow> int \<Rightarrow> (nat \<Rightarrow> fq_flow) \<Rightarrow> PacketPassFairQueue option" where
  "PacketPassFairQueue_Init output_mtu use_cancel packet_weight flows =
     (if (word_of_int output_mtu :: u64) \<le> FAIRQUEUE_MAX_TIME \<and>
         (word_of_int packet_weight :: u64) \<le> FAIRQUEUE_MAX_TIME - word_of_int output_mtu
      then Some \<lparr>fq_mtu = output_mtu, fq_use_cancel = use_cancel, fq_packet_weight = packet_weight,
                 fq_sending_flow = None, fq_sending_len = 0, fq_previous_flow = None, fq_queued_tree = [],
                 fq_flows_list = [], fq_flow_at = flows, fq_freeing = False, fq_schedule_job = False\<rparr>
      else None)"

definition PacketPassFairQueue_PrepareFree :: "PacketPassFairQueue \<Rightarrow> PacketPassFairQueue" where
  "PacketPassFairQueue_PrepareFree m = m\<lparr>fq_freeing := True\<rparr>"

definition PacketPassFairQueueFlow_Init :: "nat \<Rightarrow> PacketPassFairQueue \<Rightarrow> PacketPassFairQueue" where
  "PacketPassFairQueueFlow_Init flow m =
     (let x = fq_flow_at m flow
      in set_flow flow (x\<lparr>fl_handler_busy := False, fl_time := 0, fl_is_queued := False\<rparr>)
           (m\<lparr>fq_flows_list := fq_flows_list m @ [flow]\<rparr>))"

definition PacketPassFairQueueFlow_Free :: "nat \<Rightarrow> PacketPassFairQueue \<Rightarrow> PacketPassFairQueue" where
  "PacketPassFairQueueFlow_Free flow m =
     (let m1 = (if Some flow = fq_sending_flow m then m\<lparr>fq_sending_flow := None\<rparr> else m);
          m2 = (if Some flow = fq_previous_flow m1 then m1\<lparr>fq_previous_flow := None\<rparr> else m1);
          m3 = (if fl_is_queued (fq_flow_at m2 flow)
                then m2\<lparr>fq_queued_tree := remove1 flow (fq_queued_tree m2)\<rparr> else m2)
      in m3\<lparr>fq_flows_list := remove1 flow (fq_flows_list m3)\<rparr>)"

definition PacketPassFairQueueFlow_IsBusy :: "nat \<Rightarrow> PacketPassFairQueue \<Rightarrow> bool" where
  "PacketPassFairQueueFlow_IsBusy flow m = (Some flow = fq_sending_flow m)"

definition PacketPassFairQueueFlow_RequestCancel :: "nat \<Rightarrow> PacketPassFairQueue \<Rightarrow> fq_call list option" where
  "PacketPassFairQueueFlow_RequestCancel flow m =
     (if Some flow = fq_sending_flow m \<and> fq_use_cancel m \<and> \<not> fq_freeing m \<and> \<not> fq_schedule_job m
      then Some [Fq_Output_RequestCancel] else None)"

definition PacketPassFairQueueFlow_SetBusyHandler :: "nat \<Rightarrow> bool \<Rightarrow> PacketPassFairQueue \<Rightarrow> PacketPassFairQueue" where
  "PacketPassFairQueueFlow_SetBusyHandler flow handler m =
     set_flow flow ((fq_flow_at m flow)\<lparr>fl_handler_busy := handler\<rparr>) m"

section \<open>The order of the queue\<close>

definition flow_less :: "PacketPassFairQueue \<Rightarrow> nat \<Rightarrow> nat \<Rightarrow> bool" where
  "flow_less m f g \<longleftrightarrow> fq_time m f < fq_time m g \<or> fq_time m f = fq_time m g \<and> f < g"

lemma compare_flows_less: "compare_flows m f g < 0 \<longleftrightarrow> flow_less m f g"
  by (auto simp: compare_flows_def B_COMPARE_def flow_less_def Let_def)

lemma flow_less_total: "f \<noteq> g \<Longrightarrow> \<not> flow_less m f g \<Longrightarrow> flow_less m g f"
  by (auto simp: flow_less_def)

lemma flow_less_trans: "flow_less m f g \<Longrightarrow> flow_less m g h \<Longrightarrow> flow_less m f h"
  by (auto simp: flow_less_def)

lemma flow_less_time: "flow_less m f g \<Longrightarrow> fq_time m f \<le> fq_time m g"
  by (auto simp: flow_less_def)

lemma set_tree_insert [simp]: "set (tree_insert m f t) = insert f (set t)"
  by (induction t) auto

lemma sorted_tree_insert:
  "sorted_wrt (flow_less m) t \<Longrightarrow> f \<notin> set t \<Longrightarrow> sorted_wrt (flow_less m) (tree_insert m f t)"
  by (induction t) (auto simp: compare_flows_less intro: flow_less_total flow_less_trans)

lemma distinct_tree_insert: "distinct t \<Longrightarrow> f \<notin> set t \<Longrightarrow> distinct (tree_insert m f t)"
  by (induction t) auto

lemma sorted_tree_cong:
  "sorted_wrt (flow_less m) t \<Longrightarrow> (\<And>f g. f \<in> set t \<Longrightarrow> g \<in> set t \<Longrightarrow> flow_less m f g \<Longrightarrow> flow_less m' f g) \<Longrightarrow>
     sorted_wrt (flow_less m') t"
  by (rule sorted_wrt_mono_rel)

lemma sorted_first: "sorted_wrt (flow_less m) (q # t) \<Longrightarrow> f \<in> set (q # t) \<Longrightarrow> fq_time m q \<le> fq_time m f"
  by (auto dest: flow_less_time)

section \<open>Rebasing\<close>

lemma set_flow_sel [simp]:
  "fq_flow_at (set_flow f v m) g = (if g = f then v else fq_flow_at m g)"
  "fq_mtu (set_flow f v m) = fq_mtu m" "fq_use_cancel (set_flow f v m) = fq_use_cancel m"
  "fq_packet_weight (set_flow f v m) = fq_packet_weight m"
  "fq_sending_flow (set_flow f v m) = fq_sending_flow m" "fq_sending_len (set_flow f v m) = fq_sending_len m"
  "fq_previous_flow (set_flow f v m) = fq_previous_flow m" "fq_queued_tree (set_flow f v m) = fq_queued_tree m"
  "fq_flows_list (set_flow f v m) = fq_flows_list m" "fq_freeing (set_flow f v m) = fq_freeing m"
  "fq_schedule_job (set_flow f v m) = fq_schedule_job m"
  by (simp_all add: set_flow_def)

definition rebased :: "u64 \<Rightarrow> bool \<Rightarrow> fq_flow \<Rightarrow> fq_flow" where
  "rebased s own x = x\<lparr>fl_time := if s > fl_time x \<and> \<not> own then 0 else fl_time x - s\<rparr>"

lemma subtract_all_eq:
  "distinct gs \<Longrightarrow> subtract_all s flow gs m =
     m\<lparr>fq_flow_at := \<lambda>g. if g \<in> set gs then rebased s (g = flow) (fq_flow_at m g) else fq_flow_at m g\<rparr>"
proof (induction gs arbitrary: m)
  case (Cons a gs)
  have "(if s > fl_time x \<and> a \<noteq> flow then x\<lparr>fl_time := 0\<rparr> else x\<lparr>fl_time := fl_time x - s\<rparr>) =
      rebased s (a = flow) x" for x by (simp add: rebased_def)
  then show ?case using Cons by (auto simp: Let_def set_flow_def fun_eq_iff)
qed simp

text \<open>The amount subtracted by \<^verbatim>\<open>increment_sent_flow\<close>, zero when there is no overflow.\<close>

definition rebase_amount :: "nat \<Rightarrow> u64 \<Rightarrow> PacketPassFairQueue \<Rightarrow> u64" where
  "rebase_amount flow amount m =
     (if amount > FAIRQUEUE_MAX_TIME - fq_time m flow
      then (case tree_first (fq_queued_tree m) of None \<Rightarrow> fq_time m flow | Some f \<Rightarrow> fq_time m f) else 0)"

lemma increment_eq:
  assumes "distinct (fq_flows_list m)" "flow \<in> set (fq_flows_list m)"
  shows "increment_sent_flow flow amount m =
     m\<lparr>fq_flow_at := \<lambda>g. if g = flow then (fq_flow_at m g)\<lparr>fl_time := fl_time (fq_flow_at m g) - rebase_amount flow amount m + amount\<rparr>
        else if g \<in> set (fq_flows_list m) then rebased (rebase_amount flow amount m) False (fq_flow_at m g)
        else fq_flow_at m g\<rparr>"
  using assms
  by (auto simp: increment_sent_flow_def rebase_amount_def subtract_all_eq Let_def set_flow_def rebased_def fun_eq_iff)

lemma unat_rebase:
  fixes t s a :: u64
  assumes "t \<le> s" "2 ^ 64 \<le> unat t + unat a"
  shows "unat s + unat (t - s + a) = unat t + unat a"
proof -
  have st: "unat (s - t) = unat s - unat t" using assms(1) by (simp add: unat_sub)
  have "unat s < 2 ^ 64" using unat_lt [of s] by simp
  then have le: "s - t \<le> a" using assms(2) unfolding word_le_nat_alt st by linarith
  have "t - s + a = a - (s - t)" by simp
  then have "unat (t - s + a) = unat a - (unat s - unat t)" using le st by (metis unat_sub)
  moreover have "unat s - unat t \<le> unat a" "unat t \<le> unat s"
    using le assms(1) unfolding word_le_nat_alt st by simp_all
  ultimately show ?thesis by linarith
qed

text \<open>
  No wrap-around is visible: relative to a common base, the time of the flow that has just
  sent is its old time plus the amount, and the times of the queued flows are unchanged, all
  as natural numbers.
\<close>

lemma increment_exact:
  fixes amount :: u64 and flow :: nat and m :: PacketPassFairQueue
  assumes "distinct (fq_flows_list m)" "flow \<in> set (fq_flows_list m)" "flow \<notin> set (fq_queued_tree m)"
    and "set (fq_queued_tree m) \<subseteq> set (fq_flows_list m)"
    and sorted: "sorted_wrt (flow_less m) (fq_queued_tree m)"
    and min: "\<And>q. q \<in> set (fq_queued_tree m) \<Longrightarrow> fq_time m flow \<le> fq_time m q"
  defines "m' \<equiv> increment_sent_flow flow amount m" and "s \<equiv> unat (rebase_amount flow amount m)"
  shows "s + unat (fq_time m' flow) = unat (fq_time m flow) + unat amount"
    and "\<And>q. q \<in> set (fq_queued_tree m) \<Longrightarrow> s + unat (fq_time m' q) = unat (fq_time m q)"
proof -
  let ?s = "rebase_amount flow amount m"
  have first: "?s \<le> fq_time m q" if "q \<in> set (fq_queued_tree m)" for q
  proof (cases "fq_queued_tree m")
    case (Cons a t)
    then show ?thesis
      using that sorted sorted_first [of m a t q] by (simp add: rebase_amount_def tree_first_def)
  qed (use that in simp)
  have t: "fq_time m' flow = fq_time m flow - ?s + amount"
    unfolding m'_def increment_eq [OF assms(1,2)] by (simp add: fq_time_def)
  show "s + unat (fq_time m' q) = unat (fq_time m q)" if q: "q \<in> set (fq_queued_tree m)" for q
  proof -
    have "fq_time m' q = fq_time m q - ?s"
      using q first [OF q] assms(3,4) unfolding m'_def increment_eq [OF assms(1,2)]
      by (auto simp: fq_time_def rebased_def)
    then show ?thesis using first [OF q] by (simp add: s_def unat_sub word_le_nat_alt)
  qed
  show "s + unat (fq_time m' flow) = unat (fq_time m flow) + unat amount"
  proof (cases "amount > FAIRQUEUE_MAX_TIME - fq_time m flow")
    case True
    then have "fq_time m flow \<le> ?s"
      using min by (auto simp: rebase_amount_def tree_first_def split: list.splits)
    moreover have "2 ^ 64 \<le> unat (fq_time m flow) + unat amount"
      using True unat_lt [of "fq_time m flow"]
      by (simp add: FAIRQUEUE_MAX_TIME_def word_less_nat_alt unat_max_minus)
    ultimately show ?thesis unfolding t s_def by (intro unat_rebase)
  next
    case False
    then have "?s = 0" by (simp add: rebase_amount_def)
    moreover have "unat (fq_time m flow) + unat amount < 2 ^ 64"
      using False unat_lt [of "fq_time m flow"]
      unfolding FAIRQUEUE_MAX_TIME_def not_less word_le_nat_alt unat_max_minus by simp
    ultimately show ?thesis by (simp add: t s_def unat_word_ariths)
  qed
qed

section \<open>The queue between its interfaces\<close>

record fq_sys =
  fs_m :: PacketPassFairQueue
  fs_out :: "(int \<times> int) option"
  fs_busy :: "nat set"
  fs_log :: "(nat \<times> int \<times> int) list"
  fs_done :: "(nat \<times> int \<times> int) list"

fun fq_perform :: "fq_call list \<Rightarrow> fq_sys \<Rightarrow> fq_sys option" where
  "fq_perform [] s = Some s"
| "fq_perform (Fq_Output_Send d n # cs) s =
     (if fs_out s = None \<and> 0 \<le> n \<and> n \<le> fq_mtu (fs_m s)
      then fq_perform cs (s\<lparr>fs_out := Some (d, n)\<rparr>) else None)"
| "fq_perform (Fq_Input_Done f # cs) s =
     (if f \<in> fs_busy s then fq_perform cs (s\<lparr>fs_busy := fs_busy s - {f}\<rparr>) else None)"
| "fq_perform (Fq_handler_busy f # cs) s = fq_perform cs s"
| "fq_perform (Fq_Output_RequestCancel # cs) s = (if fs_out s \<noteq> None then fq_perform cs s else None)"

text \<open>
  What can happen: a flow is created or (unless it is being sent) deleted, an idle input
  passes a packet, the output completes the packet it was given, the schedule job runs.
  \<^verbatim>\<open>fs_log\<close> and \<^verbatim>\<open>fs_done\<close> record the packets passed in and the packets completed,
  by flow; deleting a flow forgets its entries.
\<close>

datatype fq_event = FlowNew nat | FlowDelete nat | InSend nat int int | OutDone | RunScheduleJob

fun fq_event_step :: "fq_event \<Rightarrow> fq_sys \<Rightarrow> fq_sys option" where
  "fq_event_step (FlowNew f) s =
     (if f \<in> set (fq_flows_list (fs_m s)) then Some s
      else Some (s\<lparr>fs_m := PacketPassFairQueueFlow_Init f (fs_m s), fs_busy := fs_busy s - {f}\<rparr>))"
| "fq_event_step (FlowDelete f) s =
     (if f \<in> set (fq_flows_list (fs_m s)) \<and> \<not> PacketPassFairQueueFlow_IsBusy f (fs_m s)
      then Some (s\<lparr>fs_m := PacketPassFairQueueFlow_Free f (fs_m s), fs_busy := fs_busy s - {f},
                   fs_log := filter (\<lambda>e. fst e \<noteq> f) (fs_log s), fs_done := filter (\<lambda>e. fst e \<noteq> f) (fs_done s)\<rparr>)
      else Some s)"
| "fq_event_step (InSend f d n) s =
     (if f \<in> set (fq_flows_list (fs_m s)) \<and> f \<notin> fs_busy s \<and> 0 \<le> n \<and> n \<le> fq_mtu (fs_m s) then
        let (m, calls) = fq_input_handler_send f d n (fs_m s)
        in fq_perform calls (s\<lparr>fs_busy := insert f (fs_busy s), fs_log := fs_log s @ [(f, d, n)], fs_m := m\<rparr>)
      else Some s)"
| "fq_event_step OutDone s =
     (case (fs_out s, fq_sending_flow (fs_m s)) of
        (Some (d, n), Some f) \<Rightarrow>
          let (m, calls) = fq_output_handler_done (fs_m s)
          in fq_perform calls (s\<lparr>fs_m := m, fs_out := None, fs_done := fs_done s @ [(f, d, n)]\<rparr>)
      | _ \<Rightarrow> Some s)"
| "fq_event_step RunScheduleJob s =
     (if fq_schedule_job (fs_m s) then
        let (m, calls) = schedule_job_handler ((fs_m s)\<lparr>fq_schedule_job := False\<rparr>)
        in fq_perform calls (s\<lparr>fs_m := m\<rparr>)
      else Some s)"

fun fq_run :: "fq_event list \<Rightarrow> fq_sys \<Rightarrow> fq_sys option" where
  "fq_run [] s = Some s"
| "fq_run (e # es) s = Option.bind (fq_event_step e s) (fq_run es)"

section \<open>Invariant\<close>

text \<open>The part of the invariant that holds in the middle of a handler too.\<close>

definition fq_base :: "PacketPassFairQueue \<Rightarrow> bool" where
  "fq_base m \<longleftrightarrow>
     distinct (fq_flows_list m) \<and> distinct (fq_queued_tree m) \<and>
     set (fq_queued_tree m) = {f \<in> set (fq_flows_list m). fl_is_queued (fq_flow_at m f)} \<and>
     sorted_wrt (flow_less m) (fq_queued_tree m) \<and>
     (\<forall>q \<in> set (fq_queued_tree m). 0 \<le> fl_len (fq_flow_at m q) \<and> fl_len (fq_flow_at m q) \<le> fq_mtu m)"

definition fq_inv :: "PacketPassFairQueue \<Rightarrow> bool" where
  "fq_inv m \<longleftrightarrow> fq_base m \<and>
     (\<forall>f. fq_sending_flow m = Some f \<longrightarrow>
        f \<in> set (fq_flows_list m) \<and> f \<notin> set (fq_queued_tree m) \<and> \<not> fq_schedule_job m \<and> fq_previous_flow m = None \<and>
        fq_sending_len m = fl_len (fq_flow_at m f) \<and>
        (\<forall>q \<in> set (fq_queued_tree m). fq_time m f \<le> fq_time m q)) \<and>
     (\<forall>f. fq_previous_flow m = Some f \<longrightarrow>
        f \<in> set (fq_flows_list m) \<and> f \<notin> set (fq_queued_tree m) \<and> fq_schedule_job m) \<and>
     (fq_sending_flow m = None \<and> \<not> fq_schedule_job m \<longrightarrow> fq_queued_tree m = [])"

lemma fq_schedule_eq:
  "fq_queued_tree m = q # t \<Longrightarrow> fq_schedule m =
     (m\<lparr>fq_queued_tree := t, fq_flow_at := (fq_flow_at m)(q := (fq_flow_at m q)\<lparr>fl_is_queued := False\<rparr>),
        fq_sending_flow := Some q, fq_sending_len := fl_len (fq_flow_at m q)\<rparr>,
      [Fq_Output_Send (fl_data (fq_flow_at m q)) (fl_len (fq_flow_at m q))])"
  by (simp add: fq_schedule_def tree_first_def set_flow_def Let_def)

lemma flow_less_cong: "(\<And>f. fq_time m' f = fq_time m f) \<Longrightarrow> flow_less m' = flow_less m"
  by (simp add: flow_less_def fun_eq_iff)

lemma fq_schedule_inv:
  assumes base: "fq_base m" and "fq_previous_flow m = None" "\<not> fq_schedule_job m" "fq_queued_tree m = q # t"
  shows "fq_inv (fst (fq_schedule m))"
proof -
  define m' where "m' = fst (fq_schedule m)"
  note m' = m'_def [unfolded fq_schedule_eq [OF assms(4)], simplified]
  have time: "fq_time m' f = fq_time m f" for f by (simp add: m' fq_time_def)
  have "\<forall>p \<in> set t. fq_time m q \<le> fq_time m p"
    using base assms(4) by (auto simp: fq_base_def intro: flow_less_time)
  then show ?thesis
    using assms unfolding m'_def [symmetric] fq_inv_def fq_base_def flow_less_cong [OF time] time
    by (auto simp: m')
qed

text \<open>Completion: the times move, the order of the queue does not.\<close>

lemma fq_output_done_inv:
  assumes inv: "fq_inv m" and f: "fq_sending_flow m = Some f"
  shows "fq_inv (fst (fq_output_handler_done m))"
proof -
  define a :: u64 where "a = word_of_int (fq_packet_weight m) + word_of_int (fq_sending_len m)"
  define m1 where "m1 = m\<lparr>fq_sending_flow := None, fq_previous_flow := Some f\<rparr>"
  define m' where "m' = fst (fq_output_handler_done m)"
  have sel: "fq_flows_list m1 = fq_flows_list m" "fq_queued_tree m1 = fq_queued_tree m" "fq_time m1 = fq_time m"
    "flow_less m1 = flow_less m"
    by (simp_all add: m1_def fq_time_def [abs_def] flow_less_def [abs_def])
  have f': "f \<in> set (fq_flows_list m)" "f \<notin> set (fq_queued_tree m)" and d: "distinct (fq_flows_list m)"
    and sub: "set (fq_queued_tree m) \<subseteq> set (fq_flows_list m)" and sorted: "sorted_wrt (flow_less m) (fq_queued_tree m)"
    and min: "\<And>q. q \<in> set (fq_queued_tree m) \<Longrightarrow> fq_time m f \<le> fq_time m q"
    using inv f by (auto simp: fq_inv_def fq_base_def)
  let ?i = "increment_sent_flow f a m1"
  have i: "fq_flows_list ?i = fq_flows_list m" "fq_queued_tree ?i = fq_queued_tree m" "fq_mtu ?i = fq_mtu m"
    "fq_sending_flow ?i = None" "fq_previous_flow ?i = Some f"
    "fl_is_queued (fq_flow_at ?i g) = fl_is_queued (fq_flow_at m g)" "fl_len (fq_flow_at ?i g) = fl_len (fq_flow_at m g)" for g
    using d f' by (auto simp: increment_eq sel) (auto simp: m1_def rebased_def)
  have m': "fq_flows_list m' = fq_flows_list m" "fq_queued_tree m' = fq_queued_tree m" "fq_mtu m' = fq_mtu m"
    "fq_sending_flow m' = None" "fq_previous_flow m' = Some f" "fq_schedule_job m'"
    "fl_is_queued (fq_flow_at m' g) = fl_is_queued (fq_flow_at m g)" "fl_len (fq_flow_at m' g) = fl_len (fq_flow_at m g)"
    and time: "fq_time m' g = fq_time ?i g" for g
    using f i by (auto simp: m'_def fq_output_handler_done_def Let_def m1_def [symmetric] a_def [symmetric] fq_time_def)
      (auto simp: m1_def a_def)
  have less: "flow_less m' x y" if "x \<in> set (fq_queued_tree m)" "y \<in> set (fq_queued_tree m)" "flow_less m x y" for x y
    using increment_exact(2) [of m1 f x a] increment_exact(2) [of m1 f y a] that d f' sub sorted min
    by (auto simp: sel time flow_less_def word_less_nat_alt word_unat_eq_iff)
  have "sorted_wrt (flow_less m') (fq_queued_tree m)"
    using sorted less by (rule sorted_tree_cong)
  then show ?thesis
    using inv f' unfolding m'_def [symmetric] fq_inv_def fq_base_def by (simp add: m')
qed

text \<open>The state in which \<^verbatim>\<open>input_handler_send\<close> has queued its flow and not yet scheduled.\<close>

definition fq_enqueued :: "nat \<Rightarrow> int \<Rightarrow> int \<Rightarrow> PacketPassFairQueue \<Rightarrow> PacketPassFairQueue" where
  "fq_enqueued f d n m =
     (let t = (if Some f = fq_previous_flow m then fq_time m f else bmax (fq_time m f) (get_current_time m));
          x = (fq_flow_at m f)\<lparr>fl_time := t, fl_data := d, fl_len := n\<rparr>;
          m2 = m\<lparr>fq_previous_flow := (if Some f = fq_previous_flow m then None else fq_previous_flow m),
                fq_flow_at := (fq_flow_at m)(f := x)\<rparr>
      in m2\<lparr>fq_queued_tree := tree_insert m2 f (fq_queued_tree m2),
            fq_flow_at := (fq_flow_at m)(f := x\<lparr>fl_is_queued := True\<rparr>)\<rparr>)"

lemma fq_input_send_eq:
  "fq_input_handler_send f d n m =
     (if fq_sending_flow m = None \<and> \<not> fq_schedule_job m then fq_schedule (fq_enqueued f d n m)
      else (fq_enqueued f d n m, []))"
  by (auto simp: fq_input_handler_send_def fq_enqueued_def Let_def set_flow_def fq_time_def)

lemma fq_enqueued_sel [simp]:
  "fq_flows_list (fq_enqueued f d n m) = fq_flows_list m" "fq_mtu (fq_enqueued f d n m) = fq_mtu m"
  "fq_sending_flow (fq_enqueued f d n m) = fq_sending_flow m" "fq_schedule_job (fq_enqueued f d n m) = fq_schedule_job m"
  "fq_sending_len (fq_enqueued f d n m) = fq_sending_len m"
  "fq_previous_flow (fq_enqueued f d n m) = (if Some f = fq_previous_flow m then None else fq_previous_flow m)"
  "fl_is_queued (fq_flow_at (fq_enqueued f d n m) g) = (g = f \<or> fl_is_queued (fq_flow_at m g))"
  "fl_len (fq_flow_at (fq_enqueued f d n m) g) = (if g = f then n else fl_len (fq_flow_at m g))"
  "fl_data (fq_flow_at (fq_enqueued f d n m) g) = (if g = f then d else fl_data (fq_flow_at m g))"
  "set (fq_queued_tree (fq_enqueued f d n m)) = insert f (set (fq_queued_tree m))"
  by (simp_all add: fq_enqueued_def Let_def)

lemma fq_enqueued_time:
  "fq_time (fq_enqueued f d n m) g =
     (if g = f then if Some f = fq_previous_flow m then fq_time m f else bmax (fq_time m f) (get_current_time m)
      else fq_time m g)"
  by (simp add: fq_enqueued_def Let_def fq_time_def)

lemma tree_insert_cong:
  "(\<And>g. fq_time m' g = fq_time m g) \<Longrightarrow> tree_insert m' f t = tree_insert m f t"
  by (induction t) (simp_all add: compare_flows_def)

lemma fq_enqueued_base:
  assumes base: "fq_base m" and f: "f \<in> set (fq_flows_list m)" "f \<notin> set (fq_queued_tree m)" "0 \<le> n" "n \<le> fq_mtu m"
  shows "fq_base (fq_enqueued f d n m)"
proof -
  let ?e = "fq_enqueued f d n m"
  have tree: "fq_queued_tree ?e = tree_insert ?e f (fq_queued_tree m)"
    unfolding fq_enqueued_def Let_def by simp (intro conjI impI tree_insert_cong; simp add: fq_time_def)
  note b = base [unfolded fq_base_def]
  have less: "flow_less ?e x y" if "x \<in> set (fq_queued_tree m)" "y \<in> set (fq_queued_tree m)" "flow_less m x y" for x y
  proof -
    have "x \<noteq> f" "y \<noteq> f" using that f(2) by blast+
    then show ?thesis using that(3) by (simp add: flow_less_def fq_enqueued_time)
  qed
  have "sorted_wrt (flow_less ?e) (fq_queued_tree m)"
    by (rule sorted_tree_cong [of m]) (use b less in blast)+
  then have "sorted_wrt (flow_less ?e) (fq_queued_tree ?e)" "distinct (fq_queued_tree ?e)"
    using b f(2) sorted_tree_insert distinct_tree_insert unfolding tree by blast+
  then show ?thesis using b f unfolding fq_base_def by (simp add: set_eq_iff) blast
qed

lemma fq_input_send_inv:
  assumes inv: "fq_inv m" and f: "f \<in> set (fq_flows_list m)" "f \<notin> set (fq_queued_tree m)" "fq_sending_flow m \<noteq> Some f"
    and n: "0 \<le> n" "n \<le> fq_mtu m"
  shows "fq_inv (fst (fq_input_handler_send f d n m))"
proof -
  let ?e = "fq_enqueued f d n m"
  have base: "fq_base ?e" using fq_enqueued_base f n inv by (auto simp: fq_inv_def)
  show ?thesis
  proof (cases "fq_sending_flow m = None \<and> \<not> fq_schedule_job m")
    case True
    then have "fq_previous_flow m = None" using inv by (cases "fq_previous_flow m") (auto simp: fq_inv_def)
    moreover obtain q t where "fq_queued_tree ?e = q # t"
      by (cases "fq_queued_tree ?e") (use fq_enqueued_sel(10) [of f d n m] in auto)
    ultimately show ?thesis
      using True base fq_schedule_inv [of ?e q t] by (simp add: fq_input_send_eq)
  next
    case False
    have "fq_time m g \<le> fq_time ?e f" if "fq_sending_flow m = Some g" for g
      using that inv by (auto simp: fq_enqueued_time get_current_time_def bmax_def fq_inv_def)
    moreover have "fq_time ?e g = fq_time m g" if "fq_sending_flow m = Some g \<or> g \<in> set (fq_queued_tree m)" for g
      using that f by (auto simp: fq_enqueued_time)
    ultimately show ?thesis
      using False base inv f by (auto simp: fq_input_send_eq fq_inv_def split: if_splits)
  qed
qed

lemma fq_job_inv:
  "fq_inv m \<Longrightarrow> fq_schedule_job m \<Longrightarrow> fq_inv (fst (schedule_job_handler (m\<lparr>fq_schedule_job := False\<rparr>)))"
proof -
  assume inv: "fq_inv m" and job: "fq_schedule_job m"
  let ?m = "m\<lparr>fq_schedule_job := False, fq_previous_flow := None\<rparr>"
  have s: "fq_sending_flow m = None" using inv job by (cases "fq_sending_flow m") (auto simp: fq_inv_def)
  have base: "fq_base ?m"
    using inv flow_less_cong [of ?m m] by (auto simp: fq_inv_def fq_base_def fq_time_def)
  show ?thesis
  proof (cases "fq_queued_tree m")
    case (Cons q t)
    then show ?thesis using fq_schedule_inv [OF base, of q t] by (simp add: schedule_job_handler_def)
  qed (use base s in \<open>auto simp: schedule_job_handler_def fq_inv_def\<close>)
qed

lemma fq_new_inv:
  "fq_inv m \<Longrightarrow> f \<notin> set (fq_flows_list m) \<Longrightarrow> fq_inv (PacketPassFairQueueFlow_Init f m)"
proof -
  assume inv: "fq_inv m" and f: "f \<notin> set (fq_flows_list m)"
  let ?m = "PacketPassFairQueueFlow_Init f m"
  have time: "fq_time ?m g = (if g = f then 0 else fq_time m g)" for g
    by (simp add: PacketPassFairQueueFlow_Init_def fq_time_def Let_def)
  have nf: "f \<notin> set (fq_queued_tree m)" using inv f by (simp add: fq_inv_def fq_base_def)
  have less: "flow_less ?m x y" if "x \<in> set (fq_queued_tree m)" "y \<in> set (fq_queued_tree m)" "flow_less m x y" for x y
  proof -
    have "x \<noteq> f" "y \<noteq> f" using that nf by blast+
    then show ?thesis using that(3) by (simp add: flow_less_def time)
  qed
  have sorted: "sorted_wrt (flow_less ?m) (fq_queued_tree m)"
    by (rule sorted_tree_cong [of m]) (use inv less in \<open>unfold fq_inv_def fq_base_def, blast\<close>)+
  have sel: "fq_flows_list ?m = fq_flows_list m @ [f]" "fq_queued_tree ?m = fq_queued_tree m"
    "fq_mtu ?m = fq_mtu m" "fq_sending_flow ?m = fq_sending_flow m" "fq_previous_flow ?m = fq_previous_flow m"
    "fq_schedule_job ?m = fq_schedule_job m" "fq_sending_len ?m = fq_sending_len m"
    "fl_is_queued (fq_flow_at ?m g) = (g \<noteq> f \<and> fl_is_queued (fq_flow_at m g))"
    "fl_len (fq_flow_at ?m g) = fl_len (fq_flow_at m g)" for g
    by (simp_all add: PacketPassFairQueueFlow_Init_def Let_def)
  have "fq_base ?m"
    using inv f sorted unfolding fq_inv_def fq_base_def sel by (auto simp: sel)
  then show ?thesis
    using inv f nf unfolding fq_inv_def sel time by auto
qed

lemma fq_delete_inv:
  "fq_inv m \<Longrightarrow> fq_sending_flow m \<noteq> Some f \<Longrightarrow> f \<in> set (fq_flows_list m) \<Longrightarrow> fq_inv (PacketPassFairQueueFlow_Free f m)"
proof -
  assume inv: "fq_inv m" and f: "fq_sending_flow m \<noteq> Some f" "f \<in> set (fq_flows_list m)"
  let ?m = "PacketPassFairQueueFlow_Free f m"
  have m: "?m = m\<lparr>fq_previous_flow := (if Some f = fq_previous_flow m then None else fq_previous_flow m),
      fq_queued_tree := remove1 f (fq_queued_tree m), fq_flows_list := remove1 f (fq_flows_list m)\<rparr>"
    using inv f by (auto simp: PacketPassFairQueueFlow_Free_def fq_inv_def fq_base_def Let_def remove1_idem)
  have time: "fq_time ?m g = fq_time m g" for g by (simp add: m fq_time_def)
  have "sorted_wrt (flow_less m) (remove1 f (fq_queued_tree m))"
    using inv by (auto simp: fq_inv_def fq_base_def remove1_split sorted_wrt_append distinct_remove1_removeAll sorted_wrt_filter removeAll_filter_not_eq)
  then show ?thesis
    using inv f unfolding fq_inv_def fq_base_def time flow_less_cong [OF time] by (auto simp: m)
qed

section \<open>Every run\<close>

definition flow_packets :: "nat \<Rightarrow> (nat \<times> int \<times> int) list \<Rightarrow> (int \<times> int) list" where
  "flow_packets f l = map snd (filter (\<lambda>e. fst e = f) l)"

definition flow_pending :: "nat \<Rightarrow> fq_sys \<Rightarrow> (int \<times> int) list" where
  "flow_pending f s =
     (if f \<in> fs_busy s then [(fl_data (fq_flow_at (fs_m s) f), fl_len (fq_flow_at (fs_m s) f))] else [])"

definition fq_links :: "fq_sys \<Rightarrow> bool" where
  "fq_links s \<longleftrightarrow>
     fs_out s = map_option (\<lambda>f. (fl_data (fq_flow_at (fs_m s) f), fl_len (fq_flow_at (fs_m s) f))) (fq_sending_flow (fs_m s)) \<and>
     fs_busy s = set (fq_queued_tree (fs_m s)) \<union> set_option (fq_sending_flow (fs_m s)) \<and>
     (\<forall>f. flow_packets f (fs_log s) = flow_packets f (fs_done s) @ flow_pending f s)"

definition fq_ok :: "fq_sys \<Rightarrow> bool" where
  "fq_ok s \<longleftrightarrow> fq_inv (fs_m s) \<and> fq_links s"

lemma flow_packets_simps [simp]:
  "flow_packets f [] = []" "flow_packets f (l @ [(g, p)]) = flow_packets f l @ (if g = f then [p] else [])"
  "flow_packets f (filter (\<lambda>e. fst e \<noteq> g) l) = (if f = g then [] else flow_packets f l)"
  by (auto simp: flow_packets_def) (metis (mono_tags, lifting) filter_cong)+

text \<open>Scheduling the first flow of the queue gives its packet to an idle output.\<close>

lemma fq_schedule_perform:
  assumes "fq_base m" "fq_queued_tree m = q # t" "fs_out s = None" "fq_sending_flow m = None"
    and "fq_links (s\<lparr>fs_m := m\<rparr>)"
  shows "\<exists>s'. fq_perform (snd (fq_schedule m)) (s\<lparr>fs_m := fst (fq_schedule m)\<rparr>) = Some s' \<and>
    fs_m s' = fst (fq_schedule m) \<and> fq_links s'"
  using assms
  by (auto simp: fq_schedule_eq fq_base_def fq_links_def flow_pending_def)

lemma fq_new_ok:
  assumes ok: "fq_ok s" and f: "f \<notin> set (fq_flows_list (fs_m s))"
  shows "fq_ok (s\<lparr>fs_m := PacketPassFairQueueFlow_Init f (fs_m s), fs_busy := fs_busy s - {f}\<rparr>)"
proof -
  have "f \<notin> fs_busy s"
    using ok f by (auto simp: fq_ok_def fq_links_def fq_inv_def fq_base_def)
  moreover have "fq_inv (PacketPassFairQueueFlow_Init f (fs_m s))"
    using fq_new_inv ok f by (simp add: fq_ok_def)
  ultimately show ?thesis
    using ok
    by (cases "fq_sending_flow (fs_m s)")
      (auto simp: fq_ok_def fq_links_def flow_pending_def PacketPassFairQueueFlow_Init_def Let_def)
qed

lemma fq_delete_ok:
  assumes ok: "fq_ok s" and f: "f \<in> set (fq_flows_list (fs_m s))" "fq_sending_flow (fs_m s) \<noteq> Some f"
  shows "fq_ok (s\<lparr>fs_m := PacketPassFairQueueFlow_Free f (fs_m s), fs_busy := fs_busy s - {f},
     fs_log := filter (\<lambda>e. fst e \<noteq> f) (fs_log s), fs_done := filter (\<lambda>e. fst e \<noteq> f) (fs_done s)\<rparr>)"
proof -
  let ?m = "PacketPassFairQueueFlow_Free f (fs_m s)"
  have inv: "fq_inv ?m" using fq_delete_inv ok f by (simp add: fq_ok_def)
  have d: "distinct (fq_queued_tree (fs_m s))" and q: "set (fq_queued_tree (fs_m s)) =
      {f \<in> set (fq_flows_list (fs_m s)). fl_is_queued (fq_flow_at (fs_m s) f)}"
    using ok by (simp_all add: fq_ok_def fq_inv_def fq_base_def)
  have m: "fq_flow_at ?m = fq_flow_at (fs_m s)" "fq_sending_flow ?m = fq_sending_flow (fs_m s)"
    "set (fq_queued_tree ?m) = set (fq_queued_tree (fs_m s)) - {f}"
    using f d q by (simp_all add: PacketPassFairQueueFlow_Free_def Let_def)
  show ?thesis
    using ok f inv unfolding fq_ok_def fq_links_def flow_pending_def by (auto simp: m)
qed

lemma fq_send_ok:
  assumes ok: "fq_ok s" and f: "f \<in> set (fq_flows_list (fs_m s))" "f \<notin> fs_busy s" "0 \<le> n" "n \<le> fq_mtu (fs_m s)"
  shows "\<exists>s'. fq_event_step (InSend f d n) s = Some s' \<and> fq_ok s'"
proof -
  let ?m = "fs_m s" and ?e = "fq_enqueued f d n (fs_m s)"
  let ?s = "s\<lparr>fs_busy := insert f (fs_busy s), fs_log := fs_log s @ [(f, d, n)], fs_m := ?e\<rparr>"
  have nf: "f \<notin> set (fq_queued_tree ?m)" "fq_sending_flow ?m \<noteq> Some f"
    using ok f by (auto simp: fq_ok_def fq_links_def)
  have base: "fq_base ?e" using ok f nf by (simp add: fq_enqueued_base fq_ok_def fq_inv_def)
  have inv: "fq_inv (fst (fq_input_handler_send f d n ?m))"
    using ok f nf by (simp add: fq_input_send_inv fq_ok_def)
  have links: "fq_links ?s"
    using ok nf f by (cases "fq_sending_flow ?m") (auto simp: fq_ok_def fq_links_def flow_pending_def)
  show ?thesis
  proof (cases "fq_sending_flow ?m = None \<and> \<not> fq_schedule_job ?m")
    case True
    obtain q t where tree: "fq_queued_tree ?e = q # t"
      by (cases "fq_queued_tree ?e") (use fq_enqueued_sel(10) [of f d n ?m] in auto)
    have "fs_out ?s = None" using True ok by (simp add: fq_ok_def fq_links_def)
    then show ?thesis
      using True f inv fq_schedule_perform [OF base tree, of ?s] links
      by (auto simp: fq_input_send_eq fq_ok_def case_prod_beta)
  next
    case False
    then show ?thesis using f inv links by (auto simp: fq_input_send_eq fq_ok_def)
  qed
qed

lemma fq_done_ok:
  assumes ok: "fq_ok s"
  shows "\<exists>s'. fq_event_step OutDone s = Some s' \<and> fq_ok s'"
proof (cases "fq_sending_flow (fs_m s)")
  case None
  then show ?thesis using ok by (auto split: option.splits)
next
  case (Some f)
  let ?m = "fs_m s"
  let ?x = "fq_flow_at ?m f"
  define m' where "m' = fst (fq_output_handler_done ?m)"
  have f: "f \<in> set (fq_flows_list ?m)" "f \<notin> set (fq_queued_tree ?m)" "distinct (fq_flows_list ?m)" "f \<in> fs_busy s"
    "fs_out s = Some (fl_data ?x, fl_len ?x)"
    using ok Some by (auto simp: fq_ok_def fq_inv_def fq_base_def fq_links_def)
  have inv: "fq_inv m'" using fq_output_done_inv ok Some by (simp add: fq_ok_def m'_def)
  have m': "fl_data (fq_flow_at m' g) = fl_data (fq_flow_at ?m g)" "fl_len (fq_flow_at m' g) = fl_len (fq_flow_at ?m g)"
    "fq_queued_tree m' = fq_queued_tree ?m" "fq_sending_flow m' = None" for g
    using f Some by (auto simp: m'_def fq_output_handler_done_def Let_def increment_eq rebased_def)
  have calls: "fq_perform (snd (fq_output_handler_done ?m)) t = Some (t\<lparr>fs_busy := fs_busy t - {f}\<rparr>)"
    if "f \<in> fs_busy t" for t
    using Some that by (simp add: fq_output_handler_done_def Let_def)
  let ?s = "s\<lparr>fs_m := m', fs_out := None, fs_busy := fs_busy s - {f}, fs_done := fs_done s @ [(f, fl_data ?x, fl_len ?x)]\<rparr>"
  have "fq_event_step OutDone s = Some ?s"
    using Some f calls by (simp add: case_prod_beta m'_def)
  moreover have "fq_links ?s"
    using ok f Some unfolding fq_ok_def fq_links_def flow_pending_def by (auto simp: m')
  ultimately show ?thesis using inv by (auto simp: fq_ok_def)
qed

lemma fq_job_ok:
  assumes ok: "fq_ok s" and job: "fq_schedule_job (fs_m s)"
  shows "\<exists>s'. fq_event_step RunScheduleJob s = Some s' \<and> fq_ok s'"
proof -
  let ?m = "(fs_m s)\<lparr>fq_schedule_job := False, fq_previous_flow := None\<rparr>"
  have inv: "fq_inv (fst (schedule_job_handler ((fs_m s)\<lparr>fq_schedule_job := False\<rparr>)))"
    using fq_job_inv ok job by (simp add: fq_ok_def)
  have s: "fq_sending_flow (fs_m s) = None" "fs_out s = None"
    using ok job by (cases "fq_sending_flow (fs_m s)"; auto simp: fq_ok_def fq_inv_def fq_links_def)+
  have base: "fq_base ?m"
    using ok flow_less_cong [of ?m "fs_m s"] by (auto simp: fq_ok_def fq_inv_def fq_base_def fq_time_def)
  have links: "fq_links (s\<lparr>fs_m := ?m\<rparr>)" using ok by (simp add: fq_ok_def fq_links_def flow_pending_def)
  show ?thesis
  proof (cases "fq_queued_tree (fs_m s)")
    case (Cons q t)
    then show ?thesis
      using fq_schedule_perform [OF base, of q t s] inv links s job
      by (auto simp: schedule_job_handler_def fq_ok_def case_prod_beta)
  qed (use inv links job in \<open>auto simp: schedule_job_handler_def fq_ok_def\<close>)
qed

lemma fq_step_ok:
  assumes ok: "fq_ok s"
  shows "\<exists>s'. fq_event_step e s = Some s' \<and> fq_ok s'"
proof (cases e)
  case (InSend f d n)
  then show ?thesis
    using ok fq_send_ok [OF ok, of f n d]
    by (cases "f \<in> set (fq_flows_list (fs_m s)) \<and> f \<notin> fs_busy s \<and> 0 \<le> n \<and> n \<le> fq_mtu (fs_m s)") auto
next
  case RunScheduleJob
  then show ?thesis using ok fq_job_ok [OF ok] by (cases "fq_schedule_job (fs_m s)") auto
qed (use ok fq_new_ok [OF ok] fq_delete_ok [OF ok] fq_done_ok [OF ok] in
  \<open>auto simp: PacketPassFairQueueFlow_IsBusy_def\<close>)

lemma fq_run_ok: "fq_ok s \<Longrightarrow> \<exists>s'. fq_run es s = Some s' \<and> fq_ok s'"
proof (induction es arbitrary: s)
  case (Cons e es)
  then obtain t where "fq_event_step e s = Some t" "fq_ok t" using fq_step_ok by blast
  then show ?case using Cons.IH by simp
qed simp

definition fq_init_sys :: "PacketPassFairQueue \<Rightarrow> fq_sys" where
  "fq_init_sys m = \<lparr>fs_m = m, fs_out = None, fs_busy = {}, fs_log = [], fs_done = []\<rparr>"

lemma fq_init_ok: "PacketPassFairQueue_Init mtu c w fl = Some m \<Longrightarrow> fq_ok (fq_init_sys m)"
  by (auto simp: PacketPassFairQueue_Init_def fq_init_sys_def fq_ok_def fq_inv_def fq_base_def fq_links_def
      flow_pending_def split: if_splits)

text \<open>
  C24: From a fair queue that initialised, no sequence of flow creations and deletions, sends,
  completions and job runs makes it call a busy output, pass a packet longer than the MTU or
  complete an input that is not sending; every flow's packets are completed in order, without
  loss or change, the one outstanding packet being the one in its input; the packet given to
  the output is always of a flow with the smallest time of all waiting flows; and a packet
  waits only while another is being sent or the schedule job is pending.
\<close>

theorem fq_schedules_fairly:
  assumes "PacketPassFairQueue_Init mtu use_cancel weight flows = Some m"
  shows "\<exists>s. fq_run es (fq_init_sys m) = Some s \<and>
    (\<forall>f. flow_packets f (fs_log s) = flow_packets f (fs_done s) @ flow_pending f s) \<and>
    (\<forall>f. fq_sending_flow (fs_m s) = Some f \<longrightarrow>
       fs_out s = Some (fl_data (fq_flow_at (fs_m s) f), fl_len (fq_flow_at (fs_m s) f)) \<and>
       (\<forall>q \<in> fs_busy s. fq_time (fs_m s) f \<le> fq_time (fs_m s) q)) \<and>
    (fs_busy s \<noteq> {} \<longrightarrow> fs_out s \<noteq> None \<or> fq_schedule_job (fs_m s))"
proof -
  obtain s where s: "fq_run es (fq_init_sys m) = Some s" "fq_inv (fs_m s)" "fq_links s"
    using fq_run_ok [OF fq_init_ok [OF assms]] by (auto simp: fq_ok_def)
  moreover have "fs_busy s \<noteq> {} \<longrightarrow> fs_out s \<noteq> None \<or> fq_schedule_job (fs_m s)"
    using s(2,3) by (cases "fq_sending_flow (fs_m s)") (auto simp: fq_links_def fq_inv_def)
  moreover have "fs_out s = Some (fl_data (fq_flow_at (fs_m s) f), fl_len (fq_flow_at (fs_m s) f)) \<and>
      (\<forall>q \<in> fs_busy s. fq_time (fs_m s) f \<le> fq_time (fs_m s) q)" if "fq_sending_flow (fs_m s) = Some f" for f
    using s(2,3) that by (auto simp: fq_links_def fq_inv_def)
  ultimately show ?thesis by (auto simp: fq_links_def)
qed

definition flow_blank :: fq_flow where
  "flow_blank = \<lparr>fl_time = 0, fl_is_queued = False, fl_data = 0, fl_len = 0, fl_handler_busy = False\<rparr>"

text \<open>Two flows, the second with the shorter packets, interleave by their times.\<close>

definition fq_example :: "fq_event list" where
  "fq_example = [FlowNew 1, FlowNew 2, InSend 1 100 50, InSend 2 200 10, OutDone, InSend 1 101 50,
     RunScheduleJob, OutDone, InSend 2 201 10, RunScheduleJob]"

lemma fq_schedules_fairly_witness:
  "map_option (\<lambda>s. (fs_out s, fs_done s, map (fq_time (fs_m s)) [1, 2]))
     (Option.bind (PacketPassFairQueue_Init 1500 True 1 (\<lambda>_. flow_blank)) (\<lambda>m. fq_run fq_example (fq_init_sys m)))
   = Some (Some (201, 10), [(1, 100, 50), (2, 200, 10)], [51, 11]) \<and>
   (\<exists>m s. PacketPassFairQueue_Init 1500 True 1 (\<lambda>_. flow_blank) = Some m \<and> fq_run fq_example (fq_init_sys m) = Some s \<and>
     flow_packets 2 (fs_log s) = flow_packets 2 (fs_done s) @ flow_pending 2 s)"
proof
  show "map_option (\<lambda>s. (fs_out s, fs_done s, map (fq_time (fs_m s)) [1, 2]))
     (Option.bind (PacketPassFairQueue_Init 1500 True 1 (\<lambda>_. flow_blank)) (\<lambda>m. fq_run fq_example (fq_init_sys m)))
   = Some (Some (201, 10), [(1, 100, 50), (2, 200, 10)], [51, 11])" by code_simp
  have "PacketPassFairQueue_Init 1500 True 1 (\<lambda>_. flow_blank) \<noteq> None"
    by (simp add: PacketPassFairQueue_Init_def FAIRQUEUE_MAX_TIME_def word_le_nat_alt unat_max_word)
  then obtain m where "PacketPassFairQueue_Init 1500 True 1 (\<lambda>_. flow_blank) = Some m" by blast
  then show "\<exists>m s. PacketPassFairQueue_Init 1500 True 1 (\<lambda>_. flow_blank) = Some m \<and> fq_run fq_example (fq_init_sys m) = Some s \<and>
     flow_packets 2 (fs_log s) = flow_packets 2 (fs_done s) @ flow_pending 2 s"
    using fq_schedules_fairly [of 1500 True 1 "\<lambda>_. flow_blank" m fq_example] by blast
qed

text \<open>
  C25: The 64-bit times never show a wrap-around: after a completion there is one base so that
  the time of the flow that sent, plus the base, is its old time plus the amount, and the time
  of every queued flow, plus the base, is its old time, as natural numbers.
\<close>

theorem fq_times_exact:
  fixes amount :: u64
  assumes "fq_inv m" "fq_sending_flow m = Some flow"
  shows "\<exists>base. base + unat (fq_time (increment_sent_flow flow amount m) flow) = unat (fq_time m flow) + unat amount \<and>
    (\<forall>q \<in> set (fq_queued_tree m). base + unat (fq_time (increment_sent_flow flow amount m) q) = unat (fq_time m q))"
  using assms increment_exact(1) [of m flow amount] increment_exact(2) [of m flow _ amount]
  by (intro exI [of _ "unat (rebase_amount flow amount m)"]) (auto simp: fq_inv_def fq_base_def)

definition fq_near_overflow :: PacketPassFairQueue where
  "fq_near_overflow = \<lparr>fq_mtu = 1500, fq_use_cancel = False, fq_packet_weight = 1, fq_sending_flow = Some 1,
     fq_sending_len = 20, fq_previous_flow = None, fq_queued_tree = [2], fq_flows_list = [1, 2],
     fq_flow_at = (\<lambda>f. \<lparr>fl_time = if f = 1 then - 10 else - 3, fl_is_queued = f = 2, fl_data = 0, fl_len = 20,
       fl_handler_busy = False\<rparr>), fq_freeing = False, fq_schedule_job = False\<rparr>"

lemma fq_times_exact_witness:
  "fq_time (increment_sent_flow 1 21 fq_near_overflow) 1 = 14 \<and> fq_time (increment_sent_flow 1 21 fq_near_overflow) 2 = 0 \<and>
   (\<exists>base. base + unat (fq_time (increment_sent_flow 1 21 fq_near_overflow) 1) = unat (- 10 :: u64) + 21 \<and>
      base + unat (fq_time (increment_sent_flow 1 21 fq_near_overflow) 2) = unat (- 3 :: u64))"
proof -
  have "fq_inv fq_near_overflow" "fq_sending_flow fq_near_overflow = Some 1"
    by (auto simp: fq_near_overflow_def fq_inv_def fq_base_def fq_time_def)
  from fq_times_exact [OF this, of 21] have "\<exists>base. base + unat (fq_time (increment_sent_flow 1 21 fq_near_overflow) 1) =
      unat (- 10 :: u64) + 21 \<and> base + unat (fq_time (increment_sent_flow 1 21 fq_near_overflow) 2) = unat (- 3 :: u64)"
    by (simp add: fq_near_overflow_def fq_time_def)
  moreover have "fq_time (increment_sent_flow 1 21 fq_near_overflow) 1 = 14" by code_simp
  moreover have "fq_time (increment_sent_flow 1 21 fq_near_overflow) 2 = 0" by code_simp
  ultimately show ?thesis by blast
qed

end
