(* ===== verification/Inactivity_Monitor.thy ===== *)
theory Inactivity_Monitor
  imports Prelude
begin

text \<open>
  \<^verbatim>\<open>flowextra/PacketPassInactivityMonitor.c\<close>: passes packets on and reports when nothing has been sent for a
  while. The client of the UDP gateway has one behind its queue and sends a keepalive when it
  reports. A function returns the calls it makes; the system performs them and has a clock, so
  that the timer has a time at which it expires.
\<close>

section \<open>Functions\<close>

record PacketPassInactivityMonitor =
  im_handler :: bool
  im_cancel :: bool

datatype im_call =
    Im_Output_Send bytes
  | Im_Output_RequestCancel
  | Im_Input_Done
  | Im_SetTimer
  | Im_SetTimerAfter nat
  | Im_RemoveTimer
  | Im_Handler

definition im_input_handler_send :: "bytes \<Rightarrow> im_call list" where
  "im_input_handler_send data = [Im_Output_Send data, Im_RemoveTimer]"

definition im_input_handler_requestcancel :: "im_call list" where
  "im_input_handler_requestcancel = [Im_Output_RequestCancel]"

definition im_output_handler_done :: "im_call list" where
  "im_output_handler_done = [Im_SetTimer, Im_Input_Done]"

definition im_timer_handler :: "PacketPassInactivityMonitor \<Rightarrow> im_call list" where
  "im_timer_handler m = Im_SetTimer # (if im_handler m then [Im_Handler] else [])"

definition PacketPassInactivityMonitor_Init :: "bool \<Rightarrow> bool \<Rightarrow> PacketPassInactivityMonitor \<times> im_call list" where
  "PacketPassInactivityMonitor_Init has_cancel handler = (\<lparr>im_handler = handler, im_cancel = has_cancel\<rparr>, [Im_SetTimer])"

definition PacketPassInactivityMonitor_Free :: "im_call list" where
  "PacketPassInactivityMonitor_Free = [Im_RemoveTimer]"

definition PacketPassInactivityMonitor_SetHandler :: "bool \<Rightarrow> PacketPassInactivityMonitor \<Rightarrow> PacketPassInactivityMonitor" where
  "PacketPassInactivityMonitor_SetHandler handler m = m\<lparr>im_handler := handler\<rparr>"

definition PacketPassInactivityMonitor_Force :: "im_call list" where
  "PacketPassInactivityMonitor_Force = [Im_SetTimerAfter 0]"

section \<open>The monitor between its interfaces and the reactor\<close>

text \<open>
  \<^verbatim>\<open>ims_in\<close> and \<^verbatim>\<open>ims_out\<close> are the packets the input and the output are busy with, \<^verbatim>\<open>ims_since\<close> the time of the
  last packet done, of the last expiry or of the start, \<^verbatim>\<open>ims_reports\<close> the reports with \<^verbatim>\<open>ims_since\<close> and the
  time of each. A report while a packet is being sent, which the contract of the handler excludes, and
  a call on an interface in the wrong state make a run undefined.
\<close>

record im_sys =
  ims_mon :: PacketPassInactivityMonitor
  ims_interval :: nat
  ims_now :: nat
  ims_timer :: "nat option"
  ims_in :: "bytes option"
  ims_out :: "bytes option"
  ims_since :: nat
  ims_reports :: "(nat \<times> nat) list"
  ims_sent :: "bytes list"
  ims_passed :: "bytes list"

fun im_do :: "im_call \<Rightarrow> im_sys \<Rightarrow> im_sys option" where
  "im_do (Im_Output_Send data) s =
     (if ims_out s = None then Some (s\<lparr>ims_out := Some data, ims_passed := ims_passed s @ [data]\<rparr>) else None)"
| "im_do Im_Output_RequestCancel s = (if ims_out s \<noteq> None then Some s else None)"
| "im_do Im_Input_Done s = (if ims_in s \<noteq> None \<and> ims_out s = None then Some (s\<lparr>ims_in := None\<rparr>) else None)"
| "im_do Im_SetTimer s = Some (s\<lparr>ims_timer := Some (ims_now s + ims_interval s)\<rparr>)"
| "im_do (Im_SetTimerAfter t) s = Some (s\<lparr>ims_timer := Some (ims_now s + t)\<rparr>)"
| "im_do Im_RemoveTimer s = Some (s\<lparr>ims_timer := None\<rparr>)"
| "im_do Im_Handler s =
     (if ims_in s = None \<and> ims_out s = None then Some (s\<lparr>ims_reports := ims_reports s @ [(ims_since s, ims_now s)]\<rparr>) else None)"

fun im_perform :: "im_call list \<Rightarrow> im_sys \<Rightarrow> im_sys option" where
  "im_perform [] s = Some s"
| "im_perform (c # cs) s = Option.bind (im_do c s) (im_perform cs)"

datatype im_event = Im_Send bytes | Im_Cancel | Im_Done | Im_Wait nat | Im_Fire | Im_Set bool | Im_Force

fun im_step :: "im_event \<Rightarrow> im_sys \<Rightarrow> im_sys option" where
  "im_step (Im_Send data) s =
     (if ims_in s = None then im_perform (im_input_handler_send data) (s\<lparr>ims_in := Some data, ims_sent := ims_sent s @ [data]\<rparr>) else Some s)"
| "im_step Im_Cancel s = (if ims_in s \<noteq> None \<and> im_cancel (ims_mon s) then im_perform im_input_handler_requestcancel s else Some s)"
| "im_step Im_Done s =
     (if ims_out s \<noteq> None then im_perform im_output_handler_done (s\<lparr>ims_out := None, ims_since := ims_now s\<rparr>) else Some s)"
| "im_step (Im_Wait t) s = Some (s\<lparr>ims_now := ims_now s + t\<rparr>)"
| "im_step Im_Fire s =
     (case ims_timer s of
        None \<Rightarrow> Some s
      | Some e \<Rightarrow>
          if e \<le> ims_now s
          then map_option (\<lambda>s'. s'\<lparr>ims_since := ims_now s\<rparr>) (im_perform (im_timer_handler (ims_mon s)) (s\<lparr>ims_timer := None\<rparr>))
          else Some s)"
| "im_step (Im_Set handler) s = Some (s\<lparr>ims_mon := PacketPassInactivityMonitor_SetHandler handler (ims_mon s)\<rparr>)"
| "im_step Im_Force s = im_perform PacketPassInactivityMonitor_Force s"

fun im_run :: "im_event list \<Rightarrow> im_sys \<Rightarrow> im_sys option" where
  "im_run [] s = Some s"
| "im_run (e # es) s = Option.bind (im_step e s) (im_run es)"

definition im_start :: "nat \<Rightarrow> bool \<Rightarrow> bool \<Rightarrow> im_sys option" where
  "im_start interval has_cancel handler =
     (let (m, calls) = PacketPassInactivityMonitor_Init has_cancel handler
      in im_perform calls \<lparr>ims_mon = m, ims_interval = interval, ims_now = 0, ims_timer = None, ims_in = None, ims_out = None, ims_since = 0,
           ims_reports = [], ims_sent = [], ims_passed = []\<rparr>)"

section \<open>What it reports\<close>

definition im_ok :: "nat \<Rightarrow> im_sys \<Rightarrow> bool" where
  "im_ok interval s \<longleftrightarrow> ims_interval s = interval \<and> ims_in s = ims_out s \<and> ims_passed s = ims_sent s \<and>
     ims_timer s = (if ims_in s = None then Some (ims_since s + interval) else None) \<and>
     (\<forall>(since, now) \<in> set (ims_reports s). since + interval \<le> now)"

lemma im_step_ok:
  assumes "im_ok interval s" "e \<noteq> Im_Force"
  shows "\<exists>s'. im_step e s = Some s' \<and> im_ok interval s'"
  using assms
  by (cases e; cases "ims_out s")
    (auto simp: im_ok_def im_input_handler_send_def im_input_handler_requestcancel_def im_output_handler_done_def im_timer_handler_def
      PacketPassInactivityMonitor_SetHandler_def)

lemma im_run_ok: "im_ok interval s \<Longrightarrow> Im_Force \<notin> set es \<Longrightarrow> \<exists>s'. im_run es s = Some s' \<and> im_ok interval s'"
proof (induction es arbitrary: s)
  case (Cons e es)
  then obtain s1 where "im_step e s = Some s1" "im_ok interval s1" using im_step_ok [of interval s e] by auto
  with Cons.IH [of s1] Cons.prems show ?case by (simp del: im_step.simps)
qed simp

text \<open>
  Without \<^verbatim>\<open>PacketPassInactivityMonitor_Force\<close>, a report is made only while nothing is being sent and not before the
  interval has passed since the last packet was done; the timer runs exactly while nothing is being sent;
  the packets pass unchanged and in order.
\<close>

theorem monitor_reports_inactivity:
  assumes "Im_Force \<notin> set es"
  shows "\<exists>s. Option.bind (im_start interval has_cancel handler) (im_run es) = Some s \<and> (ims_timer s \<noteq> None) = (ims_in s = None) \<and>
    ims_passed s = ims_sent s \<and> (\<forall>(since, now) \<in> set (ims_reports s). since + interval \<le> now)"
proof -
  obtain s0 where "im_start interval has_cancel handler = Some s0" "im_ok interval s0"
    by (auto simp: im_start_def PacketPassInactivityMonitor_Init_def im_ok_def)
  with im_run_ok [of interval s0 es] assms show ?thesis by (auto simp: im_ok_def)
qed

text \<open>
  A report that is forced while a packet is being sent breaks the promise the header file makes to the
  handler, that the interfaces are then not sending. The client of the gateway does not force reports.
\<close>

theorem forced_report_while_sending:
  "Option.bind (im_start 10 False True) (im_run [Im_Send [1], Im_Force, Im_Fire]) = None"
  by (simp add: im_start_def PacketPassInactivityMonitor_Init_def PacketPassInactivityMonitor_Force_def im_input_handler_send_def im_timer_handler_def)

theorem monitor_freed:
  "im_perform PacketPassInactivityMonitor_Free s = Some (s\<lparr>ims_timer := None\<rparr>)"
  by (simp add: PacketPassInactivityMonitor_Free_def)

end
