(* ===== verification/Net_Proto.thy ===== *)
theory Net_Proto
  imports Byteorder
begin

text \<open>
  The packet headers and their checks: \<^verbatim>\<open>misc/ipv4_proto.h\<close>, \<^verbatim>\<open>misc/ipv6_proto.h\<close>,
  \<^verbatim>\<open>misc/udp_proto.h\<close>. A packed header is a record of its fields as the host loads them; its
  bytes in memory are those of \<^verbatim>\<open>ipv4_header_bytes\<close> and its siblings. A pointer with a length
  is the list of the bytes it delimits. The checksums are compared with the one's
  complement sum of RFC 1071 over the natural numbers.
\<close>

section \<open>Headers\<close>

record ipv4_header =
  ip4_version4_ihl4 :: u8
  ip4_ds :: u8
  ip4_total_length :: u16
  ip4_identification :: u16
  ip4_flags3_fragmentoffset13 :: u16
  ip4_ttl :: u8
  ip4_protocol :: u8
  ip4_checksum :: u16
  ip4_source_address :: u32
  ip4_destination_address :: u32

record ipv6_header =
  ip6_version4_tc4 :: u8
  ip6_tc4_fl4 :: u8
  ip6_fl :: u16
  ip6_payload_length :: u16
  ip6_next_header :: u8
  ip6_hop_limit :: u8
  ip6_source_address :: bytes
  ip6_destination_address :: bytes

record udp_header =
  udp_source_port :: u16
  udp_dest_port :: u16
  udp_length :: u16
  udp_hchecksum :: u16

definition ipv4_header_bytes :: "ipv4_header \<Rightarrow> bytes" where
  "ipv4_header_bytes h =
     [ip4_version4_ihl4 h, ip4_ds h] @ mem16 (ip4_total_length h) @ mem16 (ip4_identification h) @
     mem16 (ip4_flags3_fragmentoffset13 h) @ [ip4_ttl h, ip4_protocol h] @ mem16 (ip4_checksum h) @
     mem32 (ip4_source_address h) @ mem32 (ip4_destination_address h)"

definition ipv4_header_load :: "bytes \<Rightarrow> ipv4_header" where
  "ipv4_header_load p =
     \<lparr>ip4_version4_ihl4 = p ! 0, ip4_ds = p ! 1, ip4_total_length = badvpn_read_le16 (drop 2 p),
      ip4_identification = badvpn_read_le16 (drop 4 p), ip4_flags3_fragmentoffset13 = badvpn_read_le16 (drop 6 p),
      ip4_ttl = p ! 8, ip4_protocol = p ! 9, ip4_checksum = badvpn_read_le16 (drop 10 p),
      ip4_source_address = badvpn_read_le32 (drop 12 p), ip4_destination_address = badvpn_read_le32 (drop 16 p)\<rparr>"

definition ipv6_header_bytes :: "ipv6_header \<Rightarrow> bytes" where
  "ipv6_header_bytes h =
     [ip6_version4_tc4 h, ip6_tc4_fl4 h] @ mem16 (ip6_fl h) @ mem16 (ip6_payload_length h) @
     [ip6_next_header h, ip6_hop_limit h] @ ip6_source_address h @ ip6_destination_address h"

definition ipv6_header_load :: "bytes \<Rightarrow> ipv6_header" where
  "ipv6_header_load p =
     \<lparr>ip6_version4_tc4 = p ! 0, ip6_tc4_fl4 = p ! 1, ip6_fl = badvpn_read_le16 (drop 2 p),
      ip6_payload_length = badvpn_read_le16 (drop 4 p), ip6_next_header = p ! 6, ip6_hop_limit = p ! 7,
      ip6_source_address = get_at 8 16 p, ip6_destination_address = get_at 24 16 p\<rparr>"

definition udp_header_bytes :: "udp_header \<Rightarrow> bytes" where
  "udp_header_bytes h = mem16 (udp_source_port h) @ mem16 (udp_dest_port h) @ mem16 (udp_length h) @ mem16 (udp_hchecksum h)"

definition udp_header_load :: "bytes \<Rightarrow> udp_header" where
  "udp_header_load p =
     \<lparr>udp_source_port = badvpn_read_le16 p, udp_dest_port = badvpn_read_le16 (drop 2 p),
      udp_length = badvpn_read_le16 (drop 4 p), udp_hchecksum = badvpn_read_le16 (drop 6 p)\<rparr>"

definition IPV4_PROTOCOL_UDP :: u8 where "IPV4_PROTOCOL_UDP = 17"
definition IPV6_NEXT_UDP :: u8 where "IPV6_NEXT_UDP = 17"

definition IPV4_GET_VERSION :: "ipv4_header \<Rightarrow> u8" where
  "IPV4_GET_VERSION h = drop_bit 4 (ip4_version4_ihl4 h AND 0xF0)"

definition IPV4_GET_IHL :: "ipv4_header \<Rightarrow> u8" where
  "IPV4_GET_IHL h = ip4_version4_ihl4 h AND 0x0F"

definition IPV4_MAKE_VERSION_IHL :: "nat \<Rightarrow> u8" where
  "IPV4_MAKE_VERSION_IHL sz = of_nat (sz div 4 + 64)"

section \<open>Checksums\<close>

text \<open>The summing loop: \<^verbatim>\<open>n\<close> big endian words from \<^verbatim>\<open>p\<close> added to \<^verbatim>\<open>t\<close>.\<close>

fun add_be16 :: "nat \<Rightarrow> bytes \<Rightarrow> u32 \<Rightarrow> u32" where
  "add_be16 0 p t = t"
| "add_be16 (Suc n) p t = add_be16 n (drop 2 p) (t + ucast (badvpn_read_be16 p))"

text \<open>The folding loop \<^verbatim>\<open>while (t >> 16)\<close>.\<close>

lemma unat_fold_step: "unat ((t AND 0xFFFF) + drop_bit 16 t) = unat t mod 65536 + unat t div 65536" for t :: u32
proof -
  have "t AND 0xFFFF = take_bit 16 t" by (simp add: take_bit_eq_mask mask_eq_exp_minus_1)
  then have "unat (t AND 0xFFFF) = unat t mod 65536" by (simp add: take_bit_eq_mod unat_mod)
  moreover have "unat (drop_bit 16 t) = unat t div 65536" by (simp add: drop_bit_eq_div unat_div)
  moreover have "unat t < 2 ^ 32" using unat_lt [of t] by simp
  then have "unat t mod 65536 + unat t div 65536 < 2 ^ 32" by simp
  ultimately show ?thesis by (simp add: unat_word_ariths)
qed

lemma drop16_zero: "drop_bit 16 t = 0 \<longleftrightarrow> unat t < 65536" for t :: u32
proof -
  have "drop_bit 16 t = 0 \<longleftrightarrow> unat (drop_bit 16 t) = 0" by (simp add: unat_eq_0)
  also have "\<dots> \<longleftrightarrow> unat t div 65536 = 0" by (simp add: drop_bit_eq_div unat_div)
  finally show ?thesis by (simp add: div_eq_0_iff)
qed

function fold_carry :: "u32 \<Rightarrow> u32" where
  "fold_carry t = (if drop_bit 16 t \<noteq> 0 then fold_carry ((t AND 0xFFFF) + drop_bit 16 t) else t)"
  by auto
termination
proof (relation "measure unat")
  fix t :: u32 assume "drop_bit 16 t \<noteq> 0"
  then have "65536 \<le> unat t" by (simp add: drop16_zero)
  then have "unat t mod 65536 + unat t div 65536 < unat t"
    by (metis add.commute add_less_cancel_right div_greater_zero_iff div_mult_mod_eq
        mult.commute mult_less_cancel2 nat_mult_1 one_less_numeral_iff semiring_norm(76) zero_less_numeral)
  then show "((t AND 0xFFFF) + drop_bit 16 t, t) \<in> measure unat" by (simp add: unat_fold_step)
qed simp

declare fold_carry.simps [simp del]

definition ipv4_checksum :: "ipv4_header \<Rightarrow> bytes \<Rightarrow> u16" where
  "ipv4_checksum header extra =
     (let t = add_be16 10 (ipv4_header_bytes header) 0;
          t = add_be16 (length extra div 2) extra t;
          t = fold_carry t
      in hton16 (ucast (NOT t)))"

definition ipv4_check :: "bytes \<Rightarrow> (ipv4_header \<times> nat \<times> bytes) option" where
  "ipv4_check data =
     (if length data < 20 then None else
      let h = ipv4_header_load data in
      if IPV4_GET_VERSION h \<noteq> 4 then None else
      let header_len = unat (IPV4_GET_IHL h) * 4 in
      if header_len < 20 then None else
      if header_len > length data then None else
      let total_length = unat (ntoh16 (ip4_total_length h)) in
      if total_length < header_len then None else
      if total_length > length data then None else
      let checksum_computed = ipv4_checksum (h\<lparr>ip4_checksum := hton16 0\<rparr>) (get_at 20 (header_len - 20) data) in
      if ip4_checksum h \<noteq> checksum_computed then None else
      Some (h, header_len, get_at header_len (total_length - header_len) data))"

definition ipv6_check :: "bytes \<Rightarrow> (ipv6_header \<times> bytes) option" where
  "ipv6_check data =
     (if length data < 40 then None else
      let h = ipv6_header_load data in
      if drop_bit 4 (ntoh8 (ip6_version4_tc4 h)) \<noteq> 6 then None else
      let payload_length = unat (ntoh16 (ip6_payload_length h)) in
      if payload_length > length data - 40 then None else
      Some (h, get_at 40 payload_length data))"

definition udp_checksum_summer :: "bytes \<Rightarrow> u32" where
  "udp_checksum_summer data = add_be16 (length data div 2) data 0"

text \<open>The payload and the end of both UDP checksums.\<close>

definition udp_sum_payload :: "bytes \<Rightarrow> u32 \<Rightarrow> u32" where
  "udp_sum_payload payload t =
     (if even (length payload) then t + udp_checksum_summer payload
      else t + udp_checksum_summer (take (length payload - 1) payload) +
           udp_checksum_summer (mem16 (hton16 (push_bit 8 (ucast (payload ! (length payload - 1)))))))"

definition udp_sum_finish :: "u32 \<Rightarrow> u16" where
  "udp_sum_finish t =
     (let t = fold_carry t; t = (if t = 0 then 0xFFFF else t) in hton16 (ucast (NOT t)))"

definition udp_checksum :: "udp_header \<Rightarrow> bytes \<Rightarrow> u32 \<Rightarrow> u32 \<Rightarrow> u16" where
  "udp_checksum header payload source_addr dest_addr =
     udp_sum_finish (udp_sum_payload payload
       (udp_checksum_summer (mem32 source_addr) + udp_checksum_summer (mem32 dest_addr) +
        udp_checksum_summer (mem16 (hton16 (ucast IPV4_PROTOCOL_UDP))) +
        udp_checksum_summer (mem16 (hton16 (of_nat (8 + length payload)))) +
        udp_checksum_summer (udp_header_bytes header)))"

definition udp_ip6_checksum :: "udp_header \<Rightarrow> bytes \<Rightarrow> bytes \<Rightarrow> bytes \<Rightarrow> u16" where
  "udp_ip6_checksum header payload source_addr dest_addr =
     udp_sum_finish (udp_sum_payload payload
       (udp_checksum_summer (take 16 source_addr) + udp_checksum_summer (take 16 dest_addr) +
        udp_checksum_summer (mem32 (hton32 (of_nat (8 + length payload)))) +
        udp_checksum_summer (mem32 (hton32 (ucast IPV6_NEXT_UDP))) +
        udp_checksum_summer (udp_header_bytes header)))"

definition udp_check :: "bytes \<Rightarrow> (udp_header \<times> bytes) option" where
  "udp_check data =
     (if length data < 8 then None else
      let h = udp_header_load data;
          udp_len = unat (ntoh16 (udp_length h)) in
      if udp_len < 8 then None else
      if udp_len > length data then None else
      Some (h, get_at 8 (udp_len - 8) data))"

section \<open>The one's complement sum\<close>

text \<open>The sum of the big endian words of a byte string, an odd last byte padded with zero,
  and its residue in one's complement.\<close>

fun sum16 :: "bytes \<Rightarrow> nat" where
  "sum16 [] = 0"
| "sum16 [a] = unat a * 256"
| "sum16 (a # b # r) = unat a * 256 + unat b + sum16 r"

definition ones_sum :: "nat \<Rightarrow> nat" where
  "ones_sum n = (if n = 0 then 0 else (n - 1) mod 65535 + 1)"

lemma sum16_append: "even (length xs) \<Longrightarrow> sum16 (xs @ ys) = sum16 xs + sum16 ys"
  by (induction xs rule: sum16.induct) auto

lemma u8_lt: "unat x < 256" for x :: u8
  using unat_lt [of x] by simp

lemma sum16_bound: "sum16 xs \<le> (length xs + 1) div 2 * 65535"
proof (induction xs rule: sum16.induct)
  case (2 a)
  then show ?case using u8_lt [of a] by simp
next
  case (3 a b r)
  then show ?case using u8_lt [of a] u8_lt [of b] by simp
qed simp

lemma unat_be16: "unat (badvpn_read_be16 (a # b # r)) = unat a * 256 + unat b"
proof -
  have "badvpn_read_be16 (a # b # r) = push_bit 8 (ucast a) + ucast b"
    unfolding badvpn_read_be16_def by (subst disjunctive_add) (auto simp: bit_simps dest!: bit_imp_le_length)
  moreover have "unat (push_bit 8 (ucast a :: u16)) = unat a * 256"
    using u8_lt [of a] by (simp add: push_bit_eq_mult unat_word_ariths unsigned_ucast_eq take_bit_nat_eq_self)
  moreover have "unat (ucast b :: u16) = unat b" using u8_lt [of b] by (simp add: unsigned_ucast_eq take_bit_nat_eq_self)
  ultimately show ?thesis using u8_lt [of a] u8_lt [of b] by (simp add: unat_word_ariths)
qed

lemma add_be16_exact:
  "2 * n \<le> length p \<Longrightarrow> unat t + sum16 (take (2 * n) p) < 2 ^ 32 \<Longrightarrow>
     unat (add_be16 n p t) = unat t + sum16 (take (2 * n) p)"
proof (induction n arbitrary: p t)
  case (Suc n)
  then obtain a b r where p: "p = a # b # r" by (cases p; cases "tl p") auto
  have w: "unat (t + ucast (badvpn_read_be16 p) :: u32) = unat t + unat (badvpn_read_be16 p)"
    using Suc.prems(2) unat_lt [of "badvpn_read_be16 p"] unfolding p
    by (simp add: unat_word_ariths unsigned_ucast_eq take_bit_nat_eq_self unat_be16)
  show ?case using Suc.IH [of r "t + ucast (badvpn_read_be16 p)"] Suc.prems w by (simp add: p unat_be16)
qed simp

lemma ones_sum_fold: "ones_sum (n mod 65536 + n div 65536) = ones_sum n"
proof (cases "n = 0")
  case False
  let ?k = "n mod 65536 + n div 65536"
  have k: "?k \<noteq> 0" using False by (metis add_is_0 div_mult_mod_eq mult_0)
  have "n = ?k + 65535 * (n div 65536)" using div_mult_mod_eq [of n 65536] by linarith
  then have "n - 1 = (?k - 1) + 65535 * (n div 65536)" using k by linarith
  then have "(n - 1) mod 65535 = (?k - 1) mod 65535" by (metis mod_mult_self2)
  then show ?thesis using k False by (simp add: ones_sum_def)
qed simp

lemma fold_carry_exact: "unat (fold_carry t) = ones_sum (unat t)"
proof (induction t rule: fold_carry.induct)
  case (1 t)
  show ?case
  proof (cases "drop_bit 16 t = 0")
    case True
    then have "unat t < 65536" by (simp add: drop16_zero)
    then have "ones_sum (unat t) = unat t" by (simp add: ones_sum_def)
    then show ?thesis using True by (subst fold_carry.simps) simp
  next
    case False
    then show ?thesis using 1 by (subst fold_carry.simps) (simp add: unat_fold_step ones_sum_fold)
  qed
qed

lemma ones_sum_le: "ones_sum n \<le> 65535"
  using mod_less_divisor [of 65535 "n - 1"] unfolding ones_sum_def by (cases "n = 0") auto

text \<open>When a checksum field completes a sum to all ones.\<close>

lemma ones_sum_complete:
  assumes "0 < s" "c \<le> 65535"
  shows "c = 65535 - ones_sum s \<longleftrightarrow> ones_sum (s + c) = 65535 \<and> c \<noteq> 65535"
proof -
  define r where "r = ones_sum s"
  have r: "0 < r" "r \<le> 65535" using assms ones_sum_le [of s] by (auto simp: r_def ones_sum_def)
  have "s - 1 = 65535 * ((s - 1) div 65535) + (r - 1)" using assms(1) by (simp add: r_def ones_sum_def)
  then have "s + c - 1 = 65535 * ((s - 1) div 65535) + (r + c - 1)" using assms(1) r by linarith
  then have "(s + c - 1) mod 65535 = (r + c - 1) mod 65535" by (metis mod_mult_self4 mult.commute)
  then have "ones_sum (s + c) = 65535 \<longleftrightarrow> (r + c - 1) mod 65535 = 65534" using assms(1) by (simp add: ones_sum_def)
  also have "\<dots> \<longleftrightarrow> r + c = 65535 \<or> r + c = 131070"
  proof (cases "r + c \<le> 65535")
    case True then show ?thesis using r by (auto simp: mod_less)
  next
    case False
    then have "(r + c - 1) mod 65535 = (r + c - 1 - 65535) mod 65535" by (intro le_mod_geq) simp
    also have "\<dots> = r + c - 1 - 65535" using r assms(2) by (intro mod_less) simp
    finally show ?thesis using r assms(2) False by auto
  qed
  finally show ?thesis using r assms(2) unfolding r_def [symmetric] by auto
qed

section \<open>Headers in memory\<close>

lemma mem16_load: "2 \<le> length p \<Longrightarrow> mem16 (badvpn_read_le16 p) = take 2 p"
  by (cases p; cases "tl p")
    (auto simp: mem16_def badvpn_read_le16_def bit_simps bit_u8_high intro!: bit_word_eqI)

lemma mem32_load: "4 \<le> length p \<Longrightarrow> mem32 (badvpn_read_le32 p) = take 4 p"
proof -
  assume "4 \<le> length p"
  then obtain a b c d r where "p = a # b # c # d # r"
    by (metis (no_types, opaque_lifting) Suc_le_length_iff numeral_eq_Suc pred_numeral_simps(2,3) semiring_norm(26,27))
  then show ?thesis
    by (auto simp: mem32_def badvpn_read_le32_def bit_simps bit_u8_high intro!: bit_word_eqI)
qed

lemma load_mem16: "badvpn_read_le16 (mem16 x @ r) = x"
  using read_write_le16 [of x r] by (simp add: mem16_def badvpn_write_le16_def)

lemma load_mem32: "badvpn_read_le32 (mem32 x @ r) = x"
  using read_write_le32 [of x r] by (simp add: mem32_def badvpn_write_le32_def)

lemma length_headers [simp]:
  "length (ipv4_header_bytes h4) = 20" "length (udp_header_bytes u) = 8"
  by (simp_all add: ipv4_header_bytes_def udp_header_bytes_def)

lemma take2: "2 \<le> length p \<Longrightarrow> take 2 p = [p ! 0, p ! 1]"
  by (cases p; cases "tl p") auto

lemma ipv4_load_bytes [simp]: "ipv4_header_load (ipv4_header_bytes h @ r) = h"
  by (simp add: ipv4_header_load_def ipv4_header_bytes_def load_mem16 load_mem32 nth_append)

lemma udp_load_bytes [simp]: "udp_header_load (udp_header_bytes h @ r) = h"
  by (simp add: udp_header_load_def udp_header_bytes_def load_mem16)

lemma ipv4_bytes_load: "20 \<le> length p \<Longrightarrow> ipv4_header_bytes (ipv4_header_load p) = take 20 p"
proof -
  assume p: "20 \<le> length p"
  have "take 20 p = take 2 p @ take 2 (drop 2 p) @ take 2 (drop 4 p) @ take 2 (drop 6 p) @ take 2 (drop 8 p) @
      take 2 (drop 10 p) @ take 4 (drop 12 p) @ take 4 (drop 16 p)"
    using take_add [of 2 18 p] take_add [of 2 16 "drop 2 p"] take_add [of 2 14 "drop 4 p"] take_add [of 2 12 "drop 6 p"]
      take_add [of 2 10 "drop 8 p"] take_add [of 2 8 "drop 10 p"] take_add [of 4 4 "drop 12 p"] by simp
  then show ?thesis using p
    by (simp add: ipv4_header_bytes_def ipv4_header_load_def mem16_load mem32_load take2)
qed

lemma udp_bytes_load: "8 \<le> length p \<Longrightarrow> udp_header_bytes (udp_header_load p) = take 8 p"
  using take_add [of 2 6 p] take_add [of 2 4 "drop 2 p"] take_add [of 2 2 "drop 4 p"]
  by (simp add: udp_header_bytes_def udp_header_load_def mem16_load)

lemma hton16_be: "hton16 x = badvpn_read_be16 (mem16 x)"
  by (simp add: hton16_def badvpn_reverse16_def badvpn_read_le16_def badvpn_read_be16_def)

lemma hton16_hton16 [simp]: "hton16 (hton16 x) = x"
  using read_write_be16 [of x "[]"] by (simp add: hton16_be [of "hton16 x"])

lemma hton16_inject [simp]: "hton16 x = hton16 y \<longleftrightarrow> x = y"
  by (metis hton16_hton16)

lemma sum16_mem16: "sum16 (mem16 x) = unat (hton16 x)"
  by (simp add: hton16_be mem16_def unat_be16)

lemma hton16_0 [simp]: "hton16 0 = 0"
  by (simp add: hton16_be mem16_def badvpn_read_be16_def)

lemma hton16_max [simp]: "hton16 0xFFFF = 0xFFFF"
  by code_simp

text \<open>The complement stored in a checksum field.\<close>

lemma unat_complement:
  assumes "unat t \<le> 65535"
  shows "unat (ucast (NOT t :: u32) :: u16) = 65535 - unat t"
proof -
  have "NOT t = - 1 - t" by (simp add: not_eq_complement)
  then have n: "unat (NOT t) = 2 ^ 32 - 1 - unat t" using unat_max_minus [of t] by simp
  have "unat (NOT t) = 65535 - unat t + 65536 * 65535" unfolding n using assms by simp
  then have "unat (NOT t) mod 65536 = (65535 - unat t) mod 65536" by (simp only: mod_mult_self2)
  also have "\<dots> = 65535 - unat t" by (intro mod_less) simp
  finally have "unat (NOT t) mod 65536 = 65535 - unat t" .
  then show ?thesis by (simp add: unsigned_ucast_eq take_bit_eq_mod)
qed

lemma field_completes:
  fixes c :: u16 and t :: u32
  assumes "unat t = ones_sum s" "0 < s"
  shows "c = hton16 (ucast (NOT t)) \<longleftrightarrow> ones_sum (s + sum16 (mem16 c)) = 65535 \<and> c \<noteq> 0xFFFF"
proof -
  have "c = hton16 (ucast (NOT t)) \<longleftrightarrow> unat (hton16 c) = unat (ucast (NOT t) :: u16)"
    by (metis hton16_hton16 unsigned_word_eqI word_unat_eq_iff)
  also have "\<dots> \<longleftrightarrow> unat (hton16 c) = 65535 - ones_sum s"
    using assms ones_sum_le [of s] by (simp add: unat_complement)
  also have "\<dots> \<longleftrightarrow> ones_sum (s + unat (hton16 c)) = 65535 \<and> unat (hton16 c) \<noteq> 65535"
    using unat_lt [of "hton16 c"] by (intro ones_sum_complete assms) simp
  also have "unat (hton16 c) = 65535 \<longleftrightarrow> hton16 c = hton16 0xFFFF"
    unfolding word_unat_eq_iff by simp
  finally show ?thesis by (simp only: sum16_mem16 hton16_inject)
qed

section \<open>What the checks accept\<close>

lemma mem16_ffff: "mem16 0xFFFF = [0xFF, 0xFF]"
  by code_simp

lemma sum16_ipv4_field:
  "sum16 (ipv4_header_bytes h) = sum16 (ipv4_header_bytes (h\<lparr>ip4_checksum := 0\<rparr>)) + sum16 (mem16 (ip4_checksum h))"
  by (simp add: ipv4_header_bytes_def mem16_def mem32_def)

lemma sum16_udp_field:
  "sum16 (udp_header_bytes h) = sum16 (udp_header_bytes (h\<lparr>udp_hchecksum := 0\<rparr>)) + sum16 (mem16 (udp_hchecksum h))"
  by (simp add: udp_header_bytes_def mem16_def)

lemma ipv4_checksum_exact:
  assumes "even (length opts)" "length opts \<le> 40" "0 < ip4_version4_ihl4 h"
  shows "ip4_checksum h = ipv4_checksum (h\<lparr>ip4_checksum := hton16 0\<rparr>) opts \<longleftrightarrow>
     ones_sum (sum16 (ipv4_header_bytes h @ opts)) = 65535 \<and> ip4_checksum h \<noteq> 0xFFFF"
proof -
  let ?b = "ipv4_header_bytes (h\<lparr>ip4_checksum := 0\<rparr>)"
  let ?s = "sum16 ?b + sum16 opts"
  have b: "sum16 ?b \<le> 10 * 65535" "sum16 opts \<le> 20 * 65535"
    using sum16_bound [of ?b] sum16_bound [of opts] assms(1,2) by auto
  have 1: "unat (add_be16 10 ?b 0) = sum16 ?b" using add_be16_exact [of 10 ?b 0] b by simp
  have "unat (add_be16 (length opts div 2) opts (add_be16 10 ?b 0)) = ?s"
    using add_be16_exact [of "length opts div 2" opts "add_be16 10 ?b 0"] assms(1) b by (simp add: 1)
  then have t: "unat (fold_carry (add_be16 (length opts div 2) opts (add_be16 10 ?b 0))) = ones_sum ?s"
    by (simp add: fold_carry_exact)
  have "0 < unat (ip4_version4_ihl4 h)" using assms(3) by (simp add: word_less_nat_alt)
  then have pos: "0 < ?s" by (simp add: ipv4_header_bytes_def)
  have "sum16 (ipv4_header_bytes h @ opts) = ?s + sum16 (mem16 (ip4_checksum h))"
    by (simp add: sum16_append sum16_ipv4_field [of h])
  then show ?thesis using field_completes [OF t pos, of "ip4_checksum h"] by (simp add: ipv4_checksum_def Let_def)
qed

lemma nibbles:
  fixes x :: u8
  shows "unat (drop_bit 4 (x AND 0xF0)) = unat x div 16" "unat (x AND 0x0F) = unat x mod 16" "unat (drop_bit 4 x) = unat x div 16"
proof -
  have "x AND 0x0F = take_bit 4 x" by (simp add: take_bit_eq_mask mask_eq_exp_minus_1)
  then show "unat (x AND 0x0F) = unat x mod 16" by (simp add: take_bit_eq_mod unat_mod)
  have "drop_bit 4 (x AND 0xF0) = take_bit 4 (drop_bit 4 x)"
    by (simp add: drop_bit_and take_bit_eq_mask mask_eq_exp_minus_1)
  then have "unat (drop_bit 4 (x AND 0xF0)) = (unat x div 16) mod 16"
    by (simp add: drop_bit_eq_div take_bit_eq_mod unat_div unat_mod)
  then show "unat (drop_bit 4 (x AND 0xF0)) = unat x div 16" using u8_lt [of x] by simp
  show "unat (drop_bit 4 x) = unat x div 16" by (simp add: drop_bit_eq_div unat_div)
qed

lemma read_ntoh16: "2 \<le> length p \<Longrightarrow> unat (ntoh16 (badvpn_read_le16 p)) = unat (p ! 0) * 256 + unat (p ! 1)"
  by (simp add: ntoh16_def hton16_be mem16_load take2 unat_be16)

lemma version_eq: "IPV4_GET_VERSION h = 4 \<longleftrightarrow> unat (ip4_version4_ihl4 h) div 16 = 4"
  unfolding IPV4_GET_VERSION_def word_unat_eq_iff nibbles(1) by simp

text \<open>
  C31: The IPv4 check accepts exactly the packets of RFC 791: version 4, a header length of at
  least 20 bytes, a total length between it and the bytes received, and header words whose
  one's complement sum is all ones, except that a checksum field of 0xFFFF is never accepted.
  It delivers the header as loaded, its length and the bytes between the two lengths.
\<close>

theorem ipv4_check_exact:
  "ipv4_check data = Some (h, hl, payload) \<longleftrightarrow>
     20 \<le> length data \<and> h = ipv4_header_load data \<and> unat (data ! 0) div 16 = 4 \<and> hl = 4 * (unat (data ! 0) mod 16) \<and>
     20 \<le> hl \<and> hl \<le> unat (data ! 2) * 256 + unat (data ! 3) \<and> unat (data ! 2) * 256 + unat (data ! 3) \<le> length data \<and>
     ones_sum (sum16 (take hl data)) = 65535 \<and> get_at 10 2 data \<noteq> [0xFF, 0xFF] \<and>
     payload = get_at hl (unat (data ! 2) * 256 + unat (data ! 3) - hl) data"
proof (cases "20 \<le> length data \<and> unat (data ! 0) div 16 = 4")
  case False
  then show ?thesis
    by (auto simp: ipv4_check_def Let_def version_eq ipv4_header_load_def)
next
  case True
  let ?h = "ipv4_header_load data" and ?hl = "4 * (unat (data ! 0) mod 16)"
  let ?opts = "get_at 20 (?hl - 20) data"
  have len: "20 \<le> length data" using True ..
  have v: "IPV4_GET_VERSION ?h = 4" using True by (simp add: version_eq ipv4_header_load_def)
  have ihl: "unat (IPV4_GET_IHL ?h) * 4 = ?hl"
    by (simp add: IPV4_GET_IHL_def ipv4_header_load_def nibbles)
  have total: "unat (ntoh16 (ip4_total_length ?h)) = unat (data ! 2) * 256 + unat (data ! 3)"
    using len by (simp add: ipv4_header_load_def read_ntoh16)
  have sum: "ip4_checksum ?h = ipv4_checksum (?h\<lparr>ip4_checksum := hton16 0\<rparr>) ?opts \<longleftrightarrow>
      ones_sum (sum16 (take ?hl data)) = 65535 \<and> get_at 10 2 data \<noteq> [0xFF, 0xFF]"
    if hl: "20 \<le> ?hl" "?hl \<le> length data"
  proof -
    have "take ?hl data = ipv4_header_bytes ?h @ ?opts"
      using True hl take_add [of 20 "?hl - 20" data] by (simp add: ipv4_bytes_load get_at_def)
    moreover have "even (length ?opts)" "length ?opts \<le> 40" "0 < ip4_version4_ihl4 ?h"
      using hl True by (auto simp: ipv4_header_load_def word_less_nat_alt)
    moreover have "mem16 (ip4_checksum ?h) = get_at 10 2 data"
      using len by (simp add: ipv4_header_load_def mem16_load get_at_def)
    then have "ip4_checksum ?h = 0xFFFF \<longleftrightarrow> get_at 10 2 data = [0xFF, 0xFF]"
      by (metis (no_types, lifting) load_mem16 append_Nil2 mem16_ffff)
    ultimately show ?thesis using ipv4_checksum_exact [of ?opts ?h] by simp
  qed
  show ?thesis
    using True sum unfolding ipv4_check_def Let_def v ihl total by auto
qed

text \<open>The UDP checksums, with the sum of the pseudo header as a parameter.\<close>

lemma summer_exact:
  "even (length p) \<Longrightarrow> length p \<le> 65536 \<Longrightarrow> unat (udp_checksum_summer p) = sum16 p"
  unfolding udp_checksum_summer_def
  using add_be16_exact [of "length p div 2" p 0] sum16_bound [of p] by auto

lemma sum16_odd: "odd (length p) \<Longrightarrow> sum16 p = sum16 (take (length p - 1) p) + unat (p ! (length p - 1)) * 256"
proof (induction p rule: sum16.induct)
  case (3 a b r)
  then have "r \<noteq> []" by auto
  then show ?case using 3 by (cases r) (auto simp: take_Cons')
qed auto

lemma odd_byte: "unat (udp_checksum_summer (badvpn_write_be16 (push_bit 8 (ucast b)))) = unat b * 256" for b :: u8
proof -
  have "badvpn_write_be16 (push_bit 8 (ucast b)) = [b, 0]"
    by (simp add: badvpn_write_be16_def) (auto intro!: bit_word_eqI simp: bit_simps bit_u8_high)
  then show ?thesis using summer_exact [of "[b, 0]"] by simp
qed

lemma udp_sum_payload_exact:
  assumes "length payload \<le> 65535" "unat t \<le> 100 * 65535"
  shows "unat (udp_sum_payload payload t) = unat t + sum16 payload"
proof (cases "even (length payload)")
  case True
  then show ?thesis
    using assms sum16_bound [of payload] summer_exact [of payload]
    by (simp add: udp_sum_payload_def unat_word_ariths)
next
  case False
  let ?i = "take (length payload - 1) payload" and ?b = "payload ! (length payload - 1)"
  have i: "unat (udp_checksum_summer ?i) = sum16 ?i" using assms False by (intro summer_exact) auto
  have "sum16 payload \<le> 32768 * 65535" using sum16_bound [of payload] assms by linarith
  then show ?thesis
    using False assms(2) i sum16_odd [OF False]
    by (simp add: udp_sum_payload_def unat_word_ariths odd_byte)
qed

lemma udp_finish_exact:
  assumes "unat t = s" "0 < s"
  shows "c = udp_sum_finish t \<longleftrightarrow> ones_sum (s + sum16 (mem16 c)) = 65535 \<and> c \<noteq> 0xFFFF"
proof -
  have f: "unat (fold_carry t) = ones_sum s" using assms by (simp add: fold_carry_exact)
  then have "fold_carry t \<noteq> 0" using assms(2) by (auto simp: ones_sum_def)
  then show ?thesis using field_completes [OF f assms(2), of c] by (simp add: udp_sum_finish_def Let_def)
qed

text \<open>The bytes covered by the checksum of a UDP datagram.\<close>

definition udp4_covered :: "udp_header \<Rightarrow> bytes \<Rightarrow> u32 \<Rightarrow> u32 \<Rightarrow> bytes" where
  "udp4_covered h payload s d =
     mem32 s @ mem32 d @ [0, 17] @ badvpn_write_be16 (of_nat (8 + length payload)) @ udp_header_bytes h @ payload"

definition udp6_covered :: "udp_header \<Rightarrow> bytes \<Rightarrow> bytes \<Rightarrow> bytes \<Rightarrow> bytes" where
  "udp6_covered h payload s d =
     s @ d @ badvpn_write_be32 (of_nat (8 + length payload)) @ [0, 0, 0, 17] @ udp_header_bytes h @ payload"

lemma udp_fixed_parts:
  "badvpn_write_be16 (ucast IPV4_PROTOCOL_UDP) = [0, 17]" "badvpn_write_be32 (ucast IPV6_NEXT_UDP) = [0, 0, 0, 17]"
  by code_simp+

lemma small_part: "even (length p) \<Longrightarrow> length p \<le> 16 \<Longrightarrow> unat (udp_checksum_summer p) \<le> 8 * 65535"
  using summer_exact [of p] sum16_bound [of p] by auto

text \<open>
  A UDP datagram over IPv4 passes the comparison with \<^verbatim>\<open>udp_checksum\<close> exactly when the
  one's complement sum of the pseudo header, the UDP header and the payload is all ones
  (RFC 768) and its checksum field is not 0xFFFF.
\<close>

theorem udp_checksum_exact:
  assumes "length payload \<le> 65527"
  shows "udp_hchecksum h = udp_checksum (h\<lparr>udp_hchecksum := 0\<rparr>) payload s d \<longleftrightarrow>
     ones_sum (sum16 (udp4_covered h payload s d)) = 65535 \<and> udp_hchecksum h \<noteq> 0xFFFF"
proof -
  let ?h = "h\<lparr>udp_hchecksum := 0\<rparr>" and ?l = "badvpn_write_be16 (of_nat (8 + length payload))"
  let ?t = "udp_checksum_summer (mem32 s) + udp_checksum_summer (mem32 d) + udp_checksum_summer [0, 17] +
     udp_checksum_summer ?l + udp_checksum_summer (udp_header_bytes ?h)"
  let ?s = "sum16 (mem32 s) + sum16 (mem32 d) + sum16 [0, 17] + sum16 ?l + sum16 (udp_header_bytes ?h)"
  have t: "unat ?t = ?s" "unat ?t \<le> 100 * 65535"
    using small_part [of "mem32 s"] small_part [of "mem32 d"] small_part [of "[0, 17]"] small_part [of ?l]
      small_part [of "udp_header_bytes ?h"]
    by (simp_all add: unat_word_ariths summer_exact)
  have p: "unat (udp_sum_payload payload ?t) = ?s + sum16 payload"
    using udp_sum_payload_exact [of payload ?t] assms t by simp
  have z: "0 < ?s + sum16 payload" by simp
  have c: "sum16 (udp4_covered h payload s d) = ?s + sum16 payload + sum16 (mem16 (udp_hchecksum h))"
    by (simp add: udp4_covered_def sum16_append sum16_udp_field [of h])
  have u: "udp_checksum ?h payload s d = udp_sum_finish (udp_sum_payload payload ?t)"
    by (simp add: udp_checksum_def udp_fixed_parts)
  show ?thesis unfolding c u by (rule udp_finish_exact [OF p z])
qed

lemma udp_checksum_exact_witness:
  "udp_checksum \<lparr>udp_source_port = 0x3930, udp_dest_port = 0x3500, udp_length = 0x0B00, udp_hchecksum = 0\<rparr>
     [1, 2, 3] 0x0200000A 0x08080808 = 0x56B1 \<and>
   ones_sum (sum16 (udp4_covered \<lparr>udp_source_port = 0x3930, udp_dest_port = 0x3500, udp_length = 0x0B00, udp_hchecksum = 0x56B1\<rparr>
     [1, 2, 3] 0x0200000A 0x08080808)) = 65535"
proof -
  let ?h = "\<lparr>udp_source_port = 0x3930, udp_dest_port = 0x3500, udp_length = 0x0B00, udp_hchecksum = 0x56B1\<rparr>"
  have c: "udp_checksum \<lparr>udp_source_port = 0x3930, udp_dest_port = 0x3500, udp_length = 0x0B00, udp_hchecksum = 0\<rparr>
     [1, 2, 3] 0x0200000A 0x08080808 = 0x56B1" by code_simp
  then show ?thesis using udp_checksum_exact [of "[1, 2, 3]" ?h "0x0200000A" "0x08080808"] by simp
qed

lemma udp6_checksum_exact:
  assumes "length payload \<le> 65527" "length s = 16" "length d = 16"
  shows "udp_hchecksum h = udp_ip6_checksum (h\<lparr>udp_hchecksum := 0\<rparr>) payload s d \<longleftrightarrow>
     ones_sum (sum16 (udp6_covered h payload s d)) = 65535 \<and> udp_hchecksum h \<noteq> 0xFFFF"
proof -
  let ?h = "h\<lparr>udp_hchecksum := 0\<rparr>" and ?l = "badvpn_write_be32 (of_nat (8 + length payload))"
  let ?t = "udp_checksum_summer s + udp_checksum_summer d + udp_checksum_summer ?l +
     udp_checksum_summer [0, 0, 0, 17] + udp_checksum_summer (udp_header_bytes ?h)"
  let ?s = "sum16 s + sum16 d + sum16 ?l + sum16 [0, 0, 0, 17] + sum16 (udp_header_bytes ?h)"
  have t: "unat ?t = ?s" "unat ?t \<le> 100 * 65535"
    using small_part [of s] small_part [of d] small_part [of "[0, 0, 0, 17]"] small_part [of ?l]
      small_part [of "udp_header_bytes ?h"] assms
    by (simp_all add: unat_word_ariths summer_exact)
  have p: "unat (udp_sum_payload payload ?t) = ?s + sum16 payload"
    using udp_sum_payload_exact [of payload ?t] assms t by simp
  have z: "0 < ?s + sum16 payload" by simp
  have c: "sum16 (udp6_covered h payload s d) = ?s + sum16 payload + sum16 (mem16 (udp_hchecksum h))"
    using assms by (simp add: udp6_covered_def sum16_append sum16_udp_field [of h])
  have u: "udp_ip6_checksum ?h payload s d = udp_sum_finish (udp_sum_payload payload ?t)"
    using assms by (simp add: udp_ip6_checksum_def udp_fixed_parts)
  show ?thesis unfolding c u by (rule udp_finish_exact [OF p z])
qed

text \<open>
  C32: Neither UDP checksum function ever returns 0xFFFF, the value RFC 768 prescribes for a
  datagram whose computed checksum is zero: the test for zero is made before the complement.
\<close>

theorem udp_checksum_never_ffff:
  "udp_checksum h payload s d \<noteq> 0xFFFF \<and> udp_ip6_checksum h payload s6 d6 \<noteq> 0xFFFF"
proof -
  have "udp_sum_finish t \<noteq> 0xFFFF" for t
  proof -
    define r where "r = (if fold_carry t = 0 then 0xFFFF else fold_carry t)"
    have "unat r \<noteq> 0" "unat r \<le> 65535"
      using ones_sum_le [of "unat t"] by (auto simp: r_def unat_eq_0 fold_carry_exact)
    then have "unat (ucast (NOT r) :: u16) \<noteq> 65535" by (simp add: unat_complement)
    then have "ucast (NOT r) \<noteq> (0xFFFF :: u16)" by (auto simp: word_unat_eq_iff)
    then have "hton16 (ucast (NOT r)) \<noteq> hton16 0xFFFF" unfolding hton16_inject .
    then show ?thesis by (simp add: udp_sum_finish_def Let_def r_def)
  qed
  then show ?thesis by (simp add: udp_checksum_def udp_ip6_checksum_def)
qed

end
