(* ===== verification/Parse_Number.thy ===== *)
theory Parse_Number
  imports Prelude
begin

text \<open>
  Numbers as text: \<^verbatim>\<open>misc/parse_number.h\<close> and the search of \<^verbatim>\<open>misc/find_char.h\<close>. A character
  pointer with a length is a \<^typ>\<open>string\<close>; \<^verbatim>\<open>uintmax_t\<close> is a 64-bit word. The lemmas relate the
  parsers, which must not overflow, to the value of a digit string as a natural number.
\<close>

section \<open>Digits\<close>

definition decode_decimal_digit :: "char \<Rightarrow> int" where
  "decode_decimal_digit c =
     (if c = CHR ''0'' then 0 else if c = CHR ''1'' then 1 else if c = CHR ''2'' then 2 else
      if c = CHR ''3'' then 3 else if c = CHR ''4'' then 4 else if c = CHR ''5'' then 5 else
      if c = CHR ''6'' then 6 else if c = CHR ''7'' then 7 else if c = CHR ''8'' then 8 else
      if c = CHR ''9'' then 9 else - 1)"

definition decode_hex_digit :: "char \<Rightarrow> int" where
  "decode_hex_digit c =
     (if c = CHR ''0'' then 0 else if c = CHR ''1'' then 1 else if c = CHR ''2'' then 2 else
      if c = CHR ''3'' then 3 else if c = CHR ''4'' then 4 else if c = CHR ''5'' then 5 else
      if c = CHR ''6'' then 6 else if c = CHR ''7'' then 7 else if c = CHR ''8'' then 8 else
      if c = CHR ''9'' then 9 else
      if c = CHR ''A'' \<or> c = CHR ''a'' then 10 else if c = CHR ''B'' \<or> c = CHR ''b'' then 11 else
      if c = CHR ''C'' \<or> c = CHR ''c'' then 12 else if c = CHR ''D'' \<or> c = CHR ''d'' then 13 else
      if c = CHR ''E'' \<or> c = CHR ''e'' then 14 else if c = CHR ''F'' \<or> c = CHR ''f'' then 15 else - 1)"

section \<open>Parsers\<close>

definition UINTMAX_MAX :: u64 where
  "UINTMAX_MAX = - 1"

definition parse_number__uintmax_max_str :: string where
  "parse_number__uintmax_max_str = ''18446744073709551615''"

text \<open>\<^verbatim>\<open>memcmp\<close> of two ranges of the same length, as a sign.\<close>

fun memcmp :: "string \<Rightarrow> string \<Rightarrow> int" where
  "memcmp (a # s) (b # t) = (if a = b then memcmp s t else if (of_char a :: nat) < of_char b then - 1 else 1)"
| "memcmp _ _ = 0"

fun parse__no_overflow :: "string \<Rightarrow> u64 \<Rightarrow> u64 option" where
  "parse__no_overflow [] n = Some n"
| "parse__no_overflow (c # s) n =
     (if (of_char c :: nat) < 48 \<or> (of_char c :: nat) > 57 then None
      else parse__no_overflow s (10 * n + of_nat (of_char c - 48)))"

definition parse_unsigned_integer_bin :: "string \<Rightarrow> u64 option" where
  "parse_unsigned_integer_bin str =
     (if str = [] then None else
      let s = dropWhile (\<lambda>c. c = CHR ''0'') str in
      if length s > length parse_number__uintmax_max_str \<or>
         length s = length parse_number__uintmax_max_str \<and> memcmp s parse_number__uintmax_max_str > 0
      then None else parse__no_overflow s 0)"

fun parse_hex_loop :: "string \<Rightarrow> u64 \<Rightarrow> u64 option" where
  "parse_hex_loop [] n = Some n"
| "parse_hex_loop (c # s) n =
     (let digit = decode_hex_digit c in
      if digit < 0 then None else
      if n > UINTMAX_MAX div 16 then None else
      let n = n * 16 in
      if word_of_int digit > UINTMAX_MAX - n then None else
      parse_hex_loop s (n + word_of_int digit))"

definition parse_unsigned_hex_integer_bin :: "string \<Rightarrow> u64 option" where
  "parse_unsigned_hex_integer_bin str = (if str = [] then None else parse_hex_loop str 0)"

definition parse_signmag_integer_bin :: "string \<Rightarrow> (int \<times> u64) option" where
  "parse_signmag_integer_bin str =
     (let (sign, s) = (case str of
          c # r \<Rightarrow> if c = CHR ''+'' \<or> c = CHR ''-'' then (1 - 2 * of_bool (c = CHR ''-''), r) else (1, str)
        | [] \<Rightarrow> (1, str))
      in map_option (\<lambda>mag. (sign, mag)) (parse_unsigned_integer_bin s))"

section \<open>Generation\<close>

lemma div10_less: "x div 10 > 0 \<Longrightarrow> unat (x div 10) < unat x" for x :: u64
  by (cases "unat x = 0") (auto simp: unat_div word_less_nat_alt)

function compute_decimal_repr_size :: "u64 \<Rightarrow> int" where
  "compute_decimal_repr_size x =
     (let x' = x div 10 in if x' > 0 then 1 + compute_decimal_repr_size x' else 1)"
  by auto
termination
  by (relation "measure unat") (use div10_less in auto)

text \<open>Digits are written from the end of the representation towards its start.\<close>

function write_digits :: "u64 \<Rightarrow> string \<Rightarrow> nat \<Rightarrow> string" where
  "write_digits x out pos =
     (let out' = out[pos - 1 := char_of (48 + unat (x mod 10))]; x' = x div 10 in
      if x' > 0 then write_digits x' out' (pos - 1) else out')"
  by auto
termination
  by (relation "measure (\<lambda>(x, _, _). unat x)") (use div10_less in auto)

declare compute_decimal_repr_size.simps [simp del] write_digits.simps [simp del]

definition generate_decimal_repr :: "u64 \<Rightarrow> string \<Rightarrow> int \<Rightarrow> string" where
  "generate_decimal_repr x out repr_size = write_digits x out (nat repr_size)"

definition generate_decimal_repr_string :: "u64 \<Rightarrow> string \<Rightarrow> string \<times> int" where
  "generate_decimal_repr_string x out =
     (let repr_size = compute_decimal_repr_size x; out = generate_decimal_repr x out repr_size
      in (out[nat repr_size := CHR 0x00], repr_size))"

text \<open>\<^verbatim>\<open>b_find_char_bin\<close>: the first position of a character.\<close>

fun b_find_char_bin :: "string \<Rightarrow> char \<Rightarrow> nat option" where
  "b_find_char_bin [] c = None"
| "b_find_char_bin (x # s) c = (if x = c then Some 0 else map_option Suc (b_find_char_bin s c))"

section \<open>Values of digit strings\<close>

definition is_digit :: "char \<Rightarrow> bool" where
  "is_digit c \<longleftrightarrow> (48::nat) \<le> of_char c \<and> (of_char c :: nat) \<le> 57"

definition digit_val :: "char \<Rightarrow> nat" where
  "digit_val c = of_char c - 48"

fun dec_val :: "nat \<Rightarrow> string \<Rightarrow> nat" where
  "dec_val n [] = n"
| "dec_val n (c # s) = dec_val (10 * n + digit_val c) s"

lemma dec_val_shift: "dec_val n s = n * 10 ^ length s + dec_val 0 s"
proof (induction s arbitrary: n)
  case (Cons c s)
  show ?case using Cons [of "10 * n + digit_val c"] Cons [of "digit_val c"] by (simp add: algebra_simps)
qed simp

lemma digit_val_le: "is_digit c \<Longrightarrow> digit_val c \<le> 9"
  by (auto simp: is_digit_def digit_val_def)

lemma dec_val_less: "list_all is_digit s \<Longrightarrow> dec_val 0 s < 10 ^ length s"
proof (induction s)
  case (Cons c s)
  then have "digit_val c * 10 ^ length s \<le> 9 * 10 ^ length s" "dec_val 0 s < 10 ^ length s"
    using digit_val_le [of c] by simp_all
  moreover have "dec_val 0 (c # s) = digit_val c * 10 ^ length s + dec_val 0 s"
    by (simp add: dec_val_shift [of "digit_val c"])
  moreover have "(10::nat) ^ length (c # s) = 10 * 10 ^ length s" by simp
  ultimately show ?case by linarith
qed simp

text \<open>On digit strings of one length, \<^verbatim>\<open>memcmp\<close> compares the values.\<close>

lemma memcmp_value:
  "list_all is_digit s \<Longrightarrow> list_all is_digit t \<Longrightarrow> length s = length t \<Longrightarrow>
     memcmp s t > 0 \<longleftrightarrow> dec_val 0 t < dec_val 0 s"
proof (induction s t rule: memcmp.induct)
  case (1 a s b t)
  show ?case
  proof (cases "a = b")
    case True
    then show ?thesis using 1 by (simp add: dec_val_shift [of "digit_val b"])
  next
    case False
    have ab: "digit_val a < digit_val b \<longleftrightarrow> (of_char a :: nat) < of_char b"
      "digit_val b < digit_val a \<longleftrightarrow> \<not> (of_char a :: nat) < of_char b"
    proof -
      have "(of_char a :: nat) \<noteq> of_char b" using False by simp
      moreover have "(48 :: nat) \<le> of_char a" "(48 :: nat) \<le> of_char b" using 1(2,3) by (simp_all add: is_digit_def)
      ultimately show "digit_val a < digit_val b \<longleftrightarrow> (of_char a :: nat) < of_char b"
        "digit_val b < digit_val a \<longleftrightarrow> \<not> (of_char a :: nat) < of_char b"
        unfolding digit_val_def by linarith+
    qed
    have *: "d1 * 10 ^ k + x < d2 * 10 ^ k + y" if "d1 < d2" "x < 10 ^ k" for d1 d2 x y k :: nat
      using that mult_right_mono [of "Suc d1" d2 "10 ^ k"] by simp
    have "dec_val 0 s < 10 ^ length t" "dec_val 0 t < 10 ^ length t"
      using 1 dec_val_less [of s] dec_val_less [of t] by auto
    then show ?thesis
      using False * [of "digit_val a" "digit_val b" "dec_val 0 s" "length t" "dec_val 0 t"] 1(4)
        * [of "digit_val b" "digit_val a" "dec_val 0 t" "length t" "dec_val 0 s"]
      by (cases "(of_char a :: nat) < of_char b")
        (simp_all add: ab dec_val_shift [of "digit_val b"] dec_val_shift [of "digit_val a"])
  qed
qed auto

section \<open>The decimal parser\<close>

lemma no_overflow_value:
  "parse__no_overflow s (of_nat n) = (if list_all is_digit s then Some (of_nat (dec_val n s)) else None)"
proof (induction s arbitrary: n)
  case (Cons c s)
  have "10 * of_nat n + of_nat (of_char c - 48) = (of_nat (10 * n + digit_val c) :: u64)"
    by (simp add: digit_val_def)
  then show ?case using Cons [of "10 * n + digit_val c"]
    by (auto simp: is_digit_def simp del: of_nat_add of_nat_mult)
qed simp

lemma dec_val_dropWhile: "dec_val 0 (dropWhile (\<lambda>c. c = CHR ''0'') s) = dec_val 0 s"
  by (induction s) (auto simp: digit_val_def)

lemma digits_dropWhile: "list_all is_digit (dropWhile (\<lambda>c. c = CHR ''0'') s) \<longleftrightarrow> list_all is_digit s"
  by (induction s) (auto simp: is_digit_def)

lemma dec_val_long:
  assumes "list_all is_digit s" "s \<noteq> []" "hd s \<noteq> CHR ''0''"
  shows "10 ^ (length s - 1) \<le> dec_val 0 s"
proof -
  obtain c r where s: "s = c # r" using assms(2) by (cases s) auto
  have "(of_char c :: nat) \<noteq> of_char (CHR ''0'')" using assms(3) unfolding s of_char_eq_iff by simp
  then have "1 \<le> digit_val c" using assms(1) by (auto simp: s digit_val_def is_digit_def)
  then show ?thesis by (simp add: s dec_val_shift [of "digit_val c"] trans_le_add1)
qed

lemma uintmax_max_str_facts:
  "length parse_number__uintmax_max_str = 20" "list_all is_digit parse_number__uintmax_max_str"
  "dec_val 0 parse_number__uintmax_max_str = 2 ^ 64 - 1"
  by (simp_all add: parse_number__uintmax_max_str_def is_digit_def digit_val_def)

lemma overflow_test:
  assumes d: "list_all is_digit d" and hd: "d = [] \<or> hd d \<noteq> CHR ''0''"
  shows "(length d > 20 \<or> length d = 20 \<and> memcmp d parse_number__uintmax_max_str > 0) \<longleftrightarrow> \<not> dec_val 0 d < 2 ^ 64"
proof -
  consider "length d < 20" | "length d = 20" | "length d > 20" by linarith
  then show ?thesis
  proof cases
    case 1
    have "dec_val 0 d < 10 ^ length d" using dec_val_less d .
    also have "(10::nat) ^ length d \<le> 10 ^ 19" using 1 by (intro power_increasing) auto
    also have "(10::nat) ^ 19 < 2 ^ 64" by simp
    finally have "dec_val 0 d < 2 ^ 64" .
    moreover have "\<not> 20 < length d" "length d \<noteq> 20" using 1 by simp_all
    ultimately show ?thesis by blast
  next
    case 2
    then have "memcmp d parse_number__uintmax_max_str > 0 \<longleftrightarrow> 2 ^ 64 - 1 < dec_val 0 d"
      using memcmp_value [OF d uintmax_max_str_facts(2)] unfolding uintmax_max_str_facts(1,3) by blast
    moreover have "2 ^ 64 - 1 < dec_val 0 d \<longleftrightarrow> \<not> dec_val 0 d < 2 ^ 64" by (rule iffI) simp_all
    ultimately show ?thesis using 2 less_irrefl [of "20 :: nat"] by metis
  next
    case 3
    then have "10 ^ (length d - 1) \<le> dec_val 0 d" using dec_val_long d hd by force
    moreover have "(10::nat) ^ 20 \<le> 10 ^ (length d - 1)" using 3 by (intro power_increasing) auto
    moreover have "(2::nat) ^ 64 < 10 ^ 20" by simp
    ultimately have "\<not> dec_val 0 d < 2 ^ 64" by linarith
    then show ?thesis using 3 by blast
  qed
qed

lemma parse_unsigned_digits:
  assumes "s \<noteq> []" "list_all is_digit s"
  shows "parse_unsigned_integer_bin s = (if dec_val 0 s < 2 ^ 64 then Some (of_nat (dec_val 0 s)) else None)"
proof -
  define d where "d = dropWhile (\<lambda>c. c = CHR ''0'') s"
  have d: "list_all is_digit d" "dec_val 0 d = dec_val 0 s"
    using assms by (simp_all add: d_def digits_dropWhile dec_val_dropWhile)
  have "d = [] \<or> hd d \<noteq> CHR ''0''" using hd_dropWhile [of "\<lambda>c. c = CHR ''0''" s] by (auto simp: d_def)
  then have "(length d > 20 \<or> length d = 20 \<and> memcmp d parse_number__uintmax_max_str > 0) \<longleftrightarrow> \<not> dec_val 0 s < 2 ^ 64"
    using overflow_test [of d] d by simp
  then show ?thesis
    using assms d no_overflow_value [of d 0]
    by (simp add: parse_unsigned_integer_bin_def Let_def d_def [symmetric] uintmax_max_str_facts)
qed

text \<open>
  C34: The decimal parser accepts exactly the non-empty strings of digits whose value, leading
  zeros included, fits into 64 bits, and returns that value.
\<close>

theorem parse_unsigned_exact:
  "parse_unsigned_integer_bin s =
     (if s \<noteq> [] \<and> list_all is_digit s \<and> dec_val 0 s < 2 ^ 64 then Some (of_nat (dec_val 0 s)) else None)"
proof (cases "s \<noteq> [] \<and> list_all is_digit s")
  case False
  then have "s = [] \<or> parse__no_overflow (dropWhile (\<lambda>c. c = CHR ''0'') s) 0 = None"
    using no_overflow_value [of "dropWhile (\<lambda>c. c = CHR ''0'') s" 0] by (auto simp: digits_dropWhile)
  then show ?thesis using False by (auto simp: parse_unsigned_integer_bin_def Let_def)
qed (simp add: parse_unsigned_digits)

section \<open>The hexadecimal parser\<close>

fun hex_val :: "nat \<Rightarrow> string \<Rightarrow> nat" where
  "hex_val n [] = n"
| "hex_val n (c # s) = hex_val (16 * n + nat (decode_hex_digit c)) s"

definition is_hex :: "char \<Rightarrow> bool" where
  "is_hex c \<longleftrightarrow> 0 \<le> decode_hex_digit c"

lemma decode_hex_bounds: "- 1 \<le> decode_hex_digit c" "decode_hex_digit c \<le> 15"
  by (simp_all add: decode_hex_digit_def)

lemma hex_val_ge: "n \<le> hex_val n s"
proof (induction s arbitrary: n)
  case (Cons c s)
  show ?case using Cons [of "16 * n + nat (decode_hex_digit c)"] by simp
qed simp

lemma parse_hex_value:
  "parse_hex_loop s n = (if list_all is_hex s \<and> hex_val (unat n) s < 2 ^ 64 then Some (of_nat (hex_val (unat n) s)) else None)"
proof (induction s arbitrary: n)
  case Nil
  then show ?case using unat_lt [of n] by simp
next
  case (Cons c s)
  let ?d = "decode_hex_digit c"
  have max16: "unat (UINTMAX_MAX div 16) = 2 ^ 60 - 1" by (simp add: UINTMAX_MAX_def unat_div unat_max_word)
  show ?case
  proof (cases "is_hex c \<and> unat n < 2 ^ 60")
    case True
    then have d: "0 \<le> ?d" "unat (word_of_int ?d :: u64) = nat ?d"
      using decode_hex_bounds [of c] by (simp_all add: is_hex_def unat_of_nonneg_int)
    have n16: "unat (n * 16) = unat n * 16" using True by (simp add: unat_word_ariths)
    have small: "nat ?d \<le> 15" using decode_hex_bounds [of c] by simp
    have "\<not> word_of_int ?d > UINTMAX_MAX - n * 16"
      using conjunct2 [OF True] small d(2) n16 by (simp add: UINTMAX_MAX_def word_less_nat_alt unat_max_minus)
    moreover have "unat (n * 16 + word_of_int ?d) = 16 * unat n + nat ?d"
      using True small d(2) n16 by (simp add: unat_word_ariths)
    moreover have "\<not> n > UINTMAX_MAX div 16" using True by (simp add: word_less_nat_alt max16)
    ultimately show ?thesis using True d Cons [of "n * 16 + word_of_int ?d"] by (simp add: Let_def)
  next
    case False
    have "2 ^ 64 \<le> hex_val (unat n) (c # s)" if "\<not> unat n < 2 ^ 60"
      using that hex_val_ge [of "16 * unat n + nat ?d" s] by simp
    then show ?thesis using False by (auto simp: Let_def is_hex_def word_less_nat_alt max16)
  qed
qed

lemma parse_hex_exact:
  "parse_unsigned_hex_integer_bin s =
     (if s \<noteq> [] \<and> list_all is_hex s \<and> hex_val 0 s < 2 ^ 64 then Some (of_nat (hex_val 0 s)) else None)"
  by (simp add: parse_unsigned_hex_integer_bin_def parse_hex_value)

section \<open>Decimal representation\<close>

text \<open>The decimal and hexadecimal conversions of \<^verbatim>\<open>printf\<close>.\<close>

fun show_dec :: "nat \<Rightarrow> string" where
  "show_dec n = (if n < 10 then [char_of (48 + n)] else show_dec (n div 10) @ [char_of (48 + n mod 10)])"

declare show_dec.simps [simp del]

lemma dec_val_append: "dec_val n (s @ t) = dec_val (dec_val n s) t"
  by (induction s arbitrary: n) auto

lemma of_char_digit: "n < 10 \<Longrightarrow> of_char (char_of (48 + n) :: char) = (48 + n :: nat)"
  by (simp add: of_char_of)

lemma is_digit_char: "n < 10 \<Longrightarrow> is_digit (char_of (48 + n :: nat))"
  by (simp add: is_digit_def of_char_digit)

lemma show_dec_props:
  "show_dec n \<noteq> []" "list_all is_digit (show_dec n)" "dec_val 0 (show_dec n) = n"
proof (induction n rule: show_dec.induct)
  case (1 n)
  { case 1 show ?case by (subst show_dec.simps) simp }
  { case 2 show ?case
      using 1 by (subst show_dec.simps) (simp add: is_digit_char) }
  { case 3 show ?case
      using 1 by (subst show_dec.simps) (simp add: dec_val_append digit_val_def of_char_digit) }
qed

lemma parse_show_dec: "n < 2 ^ 64 \<Longrightarrow> parse_unsigned_integer_bin (show_dec n) = Some (of_nat n)"
  using parse_unsigned_digits [of "show_dec n"] show_dec_props [of n] by simp

lemma repr_size_eq: "compute_decimal_repr_size x = int (length (show_dec (unat x)))"
proof (induction x rule: compute_decimal_repr_size.induct)
  case (1 x)
  have "x div 10 > 0 \<longleftrightarrow> \<not> unat x < 10" by (simp add: word_less_nat_alt unat_div div_greater_zero_iff not_less)
  then show ?case
    using 1 by (subst compute_decimal_repr_size.simps, subst show_dec.simps) (auto simp: unat_div Let_def)
qed

lemma write_digits_eq:
  "length (show_dec (unat x)) \<le> pos \<Longrightarrow> pos \<le> length out \<Longrightarrow>
     write_digits x out pos = take (pos - length (show_dec (unat x))) out @ show_dec (unat x) @ drop pos out"
proof (induction x out pos rule: write_digits.induct)
  case (1 x out pos)
  have pos: "0 < pos" using 1(2) show_dec_props(1) [of "unat x"] by (cases "show_dec (unat x)") auto
  have gt: "x div 10 > 0 \<longleftrightarrow> \<not> unat x < 10" by (simp add: word_less_nat_alt unat_div div_greater_zero_iff not_less)
  have upd: "out[pos - 1 := c] = take (pos - 1) out @ c # drop pos out" for c
    using pos 1(3) by (simp add: upd_conv_take_nth_drop)
  show ?case
  proof (cases "unat x < 10")
    case True
    then show ?thesis using gt upd
      by (subst write_digits.simps, subst (1 2) show_dec.simps) (simp add: Let_def unat_mod)
  next
    case False
    have s: "show_dec (unat x) = show_dec (unat (x div 10)) @ [char_of (48 + unat x mod 10)]"
      using False by (subst show_dec.simps) (simp add: unat_div)
    let ?o = "out[pos - 1 := char_of (48 + unat (x mod 10))]"
    have "write_digits x out pos = write_digits (x div 10) ?o (pos - 1)"
      using gt False by (subst write_digits.simps) (simp add: Let_def)
    also have "\<dots> = take (pos - 1 - length (show_dec (unat (x div 10)))) ?o @ show_dec (unat (x div 10)) @ drop (pos - 1) ?o"
      using 1(1) [OF refl refl] 1(2,3) gt False s by simp
    also have "drop (pos - 1) ?o = char_of (48 + unat x mod 10) # drop pos out"
      using upd pos 1(3) by (simp add: unat_mod)
    also have "take (pos - 1 - length (show_dec (unat (x div 10)))) ?o = take (pos - length (show_dec (unat x))) out"
      by (simp add: s)
    finally show ?thesis using s by simp
  qed
qed

text \<open>
  Writing a number into a buffer that has room for it and a terminator stores digits that
  parse back to the number, then the terminator, and leaves the rest of the buffer alone.
\<close>

theorem decimal_round_trip:
  assumes "compute_decimal_repr_size x < int (length out)"
  shows "case generate_decimal_repr_string x out of (r, n) \<Rightarrow>
     parse_unsigned_integer_bin (take (nat n) r) = Some x \<and> r ! nat n = CHR 0x00 \<and>
     drop (Suc (nat n)) r = drop (Suc (nat n)) out \<and> length r = length out"
proof -
  let ?s = "show_dec (unat x)"
  have "length ?s < length out" using assms by (simp add: repr_size_eq)
  moreover have "unat x < 2 ^ 64" using unat_lt [of x] by simp
  ultimately show ?thesis
    using parse_show_dec [of "unat x"]
    by (simp add: generate_decimal_repr_string_def generate_decimal_repr_def Let_def repr_size_eq write_digits_eq
        list_update_append nth_append)
qed

lemma decimal_round_trip_witness:
  "generate_decimal_repr_string 4096 ''xxxxxxx'' = (''4096'' @ [CHR 0x00] @ ''xx'', 4) \<and>
   parse_unsigned_integer_bin ''4096'' = Some 4096"
proof -
  have g: "generate_decimal_repr_string 4096 ''xxxxxxx'' = (''4096'' @ [CHR 0x00] @ ''xx'', 4)" by code_simp
  have "compute_decimal_repr_size 4096 < int (length ''xxxxxxx'')" by code_simp
  from decimal_round_trip [OF this] g show ?thesis by simp
qed

end
