(* ===== verification/Ip_Addr.thy ===== *)
theory Ip_Addr
  imports Parse_Number Byteorder
begin

text \<open>
  IPv4 addresses as text and network masks: \<^verbatim>\<open>misc/ipaddr.h\<close>. Addresses are kept in network
  byte order, so the bytes of an address in memory are its octets as printed.
\<close>

record ipv4_ifaddr =
  if4_addr :: u32
  if4_prefix :: int

section \<open>Parsing\<close>

text \<open>The loop over the four octets; \<^verbatim>\<open>out\<close> holds the bytes of the result.\<close>

function ipv4_octet_loop :: "nat \<Rightarrow> string \<Rightarrow> bytes \<Rightarrow> bytes option" where
  "ipv4_octet_loop i name out =
     (let j = length (takeWhile (\<lambda>c. c \<noteq> CHR ''.'') name) in
      if j = length name \<and> i < 3 \<or> j < length name \<and> i = 3 then None else
      if j < 1 \<or> j > 3 then None else
      (case parse_unsigned_integer_bin (take j name) of
         None \<Rightarrow> None
       | Some d \<Rightarrow>
           if d > 255 then None else
           let out = out[i := ucast d] in
           if i = 3 then Some out else ipv4_octet_loop (i + 1) (drop (j + 1) name) out))"
  by auto
termination
proof (relation "measure (\<lambda>(_, name, _). length name)", goal_cases)
  case (2 i name out j d out')
  then have "takeWhile (\<lambda>c. c \<noteq> CHR ''.'') name \<noteq> []" by auto
  then have "0 < length name" by auto
  then show ?case by simp
qed simp

declare ipv4_octet_loop.simps [simp del]

definition ipaddr_parse_ipv4_addr_bin :: "string \<Rightarrow> u32 \<Rightarrow> u32 option" where
  "ipaddr_parse_ipv4_addr_bin name out_addr =
     map_option badvpn_read_le32 (ipv4_octet_loop 0 name (mem32 out_addr))"

definition ipaddr_parse_ipv4_prefix_bin :: "string \<Rightarrow> int option" where
  "ipaddr_parse_ipv4_prefix_bin str =
     (case parse_unsigned_integer_bin str of
        None \<Rightarrow> None | Some d \<Rightarrow> if d > 32 then None else Some (uint d))"

definition ipaddr_parse_ipv4_ifaddr_bin :: "string \<Rightarrow> ipv4_ifaddr \<Rightarrow> ipv4_ifaddr option" where
  "ipaddr_parse_ipv4_ifaddr_bin str out =
     (case b_find_char_bin str (CHR ''/'') of
        None \<Rightarrow> None
      | Some slash_pos \<Rightarrow>
          (case ipaddr_parse_ipv4_addr_bin (take slash_pos str) (if4_addr out) of
             None \<Rightarrow> None
           | Some addr \<Rightarrow>
               (case ipaddr_parse_ipv4_prefix_bin (drop (slash_pos + 1) str) of
                  None \<Rightarrow> None | Some pfx \<Rightarrow> Some \<lparr>if4_addr = addr, if4_prefix = pfx\<rparr>)))"

section \<open>Masks\<close>

fun mask_loop :: "nat \<Rightarrow> u32" where
  "mask_loop 0 = 0"
| "mask_loop (Suc i) = mask_loop i OR push_bit (32 - i - 1) 1"

definition ipaddr_ipv4_mask_from_prefix :: "int \<Rightarrow> u32" where
  "ipaddr_ipv4_mask_from_prefix pfx = hton32 (mask_loop (nat pfx))"

text \<open>The search loop from \<^verbatim>\<open>i\<close> with the mask \<^verbatim>\<open>t\<close>; \<^verbatim>\<open>n\<close> counts the remaining rounds.\<close>

fun prefix_loop :: "nat \<Rightarrow> nat \<Rightarrow> u32 \<Rightarrow> u32 \<Rightarrow> nat" where
  "prefix_loop 0 i m t = i"
| "prefix_loop (Suc n) i m t =
     (if ntoh32 m = t then i
      else prefix_loop n (i + 1) m (if i < 32 then t OR push_bit (32 - i - 1) 1 else t))"

definition ipaddr_ipv4_prefix_from_mask :: "u32 \<Rightarrow> int option" where
  "ipaddr_ipv4_prefix_from_mask m = (let i = prefix_loop 33 0 m 0 in if i \<le> 32 then Some (int i) else None)"

definition ipaddr_ipv4_ifaddr_from_addr_mask :: "u32 \<Rightarrow> u32 \<Rightarrow> ipv4_ifaddr option" where
  "ipaddr_ipv4_ifaddr_from_addr_mask addr m =
     map_option (\<lambda>pfx. \<lparr>if4_addr = addr, if4_prefix = pfx\<rparr>) (ipaddr_ipv4_prefix_from_mask m)"

definition ipaddr_ipv4_addrs_in_network :: "u32 \<Rightarrow> u32 \<Rightarrow> int \<Rightarrow> bool" where
  "ipaddr_ipv4_addrs_in_network addr1 addr2 netprefix =
     (let m = ipaddr_ipv4_mask_from_prefix netprefix in addr1 AND m = addr2 AND m)"

section \<open>Printing\<close>

definition ipaddr_print_addr :: "u32 \<Rightarrow> string" where
  "ipaddr_print_addr addr =
     (let b = mem32 addr in
      show_dec (unat (b ! 0)) @ ''.'' @ show_dec (unat (b ! 1)) @ ''.'' @
      show_dec (unat (b ! 2)) @ ''.'' @ show_dec (unat (b ! 3)))"

definition ipaddr_print_ifaddr :: "ipv4_ifaddr \<Rightarrow> string" where
  "ipaddr_print_ifaddr ifaddr = ipaddr_print_addr (if4_addr ifaddr) @ ''/'' @ show_dec (nat (if4_prefix ifaddr))"

section \<open>Round trip\<close>

lemma show_dec_no: "\<not> is_digit c \<Longrightarrow> c \<notin> set (show_dec n)"
  using show_dec_props(2) [of n] by (auto simp: list_all_iff)

lemma not_digits: "\<not> is_digit (CHR ''.'')" "\<not> is_digit (CHR ''/'')" "\<not> is_digit (CHR '':'')"
  by (simp_all add: is_digit_def)

lemma length_show_dec: "n < 10 ^ k \<Longrightarrow> 0 < k \<Longrightarrow> length (show_dec n) \<le> k"
proof (induction k arbitrary: n)
  case (Suc k)
  show ?case
  proof (cases "n < 10")
    case False
    then have "k \<noteq> 0" using Suc.prems(1) by (cases k) auto
    moreover have "n div 10 < 10 ^ k" using Suc.prems(1) by (simp add: less_mult_imp_div_less mult.commute)
    ultimately show ?thesis using Suc.IH [of "n div 10"] False by (subst show_dec.simps) simp
  qed (subst show_dec.simps, simp)
qed simp

lemma octet_step:
  fixes b :: u8
  assumes "i < 3"
  shows "ipv4_octet_loop i (show_dec (unat b) @ CHR ''.'' # rest) out = ipv4_octet_loop (Suc i) rest (out[i := b])"
    and "ipv4_octet_loop 3 (show_dec (unat b)) out = Some (out[3 := b])"
proof -
  let ?s = "show_dec (unat b)"
  have b: "unat b < 256" using unat_lt [of b] by simp
  have len: "0 < length ?s" "length ?s \<le> 3"
    using b length_show_dec [of "unat b" 3] show_dec_props(1) [of "unat b"] by auto
  have no: "\<And>c. c \<in> set ?s \<Longrightarrow> c \<noteq> CHR ''.''" using show_dec_no not_digits by blast
  have p: "parse_unsigned_integer_bin ?s = Some (of_nat (unat b))" using b by (simp add: parse_show_dec)
  have "unat (of_nat (unat b) :: u64) = unat b" using b by (intro unat_of_nat_small) simp
  moreover have "(ucast (ucast b :: u64) :: u8) = b" by (rule bit_word_eqI) (auto simp: bit_simps)
  ultimately have v: "\<not> (of_nat (unat b) :: u64) > 255" "(ucast (of_nat (unat b) :: u64) :: u8) = b"
    using b by (simp_all add: word_less_nat_alt)
  have "takeWhile (\<lambda>c. c \<noteq> CHR ''.'') (?s @ CHR ''.'' # rest) = ?s" using no by (simp add: takeWhile_append)
  then show "ipv4_octet_loop i (?s @ CHR ''.'' # rest) out = ipv4_octet_loop (Suc i) rest (out[i := b])"
    using assms len p v by (subst ipv4_octet_loop.simps) (simp add: Let_def)
  have tw: "takeWhile (\<lambda>c. c \<noteq> CHR ''.'') ?s = ?s" using no by (simp add: takeWhile_eq_all_conv)
  show "ipv4_octet_loop 3 ?s out = Some (out[3 := b])"
    unfolding ipv4_octet_loop.simps [of 3] tw Let_def using len p v by simp
qed

lemma mem32_read: "badvpn_read_le32 (mem32 x) = x"
  using read_write_le32 [of x "[]"] by (simp add: mem32_def badvpn_write_le32_def)

lemma octets: "length (mem32 x) = 4" "[mem32 x ! 0, mem32 x ! 1, mem32 x ! 2, mem32 x ! 3] = mem32 x"
  by (simp_all add: mem32_def)

lemma parse_print_addr: "ipaddr_parse_ipv4_addr_bin (ipaddr_print_addr a) old = Some a"
proof -
  obtain b0 b1 b2 b3 where b: "mem32 a = [b0, b1, b2, b3]" by (simp add: mem32_def)
  obtain c0 c1 c2 c3 where c: "mem32 old = [c0, c1, c2, c3]" by (simp add: mem32_def)
  have "ipv4_octet_loop 0 (ipaddr_print_addr a) (mem32 old) = Some [b0, b1, b2, b3]"
    by (simp add: ipaddr_print_addr_def b c Let_def octet_step(1) octet_step(2) [of 0] numeral_2_eq_2 [symmetric] numeral_3_eq_3 [symmetric])
  then show ?thesis using mem32_read [of a] by (simp add: ipaddr_parse_ipv4_addr_bin_def b)
qed

lemma b_find_char_append: "c \<notin> set s \<Longrightarrow> b_find_char_bin (s @ c # r) c = Some (length s)"
  by (induction s) auto

lemma slash_not_in_addr: "CHR ''/'' \<notin> set (ipaddr_print_addr a)"
  using show_dec_no [OF not_digits(2)] by (simp add: ipaddr_print_addr_def Let_def)

text \<open>
  Parsing a printed IPv4 interface address, that is octets and prefix length, gives back
  the address and the prefix, whatever the output object held before.
\<close>

theorem ipv4_ifaddr_round_trip:
  assumes "0 \<le> if4_prefix a" "if4_prefix a \<le> 32"
  shows "ipaddr_parse_ipv4_ifaddr_bin (ipaddr_print_ifaddr a) old = Some a"
proof -
  have u: "unat (of_nat (nat (if4_prefix a)) :: u64) = nat (if4_prefix a)"
    using assms by (intro unat_of_nat_small) simp
  have "ipaddr_parse_ipv4_prefix_bin (show_dec (nat (if4_prefix a))) = Some (if4_prefix a)"
    using assms parse_show_dec [of "nat (if4_prefix a)"] u
    by (simp add: ipaddr_parse_ipv4_prefix_bin_def word_less_nat_alt uint_nat del: of_nat_nat)
  then show ?thesis
    by (simp add: ipaddr_parse_ipv4_ifaddr_bin_def ipaddr_print_ifaddr_def b_find_char_append slash_not_in_addr parse_print_addr)
qed

lemma ipv4_ifaddr_round_trip_witness:
  "ipaddr_print_ifaddr \<lparr>if4_addr = 0x0100A8C0, if4_prefix = 24\<rparr> = ''192.168.0.1/24'' \<and>
   ipaddr_parse_ipv4_ifaddr_bin ''192.168.0.1/24'' \<lparr>if4_addr = 0, if4_prefix = 0\<rparr> =
     Some \<lparr>if4_addr = 0x0100A8C0, if4_prefix = 24\<rparr>"
proof -
  have p: "ipaddr_print_ifaddr \<lparr>if4_addr = 0x0100A8C0, if4_prefix = 24\<rparr> = ''192.168.0.1/24''" by code_simp
  then show ?thesis
    using ipv4_ifaddr_round_trip [of "\<lparr>if4_addr = 0x0100A8C0, if4_prefix = 24\<rparr>" "\<lparr>if4_addr = 0, if4_prefix = 0\<rparr>"] by simp
qed

section \<open>Masks and networks\<close>

lemma bit_mask_loop: "i \<le> 32 \<Longrightarrow> bit (mask_loop i) n \<longleftrightarrow> 32 - i \<le> n \<and> n < 32"
  by (induction i) (auto simp: bit_simps)

lemma mask_loop_inj: "i \<le> 32 \<Longrightarrow> j \<le> 32 \<Longrightarrow> mask_loop i = mask_loop j \<Longrightarrow> i = j"
proof (induction i j rule: linorder_wlog)
  case (le i j)
  show ?case
  proof (rule ccontr)
    assume "i \<noteq> j"
    then have "bit (mask_loop j) (32 - j) \<noteq> bit (mask_loop i) (32 - j)"
      using le by (subst (1 2) bit_mask_loop) auto
    then show False using le by simp
  qed
qed auto

lemma ntoh32_hton32 [simp]: "ntoh32 (hton32 x) = x" "hton32 (ntoh32 x) = x"
proof -
  have "hton32 (hton32 x) = x" for x
  proof -
    have m: "mem32 (hton32 (hton32 x)) = mem32 x"
      by (simp add: badvpn_write_be32_def) 
        (auto simp: hton32_def badvpn_reverse32_def badvpn_read_le32_def mem32_def bit_simps intro!: bit_word_eqI)
    show ?thesis using mem32_read [of "hton32 (hton32 x)"] mem32_read [of x] m by simp
  qed
  then show "ntoh32 (hton32 x) = x" "hton32 (ntoh32 x) = x" by (simp_all add: ntoh32_def)
qed

lemma bit_hton32:
  "bit (hton32 x) n \<longleftrightarrow>
     (n < 8 \<and> bit x (24 + n) \<or> 8 \<le> n \<and> n < 16 \<and> bit x (8 + n) \<or>
      16 \<le> n \<and> n < 24 \<and> bit x (n - 8) \<or> 24 \<le> n \<and> n < 32 \<and> bit x (n - 24))"
proof -
  consider "n < 8" | "8 \<le> n" "n < 16" | "16 \<le> n" "n < 24" | "24 \<le> n" "n < 32" | "32 \<le> n" by linarith
  then show ?thesis
    by cases (simp_all add: hton32_def badvpn_reverse32_def badvpn_read_le32_def mem32_def bit_simps less_diff_conv2)
qed

lemma hton32_and: "hton32 (x AND y) = hton32 x AND hton32 y"
  by (rule bit_word_eqI) (simp only: bit_hton32 bit_and_iff, linarith)

lemma high_bits_eq_iff:
  "drop_bit k x = drop_bit k y \<longleftrightarrow> (\<forall>n. k \<le> n \<and> n < 32 \<longrightarrow> bit x n = bit y n)" for x y :: u32
proof
  assume eq: "drop_bit k x = drop_bit k y"
  show "\<forall>n. k \<le> n \<and> n < 32 \<longrightarrow> bit x n = bit y n"
  proof (intro allI impI)
    fix n assume "k \<le> n \<and> n < 32"
    then show "bit x n = bit y n"
      using arg_cong [OF eq, of "\<lambda>w. bit w (n - k)"] by (simp add: bit_drop_bit_eq)
  qed
next
  assume *: "\<forall>n. k \<le> n \<and> n < 32 \<longrightarrow> bit x n = bit y n"
  have "bit x (k + m) = bit y (k + m)" for m
    using * bit_imp_le_length [of x "k + m"] bit_imp_le_length [of y "k + m"] by (cases "k + m < 32") auto
  then show "drop_bit k x = drop_bit k y" by (intro bit_word_eqI) (simp add: bit_drop_bit_eq)
qed

lemma prefix_loop_step:
  "i < 32 \<Longrightarrow> ntoh32 m \<noteq> mask_loop i \<Longrightarrow>
     prefix_loop (Suc n) i m (mask_loop i) = prefix_loop n (Suc i) m (mask_loop (Suc i))"
  by simp

lemma prefix_loop_sound:
  "i + n = 33 \<Longrightarrow> prefix_loop n i m (mask_loop i) = k \<Longrightarrow> k \<le> 32 \<Longrightarrow> ntoh32 m = mask_loop k"
proof (induction n arbitrary: i)
  case (Suc n)
  consider "ntoh32 m = mask_loop i" | "ntoh32 m \<noteq> mask_loop i" "i < 32" | "ntoh32 m \<noteq> mask_loop i" "i = 32"
    using Suc.prems(1) by linarith
  then show ?case
  proof cases
    case 1
    then show ?thesis using Suc.prems(2) by simp
  next
    case 2
    show ?thesis
    proof (rule Suc.IH)
      show "prefix_loop n (Suc i) m (mask_loop (Suc i)) = k"
        using Suc.prems(2) unfolding prefix_loop_step [OF 2(2,1)] .
    qed (use Suc.prems in simp_all)
  next
    case 3
    then have "n = 0" using Suc.prems(1) by simp
    then show ?thesis using 3 Suc.prems(2,3) by simp
  qed
qed simp

lemma prefix_loop_complete:
  "i + n = 33 \<Longrightarrow> i \<le> j \<Longrightarrow> j \<le> 32 \<Longrightarrow> ntoh32 m = mask_loop j \<Longrightarrow> prefix_loop n i m (mask_loop i) \<le> 32"
proof (induction n arbitrary: i)
  case (Suc n)
  show ?case
  proof (cases "ntoh32 m = mask_loop i")
    case True
    then show ?thesis using Suc.prems(2,3) by simp
  next
    case False
    then have "i \<noteq> j" using Suc.prems(4) by auto
    then have "i < 32" "Suc i \<le> j" using Suc.prems(2,3) by simp_all
    then show ?thesis
      using Suc.IH [of "Suc i"] Suc.prems(1,3,4) unfolding prefix_loop_step [OF \<open>i < 32\<close> False] by linarith
  qed
qed simp

text \<open>
  A mask has a prefix length exactly when it is the mask of that prefix length, and two
  addresses are in one network exactly when their first bits, as many as the prefix length
  says, agree.
\<close>

theorem ipv4_masks_exact:
  assumes "0 \<le> p" "p \<le> 32"
  shows "(ipaddr_ipv4_prefix_from_mask m = Some p \<longleftrightarrow> m = ipaddr_ipv4_mask_from_prefix p) \<and>
    (ipaddr_ipv4_addrs_in_network a1 a2 p \<longleftrightarrow>
      drop_bit (nat (32 - p)) (ntoh32 a1) = drop_bit (nat (32 - p)) (ntoh32 a2))"
proof
  let ?k = "prefix_loop 33 0 m (mask_loop 0)"
  have k: "?k \<le> 32 \<longrightarrow> ntoh32 m = mask_loop ?k" using prefix_loop_sound [of 0 33 m] by simp
  have k': "?k \<le> 32" if "ntoh32 m = mask_loop (nat p)"
    using prefix_loop_complete [of 0 33 "nat p" m] that assms by simp
  have "ntoh32 m = mask_loop (nat p) \<longleftrightarrow> ?k \<le> 32 \<and> int ?k = p"
    using k k' mask_loop_inj [of ?k "nat p"] assms by auto
  moreover have "m = ipaddr_ipv4_mask_from_prefix p \<longleftrightarrow> ntoh32 m = mask_loop (nat p)"
    unfolding ipaddr_ipv4_mask_from_prefix_def by (metis ntoh32_hton32)
  ultimately show "ipaddr_ipv4_prefix_from_mask m = Some p \<longleftrightarrow> m = ipaddr_ipv4_mask_from_prefix p"
    by (simp add: ipaddr_ipv4_prefix_from_mask_def Let_def)
  let ?q = "nat p"
  have q: "?q \<le> 32" "nat (32 - p) = 32 - ?q" using assms by auto
  have "ipaddr_ipv4_addrs_in_network a1 a2 p \<longleftrightarrow> ntoh32 a1 AND mask_loop ?q = ntoh32 a2 AND mask_loop ?q"
  proof -
    have "a AND ipaddr_ipv4_mask_from_prefix p = hton32 (ntoh32 a AND mask_loop ?q)" for a
      by (simp add: hton32_and ipaddr_ipv4_mask_from_prefix_def)
    then show ?thesis unfolding ipaddr_ipv4_addrs_in_network_def Let_def by (metis ntoh32_hton32(1))
  qed
  also have "\<dots> \<longleftrightarrow> (\<forall>n. 32 - ?q \<le> n \<and> n < 32 \<longrightarrow> bit (ntoh32 a1) n = bit (ntoh32 a2) n)"
    by (auto simp: bit_eq_iff bit_and_iff bit_mask_loop q)
  also have "\<dots> \<longleftrightarrow> drop_bit (32 - ?q) (ntoh32 a1) = drop_bit (32 - ?q) (ntoh32 a2)"
    by (rule high_bits_eq_iff [symmetric])
  finally show "ipaddr_ipv4_addrs_in_network a1 a2 p \<longleftrightarrow>
      drop_bit (nat (32 - p)) (ntoh32 a1) = drop_bit (nat (32 - p)) (ntoh32 a2)" using q by simp
qed

lemma ipv4_masks_exact_witness:
  "ipaddr_ipv4_mask_from_prefix 20 = 0x00F0FFFF \<and> ipaddr_ipv4_prefix_from_mask 0x00F0FFFF = Some 20 \<and>
   ipaddr_ipv4_addrs_in_network 0x0101A8C0 0x020FA8C0 20"
proof -
  have m: "ipaddr_ipv4_mask_from_prefix 20 = 0x00F0FFFF" by code_simp
  have "drop_bit (nat (32 - 20)) (ntoh32 0x0101A8C0) = drop_bit (nat (32 - 20)) (ntoh32 0x020FA8C0)" by code_simp
  then show ?thesis using m ipv4_masks_exact [of 20 "0x00F0FFFF" "0x0101A8C0" "0x020FA8C0"] by simp
qed

end
