(* ===== verification/Ip_Addr6.thy ===== *)
theory Ip_Addr6
  imports Ip_Addr
begin

text \<open>
  IPv6 addresses as text: \<^verbatim>\<open>misc/ipaddr6.h\<close>. The parser keeps the blocks read so far in the
  bytes of the result, the position of \<^verbatim>\<open>::\<close> among them, and the block being read; it walks the
  name by index, as the code does, because the branch for a dotted IPv4 ending steps back to
  the last colon. The main lemmas follow the parser through the output of the printer.
\<close>

section \<open>Parsing\<close>

record ipv6_ifaddr =
  if6_addr :: bytes
  if6_prefix :: int

record p6_state =
  p6_num_blocks :: nat
  p6_compress_pos :: int
  p6_block :: u16
  p6_empty :: bool
  p6_bytes :: bytes

datatype p6_result = P6_Fail | P6_End p6_state | P6_ipv4_ending p6_state nat

definition p6_store :: "p6_state \<Rightarrow> p6_state" where
  "p6_store s =
     s\<lparr>p6_bytes := (p6_bytes s)[2 * p6_num_blocks s := ucast (drop_bit 8 (p6_block s)),
                               2 * p6_num_blocks s + 1 := ucast (p6_block s AND 0xFF)],
       p6_num_blocks := p6_num_blocks s + 1\<rparr>"

text \<open>The colon branch, without the advance.\<close>

definition p6_colon :: "nat \<Rightarrow> bool \<Rightarrow> p6_state \<Rightarrow> p6_state option" where
  "p6_colon i is_double s =
     (case (if i > 0 then
              if p6_empty s \<or> p6_num_blocks s = 7 then None
              else Some ((p6_store s)\<lparr>p6_block := 0, p6_empty := True\<rparr>)
            else if \<not> is_double then None else Some s) of
        None \<Rightarrow> None
      | Some s1 \<Rightarrow>
          if is_double then
            if p6_compress_pos s1 \<noteq> - 1 then None
            else Some (s1\<lparr>p6_compress_pos := int (p6_num_blocks s1)\<rparr>)
          else Some s1)"

definition p6_digit :: "char \<Rightarrow> p6_state \<Rightarrow> p6_state option" where
  "p6_digit c s =
     (let digit = decode_hex_digit c in
      if digit < 0 then None else
      if p6_block s > 0xFFFF div 16 then None else
      let block = p6_block s * 16 in
      if word_of_int digit > 0xFFFF - block then None else
      Some (s\<lparr>p6_block := block + word_of_int digit, p6_empty := False\<rparr>))"

function ipv6_loop :: "string \<Rightarrow> nat \<Rightarrow> p6_state \<Rightarrow> p6_result" where
  "ipv6_loop name i s =
     (if i < length name then
        if name ! i = CHR ''.'' then P6_ipv4_ending s i
        else if name ! i = CHR '':'' then
          let is_double = (i + 1 < length name \<and> name ! (i + 1) = CHR '':'') in
          (case p6_colon i is_double s of
             None \<Rightarrow> P6_Fail
           | Some s' \<Rightarrow> ipv6_loop name (i + 1 + of_bool is_double) s')
        else
          (case p6_digit (name ! i) s of
             None \<Rightarrow> P6_Fail
           | Some s' \<Rightarrow> ipv6_loop name (i + 1) s')
      else P6_End s)"
  by auto
termination
  by (relation "measure (\<lambda>(name, i, _). length name - i)") auto

declare ipv6_loop.simps [simp del]

text \<open>\<^verbatim>\<open>ipv4_done\<close>: the blocks behind \<^verbatim>\<open>::\<close> move to the end and zeros fill the gap.\<close>

definition p6_done :: "p6_state \<Rightarrow> bytes option" where
  "p6_done s =
     (case (if p6_compress_pos s = - 1 then if p6_num_blocks s \<noteq> 8 then None else Some 0
            else Some (nat (p6_compress_pos s))) of
        None \<Rightarrow> None
      | Some compress_pos \<Rightarrow>
          let num_rear = p6_num_blocks s - compress_pos;
              b = put_at (2 * (8 - num_rear)) (get_at (2 * compress_pos) (2 * num_rear) (p6_bytes s)) (p6_bytes s)
          in Some (put_at (2 * compress_pos) (replicate (2 * (8 - num_rear - compress_pos)) 0) b))"

text \<open>Stepping back to the character behind the last colon.\<close>

fun p6_back :: "string \<Rightarrow> nat \<Rightarrow> nat" where
  "p6_back name 0 = 0"
| "p6_back name (Suc i) = (if name ! i \<noteq> CHR '':'' then p6_back name i else Suc i)"

function p6_ipv4_loop :: "string \<Rightarrow> nat \<Rightarrow> bytes \<Rightarrow> nat \<Rightarrow> u8 \<Rightarrow> bool \<Rightarrow> (bytes \<times> nat \<times> u8 \<times> bool) option" where
  "p6_ipv4_loop name i b cur_byte byte emp =
     (if i < length name then
        if name ! i = CHR ''.'' then
          if emp \<or> cur_byte = 3 then None
          else p6_ipv4_loop name (i + 1) (b[cur_byte := byte]) (cur_byte + 1) 0 True
        else if \<not> emp \<and> byte = 0 then None
        else
          let digit = decode_decimal_digit (name ! i) in
          if digit < 0 then None else
          if byte > 255 div 10 then None else
          let byte = byte * 10 in
          if word_of_int digit > 255 - byte then None else
          p6_ipv4_loop name (i + 1) b cur_byte (byte + word_of_int digit) False
      else Some (b, cur_byte, byte, emp))"
  by auto
termination
  by (relation "measure (\<lambda>(name, i, _). length name - i)") auto

definition p6_ipv4_part :: "string \<Rightarrow> nat \<Rightarrow> p6_state \<Rightarrow> bytes option" where
  "p6_ipv4_part name i s =
     (if p6_empty s \<or> p6_num_blocks s = 0 \<and> p6_compress_pos s = - 1 then None else
      case p6_ipv4_loop name (p6_back name i) (replicate 4 0) 0 0 True of
        None \<Rightarrow> None
      | Some (b, cur_byte, byte, emp) \<Rightarrow>
          if cur_byte \<noteq> 3 \<or> emp then None else
          let b = b[cur_byte := byte] in
          if 8 - int (p6_num_blocks s) < 2 then None else
          p6_done (s\<lparr>p6_bytes := put_at (2 * p6_num_blocks s) b (p6_bytes s), p6_num_blocks := p6_num_blocks s + 2\<rparr>))"

definition p6_init :: "bytes \<Rightarrow> p6_state" where
  "p6_init out = \<lparr>p6_num_blocks = 0, p6_compress_pos = - 1, p6_block = 0, p6_empty = True, p6_bytes = out\<rparr>"

definition ipaddr6_parse_ipv6_addr_bin :: "string \<Rightarrow> bytes \<Rightarrow> bytes option" where
  "ipaddr6_parse_ipv6_addr_bin name out_addr =
     (case ipv6_loop name 0 (p6_init out_addr) of
        P6_Fail \<Rightarrow> None
      | P6_ipv4_ending s i \<Rightarrow> p6_ipv4_part name i s
      | P6_End s \<Rightarrow>
          if \<not> p6_empty s then p6_done (p6_store s)
          else if int (p6_num_blocks s) \<noteq> p6_compress_pos s then None else p6_done s)"

definition ipaddr6_parse_ipv6_prefix_bin :: "string \<Rightarrow> int option" where
  "ipaddr6_parse_ipv6_prefix_bin str =
     (case parse_unsigned_integer_bin str of
        None \<Rightarrow> None | Some d \<Rightarrow> if d > 128 then None else Some (uint d))"

definition ipaddr6_parse_ipv6_ifaddr_bin :: "string \<Rightarrow> ipv6_ifaddr \<Rightarrow> ipv6_ifaddr option" where
  "ipaddr6_parse_ipv6_ifaddr_bin str out =
     (case b_find_char_bin str (CHR ''/'') of
        None \<Rightarrow> None
      | Some slash_pos \<Rightarrow>
          (case ipaddr6_parse_ipv6_addr_bin (take slash_pos str) (if6_addr out) of
             None \<Rightarrow> None
           | Some addr \<Rightarrow>
               (case ipaddr6_parse_ipv6_prefix_bin (drop (slash_pos + 1) str) of
                  None \<Rightarrow> None | Some pfx \<Rightarrow> Some \<lparr>if6_addr = addr, if6_prefix = pfx\<rparr>)))"

section \<open>Masks\<close>

fun mask8_loop :: "nat \<Rightarrow> u8" where
  "mask8_loop 0 = 0"
| "mask8_loop (Suc i) = mask8_loop i OR push_bit (8 - i - 1) 1"

definition ipaddr6_ipv6_mask_from_prefix :: "int \<Rightarrow> bytes" where
  "ipaddr6_ipv6_mask_from_prefix pfx =
     (let quot = nat pfx div 8; rem = nat pfx mod 8; m = replicate quot 0xFF @ replicate (16 - quot) 0
      in if rem = 0 then m else m[quot := m ! quot OR mask8_loop rem])"

fun prefix8_loop :: "nat \<Rightarrow> nat \<Rightarrow> u8 \<Rightarrow> u8 \<Rightarrow> nat" where
  "prefix8_loop 0 j m t = j"
| "prefix8_loop (Suc n) j m t =
     (if m = t then j else prefix8_loop n (j + 1) m (if j < 8 then t OR push_bit (8 - j - 1) 1 else t))"

definition ipaddr6_ipv6_prefix_from_mask :: "bytes \<Rightarrow> int option" where
  "ipaddr6_ipv6_prefix_from_mask m =
     (let i = length (takeWhile (\<lambda>b. b = 0xFF) (take 16 m)) in
      if i < 16 then
        let j = prefix8_loop 9 0 (m ! i) 0 in
        if \<not> j \<le> 8 then None
        else if \<exists>b \<in> set (drop (i + 1) (take 16 m)). b \<noteq> 0 then None
        else Some (8 * int i + int j)
      else Some (8 * int i))"

definition ipaddr6_ipv6_ifaddr_from_addr_mask :: "bytes \<Rightarrow> bytes \<Rightarrow> ipv6_ifaddr option" where
  "ipaddr6_ipv6_ifaddr_from_addr_mask addr m =
     map_option (\<lambda>pfx. \<lparr>if6_addr = addr, if6_prefix = pfx\<rparr>) (ipaddr6_ipv6_prefix_from_mask m)"

definition ipaddr6_ipv6_addrs_in_network :: "bytes \<Rightarrow> bytes \<Rightarrow> int \<Rightarrow> bool" where
  "ipaddr6_ipv6_addrs_in_network addr1 addr2 netprefix =
     (let quot = nat netprefix div 8; rem = nat netprefix mod 8 in
      if take quot addr1 \<noteq> take quot addr2 then False else
      if rem = 0 then True else
      let t = mask8_loop rem in (addr1 ! quot AND t) = (addr2 ! quot AND t))"

section \<open>Printing\<close>

function show_hex :: "nat \<Rightarrow> string" where
  "show_hex n =
     (let d = (if n mod 16 < 10 then char_of (48 + n mod 16) else char_of (87 + n mod 16))
      in if n < 16 then [d] else show_hex (n div 16) @ [d])"
  by auto
termination
  by (relation "measure id") auto

declare show_hex.simps [simp del]

definition p6_block_at :: "bytes \<Rightarrow> nat \<Rightarrow> u16" where
  "p6_block_at addr i = push_bit 8 (ucast (addr ! (2 * i))) OR ucast (addr ! (2 * i + 1))"

text \<open>The search for the longest run of zero blocks: \<^verbatim>\<open>(largest_start, largest_len)\<close> and the
  current run, over the block indices still to visit.\<close>

fun zero_run :: "bytes \<Rightarrow> nat list \<Rightarrow> (nat \<times> nat) \<times> (nat \<times> nat) \<Rightarrow> nat \<times> nat" where
  "zero_run addr [] (largest, current) = largest"
| "zero_run addr (i # is) ((ls, ll), (cs, cl)) =
     (if addr ! (2 * i) = 0 \<and> addr ! (2 * i + 1) = 0
      then zero_run addr is (if cl + 1 > ll then (cs, cl + 1) else (ls, ll), (cs, cl + 1))
      else zero_run addr is ((ls, ll), (i + 1, 0)))"

definition ipaddr6_print_addr :: "bytes \<Rightarrow> string" where
  "ipaddr6_print_addr addr =
     (let (largest_start, largest_len) = zero_run addr [0..<8] ((0, 0), (0, 0));
          hex = (\<lambda>i. show_hex (unat (p6_block_at addr i)))
      in if largest_len > 1 then
           concat (map (\<lambda>i. hex i @ '':'') [0..<largest_start]) @
           (if largest_start = 0 then '':'' else []) @
           concat (map (\<lambda>i. '':'' @ hex i) [largest_start + largest_len..<8]) @
           (if largest_start + largest_len = 8 then '':'' else [])
         else hex 0 @ concat (map (\<lambda>i. '':'' @ hex i) [1..<8]))"

definition ipaddr6_print_ifaddr :: "ipv6_ifaddr \<Rightarrow> string" where
  "ipaddr6_print_ifaddr a = ipaddr6_print_addr (if6_addr a) @ ''/'' @ show_dec (nat (if6_prefix a))"

section \<open>Reading one block\<close>

lemma decode_hex_of_digit:
  fixes d :: nat
  shows "d < 10 \<Longrightarrow> decode_hex_digit (char_of (48 + d)) = int d"
    and "10 \<le> d \<Longrightarrow> d < 16 \<Longrightarrow> decode_hex_digit (char_of (87 + d)) = int d"
proof -
  have "list_all (\<lambda>d. decode_hex_digit (char_of (48 + d)) = int d) [0..<10]" by code_simp
  then show "d < 10 \<Longrightarrow> decode_hex_digit (char_of (48 + d)) = int d" by (simp add: list_all_iff)
  have "list_all (\<lambda>d. decode_hex_digit (char_of (87 + d)) = int d) [10..<16]" by code_simp
  then have "\<forall>d \<in> {10..<16}. decode_hex_digit (char_of (87 + d)) = int d" unfolding list_all_iff set_upt .
  then show "10 \<le> d \<Longrightarrow> d < 16 \<Longrightarrow> decode_hex_digit (char_of (87 + d)) = int d" by (meson atLeastLessThan_iff)
qed

lemma hex_val_append: "hex_val n (s @ t) = hex_val (hex_val n s) t"
  by (induction s arbitrary: n) auto

lemma show_hex_props:
  "show_hex n \<noteq> []" "list_all is_hex (show_hex n)" "hex_val 0 (show_hex n) = n"
proof (induction n rule: show_hex.induct)
  case (1 n)
  obtain d where d: "decode_hex_digit d = int (n mod 16)"
    and s: "show_hex n = (if n < 16 then [d] else show_hex (n div 16) @ [d])"
  proof
    let ?d = "if n mod 16 < 10 then char_of (48 + n mod 16) else char_of (87 + n mod 16) :: char"
    show "decode_hex_digit ?d = int (n mod 16)"
      using decode_hex_of_digit(1) [of "n mod 16"] decode_hex_of_digit(2) [of "n mod 16"] by auto
    show "show_hex n = (if n < 16 then [?d] else show_hex (n div 16) @ [?d])"
      by (subst show_hex.simps) (simp add: Let_def)
  qed
  { case 1 show ?case by (simp add: s) }
  { case 2 show ?case using 1(2) [OF refl] d unfolding s by (simp add: is_hex_def) }
  { case 3 show ?case using 1(3) [OF refl] d unfolding s by (auto simp: hex_val_append) }
qed

lemma is_hex_not: "is_hex c \<Longrightarrow> c \<noteq> CHR ''.'' \<and> c \<noteq> CHR '':'' \<and> c \<noteq> CHR ''/''"
  by (auto simp: is_hex_def decode_hex_digit_def)

lemma p6_digit_ok:
  assumes "is_hex c" "16 * unat (p6_block s) + nat (decode_hex_digit c) < 65536"
  shows "\<exists>b. p6_digit c s = Some (s\<lparr>p6_block := b, p6_empty := False\<rparr>) \<and> unat b = 16 * unat (p6_block s) + nat (decode_hex_digit c)"
proof -
  let ?d = "decode_hex_digit c" and ?n = "p6_block s"
  have d: "0 \<le> ?d" "?d \<le> 15" using assms(1) decode_hex_bounds [of c] by (simp_all add: is_hex_def)
  then have ud: "unat (word_of_int ?d :: u16) = nat ?d" by (simp add: unat_of_nonneg_int)
  have n: "unat ?n * 16 < 65536" using assms(2) by simp
  then have n16: "unat (?n * 16) = unat ?n * 16" by (simp add: unat_word_ariths)
  have "unat (0xFFFF - ?n * 16) = 65535 - unat ?n * 16"
    using n n16 by (subst unat_sub) (simp_all add: word_le_nat_alt)
  then have "\<not> word_of_int ?d > 0xFFFF - ?n * 16" using assms(2) ud by (simp add: word_less_nat_alt)
  moreover have "\<not> ?n > 0xFFFF div 16"
  proof -
    have "unat (0xFFFF div 16 :: u16) = 4095" by (simp add: unat_div)
    then show ?thesis using n unfolding word_less_nat_alt by linarith
  qed
  moreover have "unat (?n * 16 + word_of_int ?d) = 16 * unat ?n + nat ?d"
    using assms(2) n16 ud by (simp add: unat_word_ariths)
  ultimately show ?thesis
    using d(1) by (intro exI [of _ "?n * 16 + word_of_int ?d"]) (simp add: p6_digit_def Let_def)
qed

lemma hex_run:
  "list_all is_hex s \<Longrightarrow> name = pre @ s @ rest \<Longrightarrow> hex_val (unat (p6_block st)) s < 65536 \<Longrightarrow> s \<noteq> [] \<Longrightarrow>
     ipv6_loop name (length pre) st =
       ipv6_loop name (length pre + length s) (st\<lparr>p6_block := of_nat (hex_val (unat (p6_block st)) s), p6_empty := False\<rparr>)"
proof (induction s arbitrary: pre st)
  case (Cons c s)
  have "16 * unat (p6_block st) + nat (decode_hex_digit c) \<le> hex_val (unat (p6_block st)) (c # s)"
    using hex_val_ge [of _ s] by simp
  then obtain b where b: "p6_digit c st = Some (st\<lparr>p6_block := b, p6_empty := False\<rparr>)"
    "unat b = 16 * unat (p6_block st) + nat (decode_hex_digit c)"
    using p6_digit_ok [of c st] Cons.prems by auto
  have c: "name ! length pre = c" "length pre < length name" "c \<noteq> CHR ''.''" "c \<noteq> CHR '':''"
    using Cons.prems is_hex_not [of c] by (auto simp: nth_append)
  then have step: "ipv6_loop name (length pre) st = ipv6_loop name (length pre + 1) (st\<lparr>p6_block := b, p6_empty := False\<rparr>)"
    using b by (subst ipv6_loop.simps) simp
  show ?case
  proof (cases "s = []")
    case True
    have "of_nat (unat b) = b" by simp
    then show ?thesis using step True b(2) by (simp del: of_nat_unat)
  next
    case False
    then show ?thesis
      using step Cons.IH [of "pre @ [c]" "st\<lparr>p6_block := b, p6_empty := False\<rparr>"] Cons.prems b(2) by simp
  qed
qed simp

lemma block_run:
  fixes b :: u16
  assumes "name = pre @ show_hex (unat b) @ rest" "p6_block st = 0"
  shows "ipv6_loop name (length pre) st =
     ipv6_loop name (length pre + length (show_hex (unat b))) (st\<lparr>p6_block := b, p6_empty := False\<rparr>)"
proof -
  have "unat b < 65536" using unat_lt [of b] by simp
  then show ?thesis
    using hex_run [OF show_hex_props(2) assms(1), of st] show_hex_props [of "unat b"] assms(2) by simp
qed

section \<open>Reading the blocks\<close>

definition block_bytes :: "u16 \<Rightarrow> bytes" where
  "block_bytes b = [ucast (drop_bit 8 b), ucast (b AND 0xFF)]"

definition blocks_bytes :: "u16 list \<Rightarrow> bytes" where
  "blocks_bytes bs = concat (map block_bytes bs)"

lemma blocks_bytes_simps [simp]:
  "blocks_bytes [] = []" "blocks_bytes (b # bs) = block_bytes b @ blocks_bytes bs"
  "blocks_bytes (bs @ cs) = blocks_bytes bs @ blocks_bytes cs"
  "length (block_bytes b) = 2" "length (blocks_bytes bs) = 2 * length bs"
proof -
  show "length (blocks_bytes bs) = 2 * length bs"
    by (induction bs) (simp_all add: blocks_bytes_def block_bytes_def)
qed (simp_all add: blocks_bytes_def block_bytes_def)

lemma put_two: "Suc (Suc n) \<le> length xs \<Longrightarrow> put_at n [a, b] xs = xs[n := a, Suc n := b]"
  by (rule nth_equalityI) (auto simp: put_at_def nth_append nth_list_update nth_Cons' min_def intro!: arg_cong [of _ _ "(!) xs"])

lemma p6_store_eq:
  "p6_num_blocks s < 8 \<Longrightarrow> length (p6_bytes s) = 16 \<Longrightarrow>
     p6_store s = s\<lparr>p6_bytes := put_at (2 * p6_num_blocks s) (block_bytes (p6_block s)) (p6_bytes s),
                    p6_num_blocks := Suc (p6_num_blocks s)\<rparr>"
  by (simp add: p6_store_def block_bytes_def put_two)

lemma put_at_join:
  "off + length xs + length ys \<le> length buf \<Longrightarrow> off' = off + length xs \<Longrightarrow>
     put_at off' ys (put_at off xs buf) = put_at off (xs @ ys) buf"
  by (cases xs) (auto simp: put_at_def min_def ac_simps)

definition front_str :: "u16 list \<Rightarrow> string" where
  "front_str bs = concat (map (\<lambda>b. show_hex (unat b) @ '':'') bs)"

definition rear_str :: "u16 list \<Rightarrow> string" where
  "rear_str bs = concat (map (\<lambda>b. '':'' @ show_hex (unat b)) bs)"

lemma colon_step:
  assumes "name = pre @ CHR '':'' # rest" "pre \<noteq> []" "\<not> p6_empty st" "p6_num_blocks st < 7" "length (p6_bytes st) = 16"
    and "rest = [] \<or> hd rest \<noteq> CHR '':''"
  shows "ipv6_loop name (length pre) st =
    ipv6_loop name (Suc (length pre)) (st\<lparr>p6_bytes := put_at (2 * p6_num_blocks st) (block_bytes (p6_block st)) (p6_bytes st),
       p6_num_blocks := Suc (p6_num_blocks st), p6_block := 0, p6_empty := True\<rparr>)"
  using assms
  by (subst ipv6_loop.simps) (cases rest; simp add: nth_append p6_colon_def p6_store_eq)

lemma double_colon_step:
  assumes "name = pre @ CHR '':'' # CHR '':'' # rest" "pre \<noteq> []" "\<not> p6_empty st" "p6_num_blocks st < 7"
    "length (p6_bytes st) = 16" "p6_compress_pos st = - 1"
  shows "ipv6_loop name (length pre) st =
    ipv6_loop name (Suc (Suc (length pre))) (st\<lparr>p6_bytes := put_at (2 * p6_num_blocks st) (block_bytes (p6_block st)) (p6_bytes st),
       p6_num_blocks := Suc (p6_num_blocks st), p6_block := 0, p6_empty := True,
       p6_compress_pos := int (Suc (p6_num_blocks st))\<rparr>)"
  using assms
  by (subst ipv6_loop.simps) (simp add: nth_append p6_colon_def p6_store_eq)

lemma show_hex_hd: "hd (show_hex n) \<noteq> CHR '':''"
  using show_hex_props [of n] is_hex_not by (cases "show_hex n") auto

lemma front_run:
  assumes "fs \<noteq> []" "name = pre @ front_str fs @ CHR '':'' # rest" "p6_block st = 0" "p6_empty st"
    "p6_compress_pos st = - 1" "p6_num_blocks st + length fs \<le> 7" "length (p6_bytes st) = 16"
  shows "ipv6_loop name (length pre) st = ipv6_loop name (length (pre @ front_str fs) + 1)
    (st\<lparr>p6_bytes := put_at (2 * p6_num_blocks st) (blocks_bytes fs) (p6_bytes st),
        p6_num_blocks := p6_num_blocks st + length fs, p6_compress_pos := int (p6_num_blocks st + length fs)\<rparr>)"
  using assms
proof (induction fs arbitrary: pre st)
  case (Cons b fs)
  let ?h = "show_hex (unat b)"
  let ?st = "st\<lparr>p6_block := b, p6_empty := False\<rparr>"
  obtain n ys where st: "st = \<lparr>p6_num_blocks = n, p6_compress_pos = - 1, p6_block = 0, p6_empty = True, p6_bytes = ys\<rparr>"
    using Cons.prems(3-5) by (cases st) simp
  have "ipv6_loop name (length pre) st = ipv6_loop name (length (pre @ ?h)) ?st"
    using block_run [of name pre b "CHR '':'' # front_str fs @ CHR '':'' # rest" st] Cons.prems
    by (simp add: front_str_def)
  also have "\<dots> = ipv6_loop name (length (pre @ front_str (b # fs)) + 1)
    (st\<lparr>p6_bytes := put_at (2 * p6_num_blocks st) (blocks_bytes (b # fs)) (p6_bytes st),
        p6_num_blocks := p6_num_blocks st + length (b # fs), p6_compress_pos := int (p6_num_blocks st + length (b # fs))\<rparr>)"
  proof (cases fs)
    case Nil
    then show ?thesis
      using double_colon_step [of name "pre @ ?h" rest ?st] Cons.prems show_hex_props(1) [of "unat b"]
      by (simp add: front_str_def st)
  next
    case (Cons c cs)
    let ?st' = "st\<lparr>p6_bytes := put_at (2 * p6_num_blocks st) (block_bytes b) (p6_bytes st), p6_num_blocks := Suc (p6_num_blocks st)\<rparr>"
    have hd: "hd (front_str fs @ CHR '':'' # rest) \<noteq> CHR '':''"
      using show_hex_hd [of "unat c"] show_hex_props(1) [of "unat c"] Cons by (simp add: front_str_def hd_append)
    have "ipv6_loop name (length (pre @ ?h)) ?st = ipv6_loop name (length (pre @ ?h @ '':'')) ?st'"
      using colon_step [of name "pre @ ?h" "front_str fs @ CHR '':'' # rest" ?st] hd Cons.prems(2-7) show_hex_props(1) [of "unat b"]
      by (simp add: front_str_def st)
    then show ?thesis
      using Cons.IH [of "pre @ ?h @ '':''" ?st'] Cons.prems Cons
      by (simp add: front_str_def put_at_join st)
  qed
  finally show ?case .
qed simp

lemma ipv6_end: "length name \<le> i \<Longrightarrow> ipv6_loop name i s = P6_End s"
  by (subst ipv6_loop.simps) simp

text \<open>The blocks up to the end of the name, the first one without a colon.\<close>

lemma rear_run:
  assumes "name = pre @ show_hex (unat b) @ rear_str bs" "p6_block st = 0" "p6_empty st"
    "p6_num_blocks st + Suc (length bs) \<le> 8" "length (p6_bytes st) = 16"
  shows "\<exists>st'. ipv6_loop name (length pre) st = P6_End st' \<and> \<not> p6_empty st' \<and>
    p6_num_blocks (p6_store st') = p6_num_blocks st + Suc (length bs) \<and> p6_compress_pos (p6_store st') = p6_compress_pos st \<and>
    p6_bytes (p6_store st') = put_at (2 * p6_num_blocks st) (blocks_bytes (b # bs)) (p6_bytes st)"
  using assms
proof (induction bs arbitrary: pre st b)
  case Nil
  then have "ipv6_loop name (length pre) st = P6_End (st\<lparr>p6_block := b, p6_empty := False\<rparr>)"
    using block_run [of name pre b "[]" st] by (simp add: rear_str_def ipv6_end)
  then show ?case using Nil by (simp add: p6_store_eq)
next
  case (Cons c bs)
  let ?h = "show_hex (unat b)"
  let ?st = "st\<lparr>p6_block := b, p6_empty := False\<rparr>"
  let ?st' = "st\<lparr>p6_bytes := put_at (2 * p6_num_blocks st) (block_bytes b) (p6_bytes st), p6_num_blocks := Suc (p6_num_blocks st),
    p6_block := 0, p6_empty := True\<rparr>"
  have name: "name = (pre @ ?h @ '':'') @ show_hex (unat c) @ rear_str bs" using Cons.prems by (simp add: rear_str_def)
  have hd: "hd (show_hex (unat c) @ rear_str bs) \<noteq> CHR '':''"
    using show_hex_hd [of "unat c"] show_hex_props(1) [of "unat c"] by (simp add: hd_append)
  have "ipv6_loop name (length pre) st = ipv6_loop name (length (pre @ ?h)) ?st"
    using block_run [of name pre b "CHR '':'' # show_hex (unat c) @ rear_str bs" st] Cons.prems
    by (simp add: rear_str_def)
  also have "\<dots> = ipv6_loop name (length (pre @ ?h @ '':'')) ?st'"
    using colon_step [of name "pre @ ?h" "show_hex (unat c) @ rear_str bs" ?st] hd name Cons.prems(4,5) show_hex_props(1) [of "unat b"]
    by simp
  finally show ?case
    using Cons.IH [of "pre @ ?h @ '':''" c ?st'] name Cons.prems(4,5) by (auto simp: put_at_join)
qed

section \<open>Round trip\<close>

lemma p6_done_compressed:
  assumes "p6_compress_pos s = int f" "p6_num_blocks s = f + r" "f + r \<le> 8"
    and "p6_bytes s = F @ R @ X" "length F = 2 * f" "length R = 2 * r" "length (p6_bytes s) = 16"
  shows "p6_done s = Some (F @ replicate (2 * (8 - r - f)) 0 @ R)"
proof -
  have e: "2 * (8 - r) = 16 - 2 * r" by simp
  have X: "length X = 16 - 2 * f - 2 * r" using assms(4-7) by simp
  have g: "get_at (2 * f) (2 * r) (p6_bytes s) = R" using assms(4-6) by (simp add: get_at_def)
  have "put_at (2 * (8 - r)) R (p6_bytes s) = take (16 - 2 * r) (F @ R @ X) @ R"
    using assms(3-7) e by (simp add: put_at_def)
  also have "take (16 - 2 * r) (F @ R @ X) = F @ take (16 - 2 * r - 2 * f) (R @ X)"
    using assms(3,5) by simp
  finally have p: "put_at (2 * (8 - r)) R (p6_bytes s) = F @ take (16 - 2 * r - 2 * f) (R @ X) @ R" by simp
  have "put_at (2 * f) (replicate (2 * (8 - r - f)) 0) (F @ take (16 - 2 * r - 2 * f) (R @ X) @ R) =
      F @ replicate (2 * (8 - r - f)) 0 @ R"
    using assms(3,5,6) X by (simp add: put_at_def)
  then show ?thesis using assms(1,2) g p by (simp add: p6_done_def Let_def)
qed

lemma zero_run_zeros:
  assumes "zero_run addr [k..<8] ((ls, ll), (cs, cl)) = (s, l)" "k \<le> 8" "cs + cl = k" "ls + ll \<le> k"
    and "\<forall>i. cs \<le> i \<and> i < k \<longrightarrow> addr ! (2 * i) = 0 \<and> addr ! (2 * i + 1) = 0"
    and "\<forall>i. ls \<le> i \<and> i < ls + ll \<longrightarrow> addr ! (2 * i) = 0 \<and> addr ! (2 * i + 1) = 0"
  shows "s + l \<le> 8 \<and> (\<forall>i. s \<le> i \<and> i < s + l \<longrightarrow> addr ! (2 * i) = 0 \<and> addr ! (2 * i + 1) = 0)"
  using assms
proof (induction "8 - k" arbitrary: k ls ll cs cl)
  case (Suc n)
  then have k: "[k..<8] = k # [Suc k..<8]" by (simp add: upt_conv_Cons)
  show ?case
  proof (cases "addr ! (2 * k) = 0 \<and> addr ! (2 * k + 1) = 0")
    case True
    then have z: "\<forall>i. cs \<le> i \<and> i < Suc k \<longrightarrow> addr ! (2 * i) = 0 \<and> addr ! (2 * i + 1) = 0"
      using Suc.prems(5) less_Suc_eq by auto
    show ?thesis
    proof (cases "cl + 1 > ll")
      case True2: True
      show ?thesis
        using Suc.hyps(1) [of "Suc k" cs "cl + 1" cs "cl + 1"] Suc.hyps(2) Suc.prems(1-4) True True2 z k by simp
    next
      case False
      show ?thesis
        using Suc.hyps(1) [of "Suc k" ls ll cs "cl + 1"] Suc.hyps(2) Suc.prems(1-4,6) True False z k by simp
    qed
  next
    case False
    have "zero_run addr [Suc k..<8] ((ls, ll), Suc k, 0) = (s, l)" using Suc.prems(1) False unfolding k by auto
    then show ?thesis using Suc.hyps(1) [of "Suc k" ls ll "Suc k" 0] Suc.hyps(2) Suc.prems(2,4,6) by simp
  qed
qed simp

lemma addr_blocks:
  assumes "length addr = 16" "j \<le> 8" "i \<le> j"
  shows "blocks_bytes (map (p6_block_at addr) [i..<j]) = get_at (2 * i) (2 * (j - i)) addr"
proof -
  have ff: "(0xFF :: u16) = mask 8" by (simp add: mask_eq_exp_minus_1)
  have "block_bytes (p6_block_at addr k) = [addr ! (2 * k), addr ! (2 * k + 1)]" for k
    unfolding block_bytes_def p6_block_at_def ff by (auto simp: bit_simps bit_u8_high intro!: bit_word_eqI)
  then show ?thesis
    using assms(2,3)
  proof (induction j)
    case (Suc j)
    show ?case
    proof (cases "i \<le> j")
      case True
      have two: "get_at (2 * j) 2 addr = [addr ! (2 * j), addr ! (2 * j + 1)]"
        using assms(1) Suc.prems by (simp add: get_at_def take_Suc_conv_app_nth numeral_2_eq_2)
      have "get_at (2 * i) (2 * (Suc j - i)) addr = get_at (2 * i) (2 * (j - i) + 2) addr" using True by (simp add: Suc_diff_le)
      also have "\<dots> = get_at (2 * i) (2 * (j - i)) addr @ get_at (2 * j) 2 addr"
        using True get_at_append_split [of "2 * i" "2 * (j - i)" 2 addr] by (simp add: diff_mult_distrib2)
      finally show ?thesis using Suc True two by simp
    qed (use Suc in \<open>auto simp: not_le\<close>)
  qed simp
qed

text \<open>The text of a compressed address: blocks, \<^verbatim>\<open>::\<close>, blocks.\<close>

definition rear_join :: "u16 list \<Rightarrow> string" where
  "rear_join bs = (case bs of [] \<Rightarrow> [] | b # bs' \<Rightarrow> show_hex (unat b) @ rear_str bs')"

lemma parse_compressed:
  assumes "length fs + length rs \<le> 6" "length old = 16"
  shows "ipaddr6_parse_ipv6_addr_bin ((if fs = [] then '':'' else front_str fs) @ '':'' @ rear_join rs) old =
     Some (blocks_bytes fs @ replicate (2 * (8 - length rs - length fs)) 0 @ blocks_bytes rs)"
proof -
  let ?pre = "(if fs = [] then '':'' else front_str fs) @ '':''"
  let ?name = "?pre @ rear_join rs"
  let ?st = "\<lparr>p6_num_blocks = length fs, p6_compress_pos = int (length fs), p6_block = 0, p6_empty = True,
     p6_bytes = put_at 0 (blocks_bytes fs) old\<rparr>"
  have front: "ipv6_loop ?name 0 (p6_init old) = ipv6_loop ?name (length ?pre) ?st"
  proof (cases "fs = []")
    case True
    then show ?thesis
      by (subst ipv6_loop.simps) (simp add: p6_colon_def p6_init_def numeral_2_eq_2)
  next
    case False
    then show ?thesis
      using front_run [OF False, of ?name "[]" "rear_join rs" "p6_init old"] assms by (simp add: p6_init_def)
  qed
  have len: "length (blocks_bytes fs @ blocks_bytes rs) \<le> 16" using assms(1) by simp
  have bytes: "put_at 0 (blocks_bytes fs @ blocks_bytes rs) old =
      blocks_bytes fs @ blocks_bytes rs @ drop (length (blocks_bytes fs @ blocks_bytes rs)) old"
    by (simp add: put_at_def)
  show ?thesis
  proof (cases rs)
    case Nil
    have "p6_done ?st = Some (blocks_bytes fs @ replicate (2 * (8 - 0 - length fs)) 0 @ [])"
      using bytes assms Nil by (intro p6_done_compressed [where X = "drop (length (blocks_bytes fs)) old"]) simp_all
    then show ?thesis
      using front Nil by (simp add: ipaddr6_parse_ipv6_addr_bin_def ipv6_end rear_join_def)
  next
    case (Cons b bs)
    obtain st where st: "ipv6_loop ?name (length ?pre) ?st = P6_End st" "\<not> p6_empty st"
      "p6_num_blocks (p6_store st) = length fs + length rs" "p6_compress_pos (p6_store st) = int (length fs)"
      "p6_bytes (p6_store st) = put_at (2 * length fs) (blocks_bytes rs) (put_at 0 (blocks_bytes fs) old)"
      using rear_run [of ?name ?pre b bs ?st] assms Cons by (auto simp: rear_join_def)
    have "p6_bytes (p6_store st) = put_at 0 (blocks_bytes fs @ blocks_bytes rs) old"
      using st(5) assms by (simp add: put_at_join)
    then have "p6_done (p6_store st) = Some (blocks_bytes fs @ replicate (2 * (8 - length rs - length fs)) 0 @ blocks_bytes rs)"
      using st bytes assms len
      by (intro p6_done_compressed [where X = "drop (length (blocks_bytes fs @ blocks_bytes rs)) old"]) simp_all
    then show ?thesis using front st by (simp add: ipaddr6_parse_ipv6_addr_bin_def)
  qed
qed

lemma parse_uncompressed:
  assumes "length bs = 7" "length old = 16"
  shows "ipaddr6_parse_ipv6_addr_bin (show_hex (unat b) @ rear_str bs) old = Some (blocks_bytes (b # bs))"
proof -
  let ?name = "show_hex (unat b) @ rear_str bs"
  obtain st where st: "ipv6_loop ?name 0 (p6_init old) = P6_End st" "\<not> p6_empty st"
    "p6_num_blocks (p6_store st) = 8" "p6_compress_pos (p6_store st) = - 1"
    "p6_bytes (p6_store st) = put_at 0 (blocks_bytes (b # bs)) old"
    using rear_run [of ?name "[]" b bs "p6_init old"] assms by (auto simp: p6_init_def)
  have "put_at 0 (blocks_bytes (b # bs)) old = blocks_bytes (b # bs)" using assms by (simp add: put_at_def)
  moreover have "put_at 0 (get_at 0 16 (blocks_bytes (b # bs))) (blocks_bytes (b # bs)) = blocks_bytes (b # bs)"
    using assms by (simp add: put_at_def get_at_def)
  ultimately have "p6_done (p6_store st) = Some (blocks_bytes (b # bs))"
    using st by (simp add: p6_done_def Let_def)
  then show ?thesis using st by (simp add: ipaddr6_parse_ipv6_addr_bin_def)
qed

lemma print_split:
  assumes "zero_run addr [0..<8] ((0, 0), (0, 0)) = (s, l)" "l > 1"
  shows "ipaddr6_print_addr addr =
     (let fs = map (p6_block_at addr) [0..<s]; rs = map (p6_block_at addr) [s + l..<8]
      in (if fs = [] then '':'' else front_str fs) @ '':'' @ rear_join rs)"
proof -
  have le: "s + l \<le> 8" using zero_run_zeros [OF assms(1)] by simp
  let ?fs = "map (p6_block_at addr) [0..<s]" and ?rs = "map (p6_block_at addr) [s + l..<8]"
  have 8: "s + l = 8 \<longleftrightarrow> ?rs = []" using le by auto
  have "ipaddr6_print_addr addr = front_str ?fs @ (if s = 0 then '':'' else []) @ rear_str ?rs @ (if ?rs = [] then '':'' else [])"
    unfolding ipaddr6_print_addr_def assms(1) using assms(2) le
    by (simp add: 8 [symmetric] front_str_def rear_str_def comp_def Let_def del: map_is_Nil_conv)
  also have "rear_str ?rs @ (if ?rs = [] then '':'' else []) = '':'' @ rear_join ?rs"
    by (cases ?rs) (simp_all add: rear_str_def rear_join_def)
  finally show ?thesis by (cases s) (simp_all add: front_str_def)
qed

lemma parse_print6:
  assumes "length addr = 16" "length old = 16"
  shows "ipaddr6_parse_ipv6_addr_bin (ipaddr6_print_addr addr) old = Some addr"
proof -
  obtain s l where run: "zero_run addr [0..<8] ((0, 0), (0, 0)) = (s, l)" by fastforce
  have z: "s + l \<le> 8" "\<forall>i. s \<le> i \<and> i < s + l \<longrightarrow> addr ! (2 * i) = 0 \<and> addr ! (2 * i + 1) = 0"
    using zero_run_zeros [OF run] by auto
  show ?thesis
  proof (cases "l > 1")
    case True
    have zeros: "get_at (2 * s) (2 * l) addr = replicate (2 * l) 0"
    proof (rule nth_equalityI)
      fix i assume "i < length (get_at (2 * s) (2 * l) addr)"
      then have i: "i < 2 * l" using z(1) assms(1) by simp
      then have "s \<le> s + i div 2 \<and> s + i div 2 < s + l" by simp
      then have "addr ! (2 * (s + i div 2)) = 0" "addr ! (2 * (s + i div 2) + 1) = 0" using z(2) by blast+
      then have "addr ! (2 * s + i) = 0" by (cases "even i") (auto elim!: evenE oddE simp: algebra_simps)
      then show "get_at (2 * s) (2 * l) addr ! i = replicate (2 * l) 0 ! i"
        using i z(1) assms(1) by (simp add: get_at_def)
    qed (use z(1) assms(1) in simp)
    have "addr = get_at 0 (2 * s) addr @ get_at (2 * s) (2 * l) addr @ get_at (2 * (s + l)) (2 * (8 - (s + l))) addr"
    proof -
      have "addr = get_at 0 (2 * s + (2 * l + 2 * (8 - (s + l)))) addr" using assms(1) z(1) by (simp add: get_at_def)
      then show ?thesis by (simp only: get_at_append_split) (simp add: algebra_simps)
    qed
    then have "addr = blocks_bytes (map (p6_block_at addr) [0..<s]) @ replicate (2 * l) 0 @ blocks_bytes (map (p6_block_at addr) [s + l..<8])"
      using addr_blocks [OF assms(1), of s 0] addr_blocks [OF assms(1), of 8 "s + l"] z(1) zeros by simp
    moreover have "2 * (8 - (8 - (s + l)) - s) = 2 * l" using z(1) by simp
    ultimately show ?thesis
      using parse_compressed [of "map (p6_block_at addr) [0..<s]" "map (p6_block_at addr) [s + l..<8]" old] True z(1) assms(2)
      by (simp add: print_split [OF run True] Let_def)
  next
    case False
    have "[0..<8] = 0 # [1..<8]" by (simp add: upt_conv_Cons)
    then have "blocks_bytes (p6_block_at addr 0 # map (p6_block_at addr) [1..<8]) = addr"
      using addr_blocks [OF assms(1), of 8 0] assms(1) by (simp add: get_at_def)
    then show ?thesis
      using parse_uncompressed [of "map (p6_block_at addr) [1..<8]" old "p6_block_at addr 0"] False run assms(2)
      by (simp add: ipaddr6_print_addr_def rear_str_def comp_def Let_def)
  qed
qed

text \<open>
  Parsing a printed IPv6 interface address gives back its sixteen bytes and its prefix
  length, for every address, compressed or not.
\<close>

theorem ipv6_ifaddr_round_trip:
  assumes "length (if6_addr a) = 16" "0 \<le> if6_prefix a" "if6_prefix a \<le> 128" "length (if6_addr old) = 16"
  shows "ipaddr6_parse_ipv6_ifaddr_bin (ipaddr6_print_ifaddr a) old = Some a"
proof -
  have u: "unat (of_nat (nat (if6_prefix a)) :: u64) = nat (if6_prefix a)"
    using assms(2,3) by (intro unat_of_nat_small) simp
  have p: "ipaddr6_parse_ipv6_prefix_bin (show_dec (nat (if6_prefix a))) = Some (if6_prefix a)"
    using assms(2,3) parse_show_dec [of "nat (if6_prefix a)"] u
    by (simp add: ipaddr6_parse_ipv6_prefix_bin_def word_less_nat_alt uint_nat del: of_nat_nat)
  have hex: "CHR ''/'' \<notin> set (show_hex n)" for n
    using show_hex_props(2) [of n] is_hex_not by (auto simp: list_all_iff)
  have "CHR ''/'' \<notin> set (ipaddr6_print_addr (if6_addr a))"
    using hex by (auto simp: ipaddr6_print_addr_def Let_def split: prod.splits)
  then show ?thesis
    using parse_print6 [OF assms(1,4)] p
    by (simp add: ipaddr6_parse_ipv6_ifaddr_bin_def ipaddr6_print_ifaddr_def b_find_char_append)
qed

lemma ipv6_ifaddr_round_trip_witness:
  "ipaddr6_print_ifaddr \<lparr>if6_addr = [0, 0xFE] @ replicate 12 0 @ [0, 0xB], if6_prefix = 64\<rparr> = ''fe::b/64'' \<and>
   ipaddr6_parse_ipv6_ifaddr_bin ''fe::b/64'' \<lparr>if6_addr = replicate 16 1, if6_prefix = 0\<rparr> =
     Some \<lparr>if6_addr = [0, 0xFE] @ replicate 12 0 @ [0, 0xB], if6_prefix = 64\<rparr>"
proof -
  let ?a = "\<lparr>if6_addr = [0, 0xFE] @ replicate 12 0 @ [0, 0xB], if6_prefix = 64\<rparr>"
  let ?b = "[0, 0xFE] @ replicate 12 0 @ [0, 0xB] :: bytes"
  have run: "zero_run ?b [0..<8] ((0, 0), (0, 0)) = (1, 6)" by code_simp
  have blocks: "unat (p6_block_at ?b 0) = 254" "unat (p6_block_at ?b 7) = 11" by code_simp+
  have hex: "show_hex 254 = ''fe''" "show_hex 11 = ''b''" "show_dec 64 = ''64''" by code_simp+
  have "[1 + 6..<8] = [7::nat]" by (simp add: upt_conv_Cons)
  then have "ipaddr6_print_addr ?b = ''fe::b''"
    unfolding ipaddr6_print_addr_def run using hex blocks by simp
  then have p: "ipaddr6_print_ifaddr ?a = ''fe::b/64''" using hex(3) by (simp add: ipaddr6_print_ifaddr_def)
  have r: "ipaddr6_parse_ipv6_ifaddr_bin (ipaddr6_print_ifaddr ?a) \<lparr>if6_addr = replicate 16 1, if6_prefix = 0\<rparr> = Some ?a"
    by (rule ipv6_ifaddr_round_trip) simp_all
  show ?thesis using p r [unfolded p] by blast
qed

section \<open>Masks and networks\<close>

lemma mask6_shape:
  assumes "p \<le> 128"
  shows "p = 128 \<Longrightarrow> ipaddr6_ipv6_mask_from_prefix (int p) = replicate 16 0xFF"
    and "p < 128 \<Longrightarrow> ipaddr6_ipv6_mask_from_prefix (int p) =
      replicate (p div 8) 0xFF @ mask8_loop (p mod 8) # replicate (15 - p div 8) 0"
proof -
  show "p = 128 \<Longrightarrow> ipaddr6_ipv6_mask_from_prefix (int p) = replicate 16 0xFF"
    by (simp add: ipaddr6_ipv6_mask_from_prefix_def Let_def)
  assume "p < 128"
  then have "p div 8 < 16" by linarith
  then have k: "16 - p div 8 = Suc (15 - p div 8)" by linarith
  show "ipaddr6_ipv6_mask_from_prefix (int p) = replicate (p div 8) 0xFF @ mask8_loop (p mod 8) # replicate (15 - p div 8) 0"
    unfolding ipaddr6_ipv6_mask_from_prefix_def Let_def nat_int k
    by (cases "p mod 8 = 0") (simp_all add: list_update_append nth_append)
qed

lemma mask8_facts: "r < 8 \<Longrightarrow> mask8_loop r \<noteq> 0xFF \<and> prefix8_loop 9 0 (mask8_loop r) 0 = r"
proof -
  have "list_all (\<lambda>r. mask8_loop r \<noteq> 0xFF \<and> prefix8_loop 9 0 (mask8_loop r) 0 = r) [0..<8]" by code_simp
  then have "\<forall>r \<in> {0..<8}. mask8_loop r \<noteq> 0xFF \<and> prefix8_loop 9 0 (mask8_loop r) 0 = r" unfolding list_all_iff set_upt .
  then show "r < 8 \<Longrightarrow> ?thesis" by (meson atLeastLessThan_iff zero_le)
qed

lemma and_ff: "x AND 0xFF = x" for x :: u8
proof -
  have ff: "(0xFF :: u8) = - 1" by simp
  show ?thesis unfolding ff by simp
qed

text \<open>
  The IPv6 mask of a prefix length has that prefix length, and two addresses are in one
  network exactly when they agree under the mask.
\<close>

theorem ipv6_masks_exact:
  assumes "0 \<le> p" "p \<le> 128" "length a1 = 16" "length a2 = 16"
  shows "ipaddr6_ipv6_prefix_from_mask (ipaddr6_ipv6_mask_from_prefix p) = Some p \<and>
    (ipaddr6_ipv6_addrs_in_network a1 a2 p \<longleftrightarrow>
       map2 (AND) a1 (ipaddr6_ipv6_mask_from_prefix p) = map2 (AND) a2 (ipaddr6_ipv6_mask_from_prefix p))"
proof -
  define n q r where "n = nat p" and "q = n div 8" and "r = n mod 8"
  have n: "p = int n" "n \<le> 128" "n = 8 * q + r" "r < 8" using assms(1,2) by (simp_all add: n_def q_def r_def)
  show ?thesis
  proof (cases "n = 128")
    case True
    have "map2 (AND) a (replicate 16 0xFF) = a" if "length a = 16" for a :: bytes
      using that by (intro nth_equalityI) (auto simp: and_ff)
    then show ?thesis
      using True n(1) assms(3,4) mask6_shape(1) [of n]
      by (simp add: ipaddr6_ipv6_prefix_from_mask_def ipaddr6_ipv6_addrs_in_network_def Let_def)
  next
    case False
    then have n128: "n < 128" using n(2) by simp
    then have q: "q < 16" unfolding q_def by linarith
    have m: "ipaddr6_ipv6_mask_from_prefix p = replicate q 0xFF @ mask8_loop r # replicate (15 - q) 0"
      using mask6_shape(2) [OF n(2) n128] n(1) unfolding q_def r_def by simp
    have tw: "takeWhile (\<lambda>b. b = 0xFF) (replicate q 0xFF @ mask8_loop r # replicate (15 - q) 0) = replicate q 0xFF"
      using mask8_facts [OF n(4)] by (simp add: takeWhile_append)
    have "ipaddr6_ipv6_prefix_from_mask (ipaddr6_ipv6_mask_from_prefix p) = Some p"
    proof -
      have 16: "take 16 (ipaddr6_ipv6_mask_from_prefix p) = ipaddr6_ipv6_mask_from_prefix p" using q by (simp add: m)
      have "ipaddr6_ipv6_mask_from_prefix p ! q = mask8_loop r"
        "drop (q + 1) (ipaddr6_ipv6_mask_from_prefix p) = replicate (15 - q) 0" by (simp_all add: m nth_append)
      moreover have "8 * int q + int r = p" using n(1,3) by simp
      ultimately show ?thesis
        using q mask8_facts [OF n(4)] n(4) unfolding ipaddr6_ipv6_prefix_from_mask_def Let_def 16
        by (simp add: m tw)
    qed
    moreover have split: "map2 (AND) a (ipaddr6_ipv6_mask_from_prefix p) =
        take q a @ (a ! q AND mask8_loop r) # replicate (15 - q) 0" if "length a = 16" for a :: bytes
      using that q by (intro nth_equalityI) (auto simp: m nth_append nth_Cons' and_ff)
    moreover have "a1 ! q AND mask8_loop r = a2 ! q AND mask8_loop r" if "r = 0" using that by simp
    ultimately show ?thesis
      using assms(3,4) n(1) by (auto simp: ipaddr6_ipv6_addrs_in_network_def Let_def q_def r_def)
  qed
qed

lemma ipv6_masks_exact_witness:
  "ipaddr6_ipv6_mask_from_prefix 20 = [0xFF, 0xFF, 0xF0] @ replicate 13 0 \<and>
   ipaddr6_ipv6_prefix_from_mask ([0xFF, 0xFF, 0xF0] @ replicate 13 0) = Some 20 \<and>
   ipaddr6_ipv6_addrs_in_network ([1, 2, 0x35] @ replicate 13 7) ([1, 2, 0x3F] @ replicate 13 9) 20"
proof -
  let ?a = "[1, 2, 0x35] @ replicate 13 7 :: bytes" and ?b = "[1, 2, 0x3F] @ replicate 13 9 :: bytes"
  have m: "ipaddr6_ipv6_mask_from_prefix 20 = [0xFF, 0xFF, 0xF0] @ replicate 13 0" by code_simp
  have e: "map2 (AND) ?a ([0xFF, 0xFF, 0xF0] @ replicate 13 0) = map2 (AND) ?b ([0xFF, 0xFF, 0xF0] @ replicate 13 0)"
    by code_simp
  have "ipaddr6_ipv6_prefix_from_mask (ipaddr6_ipv6_mask_from_prefix 20) = Some 20 \<and>
    (ipaddr6_ipv6_addrs_in_network ?a ?b 20 \<longleftrightarrow>
       map2 (AND) ?a (ipaddr6_ipv6_mask_from_prefix 20) = map2 (AND) ?b (ipaddr6_ipv6_mask_from_prefix 20))"
    by (rule ipv6_masks_exact) simp_all
  then show ?thesis unfolding m using e by blast
qed

end
