(* ===== verification/Addr.thy ===== *)
theory Addr
  imports Ip_Addr6 "HOL-Library.List_Lexorder"
begin

text \<open>
  Socket addresses: \<^verbatim>\<open>system/BAddr.h\<close>. The tagged unions \<^verbatim>\<open>BIPAddr\<close> and \<^verbatim>\<open>BAddr\<close> are datatypes; the
  type tag of an address is \<^verbatim>\<open>BAddr_type\<close>. \<^verbatim>\<open>getaddrinfo\<close> is a parameter: it takes the address
  family, the \<^verbatim>\<open>AI_NUMERICHOST\<close> flag and the host string and returns the bytes of the first
  address found. The assertions of the accessors are compiled out; their default branches
  return what the code returns there.
\<close>

section \<open>Addresses\<close>

datatype BIPAddr = BIPAddr_None | BIPAddr_IPv4 u32 | BIPAddr_IPv6 bytes

datatype BAddr =
    BAddr_None
  | BAddr_IPv4 u32 u16
  | BAddr_IPv6 bytes u16
  | BAddr_Packet u16 int int int bytes

definition BIPAddr_InitInvalid :: BIPAddr where "BIPAddr_InitInvalid = BIPAddr_None"
definition BIPAddr_InitIPv4 :: "u32 \<Rightarrow> BIPAddr" where "BIPAddr_InitIPv4 ip = BIPAddr_IPv4 ip"
definition BIPAddr_InitIPv6 :: "bytes \<Rightarrow> BIPAddr" where "BIPAddr_InitIPv6 ip = BIPAddr_IPv6 (take 16 ip)"

definition BIPAddr_IsInvalid :: "BIPAddr \<Rightarrow> bool" where
  "BIPAddr_IsInvalid addr = (addr = BIPAddr_None)"

definition BADDR_MAX_ADDR_LEN :: nat where "BADDR_MAX_ADDR_LEN = 128"

definition BIPAddr_Resolve :: "(bool \<Rightarrow> bool \<Rightarrow> string \<Rightarrow> bytes option) \<Rightarrow> string \<Rightarrow> bool \<Rightarrow> BIPAddr option" where
  "BIPAddr_Resolve getaddrinfo str noresolve =
     (let len = length str;
          ipv6 = (len \<ge> 1 \<and> str ! 0 = CHR ''['' \<and> str ! (len - 1) = CHR '']'');
          addr_str = (if ipv6 then take (len - 2) (drop 1 str) else str)
      in if length addr_str > BADDR_MAX_ADDR_LEN then None else
         (case getaddrinfo ipv6 noresolve addr_str of
            None \<Rightarrow> None
          | Some b \<Rightarrow> Some (if ipv6 then BIPAddr_IPv6 (take 16 b) else BIPAddr_IPv4 (badvpn_read_le32 b))))"

definition BIPAddr_Compare :: "BIPAddr \<Rightarrow> BIPAddr \<Rightarrow> bool" where
  "BIPAddr_Compare addr1 addr2 =
     (case (addr1, addr2) of
        (BIPAddr_IPv4 a, BIPAddr_IPv4 b) \<Rightarrow> a = b
      | (BIPAddr_IPv6 a, BIPAddr_IPv6 b) \<Rightarrow> a = b
      | _ \<Rightarrow> False)"

definition BAddr_type :: "BAddr \<Rightarrow> int" where
  "BAddr_type addr = (case addr of BAddr_None \<Rightarrow> 0 | BAddr_IPv4 _ _ \<Rightarrow> 1 | BAddr_IPv6 _ _ \<Rightarrow> 2 | BAddr_Packet _ _ _ _ _ \<Rightarrow> 5)"

definition BAddr_MakeNone :: BAddr where "BAddr_MakeNone = BAddr_None"
definition BAddr_MakeIPv4 :: "u32 \<Rightarrow> u16 \<Rightarrow> BAddr" where "BAddr_MakeIPv4 ip port = BAddr_IPv4 ip port"
definition BAddr_MakeIPv6 :: "bytes \<Rightarrow> u16 \<Rightarrow> BAddr" where "BAddr_MakeIPv6 ip port = BAddr_IPv6 (take 16 ip) port"

definition BAddr_MakeFromIpaddrAndPort :: "BIPAddr \<Rightarrow> u16 \<Rightarrow> BAddr" where
  "BAddr_MakeFromIpaddrAndPort ipaddr port =
     (case ipaddr of
        BIPAddr_None \<Rightarrow> BAddr_MakeNone
      | BIPAddr_IPv4 ip \<Rightarrow> BAddr_MakeIPv4 ip port
      | BIPAddr_IPv6 ip \<Rightarrow> BAddr_MakeIPv6 ip port)"

definition BAddr_InitPacket :: "u16 \<Rightarrow> int \<Rightarrow> int \<Rightarrow> int \<Rightarrow> bytes \<Rightarrow> BAddr" where
  "BAddr_InitPacket phys_proto interface_index header_type packet_type phys_addr =
     BAddr_Packet phys_proto interface_index header_type packet_type (take 6 phys_addr)"

definition BAddr_IsInvalid :: "BAddr \<Rightarrow> bool" where
  "BAddr_IsInvalid addr = (BAddr_type addr = 0)"

definition BAddr_GetPort :: "BAddr \<Rightarrow> u16" where
  "BAddr_GetPort addr = (case addr of BAddr_IPv4 _ port \<Rightarrow> port | BAddr_IPv6 _ port \<Rightarrow> port | _ \<Rightarrow> 0)"

definition BAddr_GetIPAddr :: "BAddr \<Rightarrow> BIPAddr" where
  "BAddr_GetIPAddr addr =
     (case addr of BAddr_IPv4 ip _ \<Rightarrow> BIPAddr_InitIPv4 ip | BAddr_IPv6 ip _ \<Rightarrow> BIPAddr_InitIPv6 ip | _ \<Rightarrow> BIPAddr_InitInvalid)"

definition BAddr_SetPort :: "BAddr \<Rightarrow> u16 \<Rightarrow> BAddr" where
  "BAddr_SetPort addr port =
     (case addr of BAddr_IPv4 ip _ \<Rightarrow> BAddr_IPv4 ip port | BAddr_IPv6 ip _ \<Rightarrow> BAddr_IPv6 ip port | _ \<Rightarrow> addr)"

definition BAddr_Compare :: "BAddr \<Rightarrow> BAddr \<Rightarrow> bool" where
  "BAddr_Compare addr1 addr2 =
     (case (addr1, addr2) of
        (BAddr_IPv4 ip1 port1, BAddr_IPv4 ip2 port2) \<Rightarrow> ip1 = ip2 \<and> port1 = port2
      | (BAddr_IPv6 ip1 port1, BAddr_IPv6 ip2 port2) \<Rightarrow> ip1 = ip2 \<and> port1 = port2
      | _ \<Rightarrow> False)"

fun memcmp_bytes :: "bytes \<Rightarrow> bytes \<Rightarrow> int" where
  "memcmp_bytes (a # s) (b # t) = (if a = b then memcmp_bytes s t else if a < b then - 1 else 1)"
| "memcmp_bytes _ _ = 0"

definition BAddr_CompareOrder :: "BAddr \<Rightarrow> BAddr \<Rightarrow> int" where
  "BAddr_CompareOrder addr1 addr2 =
     (let cmp = B_COMPARE (BAddr_type addr1) (BAddr_type addr2) in
      if cmp \<noteq> 0 then cmp else
      (case (addr1, addr2) of
         (BAddr_IPv4 ip1 port1, BAddr_IPv4 ip2 port2) \<Rightarrow>
           let cmp = B_COMPARE (ntoh32 ip1) (ntoh32 ip2) in
           if cmp \<noteq> 0 then cmp else B_COMPARE (ntoh16 port1) (ntoh16 port2)
       | (BAddr_IPv6 ip1 port1, BAddr_IPv6 ip2 port2) \<Rightarrow>
           let cmp = memcmp_bytes ip1 ip2 in
           if cmp \<noteq> 0 then B_COMPARE cmp 0 else B_COMPARE (ntoh16 port1) (ntoh16 port2)
       | _ \<Rightarrow> 0))"

section \<open>Printing and parsing\<close>

definition show_int :: "int \<Rightarrow> string" where
  "show_int n = (if n < 0 then ''-'' @ show_dec (nat (- n)) else show_dec (nat n))"

definition show_hex2 :: "u8 \<Rightarrow> string" where
  "show_hex2 b = (if unat b < 16 then ''0'' else []) @ show_hex (unat b)"

definition BIPAddr_Print :: "BIPAddr \<Rightarrow> string" where
  "BIPAddr_Print addr =
     (case addr of
        BIPAddr_None \<Rightarrow> ''(none)''
      | BIPAddr_IPv4 ip \<Rightarrow>
          show_dec (unat (mem32 ip ! 0)) @ ''.'' @ show_dec (unat (mem32 ip ! 1)) @ ''.'' @
          show_dec (unat (mem32 ip ! 2)) @ ''.'' @ show_dec (unat (mem32 ip ! 3))
      | BIPAddr_IPv6 ip \<Rightarrow>
          show_hex (unat (badvpn_read_be16 ip)) @ '':'' @ show_hex (unat (badvpn_read_be16 (drop 2 ip))) @ '':'' @
          show_hex (unat (badvpn_read_be16 (drop 4 ip))) @ '':'' @ show_hex (unat (badvpn_read_be16 (drop 6 ip))) @ '':'' @
          show_hex (unat (badvpn_read_be16 (drop 8 ip))) @ '':'' @ show_hex (unat (badvpn_read_be16 (drop 10 ip))) @ '':'' @
          show_hex (unat (badvpn_read_be16 (drop 12 ip))) @ '':'' @ show_hex (unat (badvpn_read_be16 (drop 14 ip))))"

definition BAddr_Print :: "BAddr \<Rightarrow> string" where
  "BAddr_Print addr =
     (case addr of
        BAddr_None \<Rightarrow> ''(none)''
      | BAddr_IPv4 ip port \<Rightarrow> BIPAddr_Print (BIPAddr_InitIPv4 ip) @ '':'' @ show_dec (unat (ntoh16 port))
      | BAddr_IPv6 ip port \<Rightarrow> BIPAddr_Print (BIPAddr_InitIPv6 ip) @ '':'' @ show_dec (unat (ntoh16 port))
      | BAddr_Packet phys_proto interface_index header_type packet_type phys_addr \<Rightarrow>
          ''proto='' @ show_dec (unat phys_proto) @ '',ifindex='' @ show_int interface_index @ '',htype=eth,ptype='' @
          show_int packet_type @ '',addr='' @ show_hex2 (phys_addr ! 0) @ '':'' @ show_hex2 (phys_addr ! 1) @ '':'' @
          show_hex2 (phys_addr ! 2) @ '':'' @ show_hex2 (phys_addr ! 3) @ '':'' @ show_hex2 (phys_addr ! 4) @ '':'' @
          show_hex2 (phys_addr ! 5))"

text \<open>\<^verbatim>\<open>strtol\<close> in base ten: the number and the rest of the string; on a string with no number the
  rest is the whole string.\<close>

definition is_space :: "char \<Rightarrow> bool" where
  "is_space c \<longleftrightarrow> (of_char c :: nat) = 32 \<or> 9 \<le> (of_char c :: nat) \<and> (of_char c :: nat) \<le> 13"

definition strtol10 :: "string \<Rightarrow> int \<times> string" where
  "strtol10 str =
     (let s = dropWhile is_space str;
          (neg, s) = (case s of [] \<Rightarrow> (False, s)
             | c # r \<Rightarrow> if c = CHR ''-'' then (True, r) else if c = CHR ''+'' then (False, r) else (False, s));
          ds = takeWhile is_digit s
      in if ds = [] then (0, str)
         else ((if neg then - int (dec_val 0 ds) else int (dec_val 0 ds)), drop (length ds) s))"

definition BAddr_Parse2 ::
    "(bool \<Rightarrow> bool \<Rightarrow> string \<Rightarrow> bytes option) \<Rightarrow> string \<Rightarrow> int option \<Rightarrow> bool \<Rightarrow> (BAddr \<times> string option) option" where
  "BAddr_Parse2 getaddrinfo str name noresolve =
     (let len = length str in
      if len < 1 \<or> len > 1000 then None else
      let ipv6 = (str ! 0 = CHR ''['');
          i = (if ipv6 then 1 + length (takeWhile (\<lambda>c. c \<noteq> CHR '']'') (drop 1 str))
               else length (takeWhile (\<lambda>c. c \<noteq> CHR '':'') str)) in
      if i \<ge> len then None else
      if ipv6 \<and> (i + 1 \<ge> len \<or> str ! (i + 1) \<noteq> CHR '':'') then None else
      let addr_str = (if ipv6 then take (i - 1) (drop 1 str) else take i str);
          port_str = (if ipv6 then drop (i + 2) str else drop (i + 1) str) in
      if length addr_str \<ge> 128 then None else
      if length port_str \<ge> 6 then None else
      let (conv_res, err) = strtol10 port_str in
      if port_str = [] \<or> err \<noteq> [] then None else
      if conv_res < 0 \<or> conv_res > 65535 then None else
      let port = hton16 (word_of_int conv_res) in
      (case getaddrinfo ipv6 noresolve addr_str of
         None \<Rightarrow> None
       | Some b \<Rightarrow>
           let addr = (if ipv6 then BAddr_IPv6 (take 16 b) port else BAddr_IPv4 (badvpn_read_le32 b) port) in
           (case name of
              None \<Rightarrow> Some (addr, None)
            | Some name_len \<Rightarrow> if int (length addr_str) \<ge> name_len then None else Some (addr, Some addr_str))))"

definition BAddr_Parse ::
    "(bool \<Rightarrow> bool \<Rightarrow> string \<Rightarrow> bytes option) \<Rightarrow> string \<Rightarrow> int option \<Rightarrow> (BAddr \<times> string option) option" where
  "BAddr_Parse getaddrinfo str name = BAddr_Parse2 getaddrinfo str name False"

section \<open>The order of addresses\<close>

text \<open>The key of an address: its tag and its fields as the order looks at them.\<close>

definition BAddr_key :: "BAddr \<Rightarrow> nat list" where
  "BAddr_key addr =
     (case addr of
        BAddr_None \<Rightarrow> [0]
      | BAddr_IPv4 ip port \<Rightarrow> [1, unat (ntoh32 ip), unat (ntoh16 port)]
      | BAddr_IPv6 ip port \<Rightarrow> 2 # map unat ip @ [unat (ntoh16 port)]
      | BAddr_Packet _ _ _ _ _ \<Rightarrow> [5])"

text \<open>An address as the constructors of the code build it, other than a packet socket address.\<close>

definition BAddr_ip :: "BAddr \<Rightarrow> bool" where
  "BAddr_ip addr = (case addr of BAddr_IPv6 ip _ \<Rightarrow> length ip = 16 | BAddr_Packet _ _ _ _ _ \<Rightarrow> False | _ \<Rightarrow> True)"

lemma B_COMPARE_Cons:
  "B_COMPARE (x # xs) (y # ys) = (if B_COMPARE x y \<noteq> 0 then B_COMPARE x y else B_COMPARE xs ys)"
  for x y :: "'a::linorder"
  by (auto simp: B_COMPARE_def not_less_iff_gr_or_eq)

lemma B_COMPARE_unat: "B_COMPARE (unat x) (unat y) = B_COMPARE x y" for x y :: "'a::len word"
  by (simp add: B_COMPARE_def word_less_nat_alt)

lemma memcmp_bytes_key:
  "length a = length b \<Longrightarrow> B_COMPARE (map unat a @ x) (map unat b @ y) =
     (if memcmp_bytes a b \<noteq> 0 then B_COMPARE (memcmp_bytes a b) 0 else B_COMPARE x y)"
proof (induction a b rule: memcmp_bytes.induct)
  case (1 a s b t)
  show ?case
  proof (cases "a = b")
    case True
    then show ?thesis using 1 by (simp add: B_COMPARE_Cons B_COMPARE_simps(1))
  next
    case False
    then have "B_COMPARE a b = (if a < b then - 1 else 1)" by (auto simp: B_COMPARE_def)
    then show ?thesis using False by (simp add: B_COMPARE_Cons B_COMPARE_unat) (simp add: B_COMPARE_def)
  qed
qed auto

lemma BAddr_CompareOrder_key:
  assumes "BAddr_ip a" "BAddr_ip b"
  shows "BAddr_CompareOrder a b = B_COMPARE (BAddr_key a) (BAddr_key b)"
proof -
  have nil: "B_COMPARE [] ([] :: nat list) = 0" by (simp add: B_COMPARE_def)
  have tags: "B_COMPARE 0 (Suc 0) = - 1" "B_COMPARE (0::nat) 2 = - 1" "B_COMPARE (Suc 0) 0 = 1" "B_COMPARE (Suc 0) 2 = - 1"
    "B_COMPARE (2::nat) 0 = 1" "B_COMPARE 2 (Suc 0) = 1" "B_COMPARE n n = (0::int)"
    "B_COMPARE (0::int) 1 = - 1" "B_COMPARE (0::int) 2 = - 1" "B_COMPARE (1::int) 0 = 1" "B_COMPARE (1::int) 2 = - 1"
    "B_COMPARE (2::int) 0 = 1" "B_COMPARE (2::int) 1 = 1" for n :: nat
    by (simp_all add: B_COMPARE_def)
  have int: "B_COMPARE n n = (0::int)" for n :: int by (simp add: B_COMPARE_def)
  show ?thesis
    using assms memcmp_bytes_key
    by (cases a; cases b)
      (simp_all add: BAddr_CompareOrder_def BAddr_type_def BAddr_key_def BAddr_ip_def Let_def B_COMPARE_Cons B_COMPARE_unat
        nil tags int)
qed

lemma hton16_ntoh16: "hton16 (ntoh16 p) = p"
  unfolding ntoh16_def hton16_def badvpn_reverse16_def badvpn_read_le16_def mem16_def
  by (rule bit_word_eqI) (auto simp: bit_simps)

lemma ntoh_inject [simp]: "ntoh32 x = ntoh32 y \<longleftrightarrow> x = y" "ntoh16 p = ntoh16 q \<longleftrightarrow> p = q"
proof -
  show "ntoh32 x = ntoh32 y \<longleftrightarrow> x = y" by (metis ntoh32_hton32(2))
  show "ntoh16 p = ntoh16 q \<longleftrightarrow> p = q" by (metis hton16_ntoh16)
qed

lemma BAddr_key_inject:
  assumes "BAddr_ip a" "BAddr_ip b"
  shows "BAddr_key a = BAddr_key b \<longleftrightarrow> a = b"
proof -
  have "map unat xs = map unat ys \<longleftrightarrow> xs = ys" for xs ys :: bytes
    by (metis (mono_tags, lifting) inj_onI list.inj_map_strong word_unat_eq_iff)
  then show ?thesis
    using assms by (cases a; cases b) (auto simp: BAddr_key_def BAddr_ip_def word_unat_eq_iff [symmetric])
qed

text \<open>
  On the addresses without a packet socket, \<^verbatim>\<open>BAddr_CompareOrder\<close> is a strict total order
  (antisymmetric, transitive, zero exactly on equal addresses), and \<^verbatim>\<open>BAddr_Compare\<close> is
  equality of addresses that are not the invalid one.
\<close>

theorem BAddr_total_order:
  assumes "BAddr_ip a" "BAddr_ip b" "BAddr_ip c"
  shows "(BAddr_CompareOrder a b = 0 \<longleftrightarrow> a = b) \<and> BAddr_CompareOrder b a = - BAddr_CompareOrder a b \<and>
    (BAddr_CompareOrder a b < 0 \<and> BAddr_CompareOrder b c < 0 \<longrightarrow> BAddr_CompareOrder a c < 0) \<and>
    (BAddr_Compare a b \<longleftrightarrow> a = b \<and> a \<noteq> BAddr_None)"
proof -
  have "BAddr_CompareOrder b a = - BAddr_CompareOrder a b"
    unfolding BAddr_CompareOrder_key [OF assms(2,1)] BAddr_CompareOrder_key [OF assms(1,2)] by (rule B_COMPARE_simps(4))
  moreover have "BAddr_Compare a b \<longleftrightarrow> a = b \<and> a \<noteq> BAddr_None"
    using assms by (cases a; cases b) (auto simp: BAddr_Compare_def BAddr_ip_def)
  ultimately show ?thesis
    using assms by (auto simp: BAddr_CompareOrder_key BAddr_key_inject B_COMPARE_simps(1,2))
qed

lemma BAddr_total_order_witness:
  "BAddr_CompareOrder (BAddr_IPv4 0x0100000A 0x5000) (BAddr_IPv4 0x0200000A 0x3500) = - 1 \<and>
   BAddr_CompareOrder (BAddr_IPv4 0x0200000A 0x3500) (BAddr_IPv4 0x0100000A 0x5000) = 1"
proof -
  have "BAddr_CompareOrder (BAddr_IPv4 0x0100000A 0x5000) (BAddr_IPv4 0x0200000A 0x3500) = - 1" by code_simp
  then show ?thesis
    using BAddr_total_order [of "BAddr_IPv4 0x0100000A 0x5000" "BAddr_IPv4 0x0200000A 0x3500" BAddr_None]
    by (simp add: BAddr_ip_def)
qed

section \<open>Parsing a printed address\<close>

text \<open>What is relied on of \<^verbatim>\<open>getaddrinfo\<close>: a dotted IPv4 address is converted to its octets.\<close>

definition numeric_hosts :: "(bool \<Rightarrow> bool \<Rightarrow> string \<Rightarrow> bytes option) \<Rightarrow> bool \<Rightarrow> bool" where
  "numeric_hosts getaddrinfo noresolve \<longleftrightarrow> (\<forall>ip. getaddrinfo False noresolve (ipaddr_print_addr ip) = Some (mem32 ip))"

lemma strtol10_digits:
  assumes "list_all is_digit s" "s \<noteq> []"
  shows "strtol10 s = (int (dec_val 0 s), [])"
proof -
  obtain c r where s: "s = c # r" using assms(2) by (cases s) auto
  have c: "\<not> is_space c" "c \<noteq> CHR ''-''" "c \<noteq> CHR ''+''"
    using assms(1) by (auto simp: s is_digit_def is_space_def)
  have "takeWhile is_digit s = s" using assms(1) by (simp add: takeWhile_eq_all_conv list_all_iff)
  then show ?thesis using c by (simp add: strtol10_def s Let_def)
qed

lemma print_addr_chars:
  "CHR '':'' \<notin> set (ipaddr_print_addr ip)" "CHR ''['' \<notin> set (ipaddr_print_addr ip)" "length (ipaddr_print_addr ip) \<le> 15"
proof -
  show "CHR '':'' \<notin> set (ipaddr_print_addr ip)" "CHR ''['' \<notin> set (ipaddr_print_addr ip)"
    using show_dec_no [of "CHR '':''"] show_dec_no [of "CHR ''[''"]
    by (simp_all add: ipaddr_print_addr_def Let_def is_digit_def)
  have l: "length (show_dec (unat b)) \<le> 3" for b :: u8
    using unat_lt [of b] by (intro length_show_dec) simp_all
  show "length (ipaddr_print_addr ip) \<le> 15"
    using l [of "mem32 ip ! 0"] l [of "mem32 ip ! 1"] l [of "mem32 ip ! 2"] l [of "mem32 ip ! 3"]
    by (simp add: ipaddr_print_addr_def Let_def)
qed

lemma BAddr_parse_host_port:
  assumes "numeric_hosts getaddrinfo noresolve" "p < 65536"
  shows "BAddr_Parse2 getaddrinfo (ipaddr_print_addr ip @ '':'' @ show_dec p) None noresolve = Some (BAddr_IPv4 ip (hton16 (of_nat p)), None)"
proof -
  let ?a = "ipaddr_print_addr ip" and ?p = "show_dec p"
  have p: "length ?p \<le> 5" "?p \<noteq> []" "strtol10 ?p = (int p, [])"
    using assms(2) length_show_dec [of p 5] show_dec_props [of p] by (auto simp: strtol10_digits)
  have tw: "takeWhile (\<lambda>c. c \<noteq> CHR '':'') (?a @ CHR '':'' # ?p) = ?a"
    using print_addr_chars(1) [of ip] by (auto simp: takeWhile_append)
  have "?a \<noteq> []" by (simp add: ipaddr_print_addr_def Let_def)
  then have "(?a @ CHR '':'' # ?p) ! 0 \<noteq> CHR ''[''"
    using print_addr_chars(2) [of ip] by (cases ?a) auto
  moreover have "getaddrinfo False noresolve ?a = Some (mem32 ip)" using assms by (simp add: numeric_hosts_def)
  ultimately show ?thesis
    using p assms(2) tw print_addr_chars(3) [of ip] mem32_read [of ip]
    unfolding BAddr_Parse2_def Let_def by simp
qed



end

