(* ===== verification/Tun_Packets.thy ===== *)
theory Tun_Packets
  imports Net_Proto Addr
begin

text \<open>
  The packet path of \<^verbatim>\<open>tun2socks/tun2socks.c\<close>: packets read from the tun device are offered to
  the DNS gateway, to the UDP forwarder and to lwIP, in this order; datagrams received from
  the UDP gateway and packets written by lwIP go to the device. The options and addresses set
  at start are \<^verbatim>\<open>tun_env\<close>; \<^verbatim>\<open>tun_state\<close> is what the functions change: the table of DNS
  connections, whether it has been initialised, and the device write buffer. Calls out of the
  program are the list of \<^verbatim>\<open>tun_call\<close> of each function, in order. The connection tree, an AVL
  tree keyed by port, is the finite map it implements; allocation of a connection succeeds.
\<close>

section \<open>State\<close>

record tun_env =
  env_dnsgw :: bool
  env_dnsgw_ip :: u32
  env_dnsgw_port :: u16
  env_udpgw :: bool
  env_transparent_dns :: bool
  env_ip6addr :: bool
  env_netif_ipaddr :: u32
  env_mtu :: int
  env_udp_mtu :: int

record Connection =
  con_local_addr :: BAddr
  con_remote_addr :: BAddr
  con_port :: u16
  con_count :: int

record tun_state =
  ts_init :: bool
  ts_connections :: "u16 \<rightharpoonup> Connection"
  ts_write_buf :: bytes

datatype tun_call =
    Tun_Read_Done
  | Tun_BTap_Send bytes
  | Tun_SubmitPacket BAddr BAddr bool bytes
  | Tun_netif_input bytes
  | Tun_pbuf_free

section \<open>DNS connections\<close>

definition find_connection :: "u16 \<Rightarrow> tun_state \<Rightarrow> Connection option" where
  "find_connection port s = ts_connections s port"

definition remove_connection :: "Connection \<Rightarrow> tun_state \<Rightarrow> tun_state" where
  "remove_connection con s =
     (let con' = con\<lparr>con_count := con_count con - 1\<rparr> in
      if con_count con' \<le> 0 then s\<lparr>ts_connections := (ts_connections s)(con_port con := None)\<rparr>
      else s\<lparr>ts_connections := (ts_connections s)(con_port con \<mapsto> con')\<rparr>)"

definition insert_connection :: "BAddr \<Rightarrow> BAddr \<Rightarrow> u16 \<Rightarrow> tun_state \<Rightarrow> tun_state" where
  "insert_connection local_addr remote_addr port s =
     (case find_connection port s of
        Some con \<Rightarrow> s\<lparr>ts_connections := (ts_connections s)(port \<mapsto> con\<lparr>con_count := con_count con + 1\<rparr>)\<rparr>
      | None \<Rightarrow> s\<lparr>ts_connections := (ts_connections s)(port \<mapsto>
          \<lparr>con_local_addr = local_addr, con_remote_addr = remote_addr, con_port = port, con_count = 1\<rparr>)\<rparr>)"

definition free_connections :: "tun_state \<Rightarrow> tun_state" where
  "free_connections s = s\<lparr>ts_connections := Map.empty\<rparr>"

definition baddr_from_lwip :: "bool \<Rightarrow> bytes \<Rightarrow> u32 \<Rightarrow> u16 \<Rightarrow> BAddr" where
  "baddr_from_lwip is_ipv6 ip6 ip4 port_hostorder =
     (if is_ipv6 then BAddr_MakeIPv6 ip6 (hton16 port_hostorder) else BAddr_MakeIPv4 ip4 (hton16 port_hostorder))"

section \<open>The DNS gateway\<close>

definition ip_version :: "bytes \<Rightarrow> u8" where
  "ip_version data = (if length data > 0 then drop_bit 4 (data ! 0) else 0)"

text \<open>The IPv4 address of a socket address; the code reads the union without a test.\<close>

definition addr_ip4 :: "BAddr \<Rightarrow> u32" where
  "addr_ip4 a = (case a of BAddr_IPv4 ip _ \<Rightarrow> ip | _ \<Rightarrow> 0)"

definition addr_port4 :: "BAddr \<Rightarrow> u16" where
  "addr_port4 a = (case a of BAddr_IPv4 _ port \<Rightarrow> port | _ \<Rightarrow> 0)"

text \<open>An IPv4 UDP packet whose header, UDP header and UDP checksum pass.\<close>

definition parse_udp4 :: "bytes \<Rightarrow> (ipv4_header \<times> udp_header \<times> bytes) option" where
  "parse_udp4 data =
     (if length data < 20 \<or> data ! 9 \<noteq> IPV4_PROTOCOL_UDP then None else
      case ipv4_check data of
        None \<Rightarrow> None
      | Some (ih, _, p) \<Rightarrow>
          (case udp_check p of
             None \<Rightarrow> None
           | Some (uh, payload) \<Rightarrow>
               if udp_hchecksum uh \<noteq>
                  udp_checksum (uh\<lparr>udp_hchecksum := 0\<rparr>) payload (ip4_source_address ih) (ip4_destination_address ih)
               then None else Some (ih, uh, payload)))"

text \<open>The rewriting of the addresses, to the gateway or back; None is the bypass.\<close>

definition dns_rewrite ::
    "tun_env \<Rightarrow> ipv4_header \<Rightarrow> udp_header \<Rightarrow> tun_state \<Rightarrow> (ipv4_header \<times> udp_header \<times> tun_state) option" where
  "dns_rewrite env ih uh s =
     (let to_dns = (udp_dest_port uh = hton16 53); from_dns = (udp_source_port uh = env_dnsgw_port env) in
      if to_dns then
        let s1 = (if ts_init s then s else s\<lparr>ts_init := True, ts_connections := Map.empty\<rparr>);
            local_addr = BAddr_MakeIPv4 (ip4_source_address ih) (udp_source_port uh);
            remote_addr = BAddr_MakeIPv4 (ip4_destination_address ih) (udp_dest_port uh)
        in Some (ih\<lparr>ip4_destination_address := env_dnsgw_ip env, ip4_source_address := env_netif_ipaddr env\<rparr>,
                 uh\<lparr>udp_dest_port := env_dnsgw_port env\<rparr>,
                 insert_connection local_addr remote_addr (udp_source_port uh) s1)
      else if from_dns then
        if \<not> ts_init s then None else
        (case find_connection (udp_dest_port uh) s of
           None \<Rightarrow> None
         | Some con \<Rightarrow>
             Some (ih\<lparr>ip4_source_address := addr_ip4 (con_remote_addr con), ip4_destination_address := addr_ip4 (con_local_addr con)\<rparr>,
                   uh\<lparr>udp_source_port := addr_port4 (con_remote_addr con)\<rparr>,
                   remove_connection con s))
      else None)"

definition process_device_dns_packet :: "tun_env \<Rightarrow> bytes \<Rightarrow> tun_state \<Rightarrow> tun_state \<times> tun_call list \<times> bool" where
  "process_device_dns_packet env data s =
     (if \<not> env_dnsgw env then (s, [], False) else
      if ip_version data \<noteq> 4 then (s, [], False) else
      case parse_udp4 data of
        None \<Rightarrow> (s, [], False)
      | Some (ih, uh, payload) \<Rightarrow>
          (case dns_rewrite env ih uh s of
             None \<Rightarrow> (s, [], False)
           | Some (ih, uh, s) \<Rightarrow>
               let ih = ih\<lparr>ip4_checksum := ipv4_checksum (ih\<lparr>ip4_checksum := hton16 0\<rparr>) []\<rparr>;
                   uh = uh\<lparr>udp_hchecksum := udp_checksum (uh\<lparr>udp_hchecksum := hton16 0\<rparr>) payload
                             (ip4_source_address ih) (ip4_destination_address ih)\<rparr>;
                   buf = put_at 0 (ipv4_header_bytes ih) (ts_write_buf s);
                   buf = put_at 20 (udp_header_bytes uh) buf;
                   buf = put_at 28 payload buf;
                   packet_length = 28 + length payload
               in (s\<lparr>ts_write_buf := buf\<rparr>, [Tun_BTap_Send (take packet_length buf)], True)))"

section \<open>UDP from the device\<close>

fun inet_sum_loop :: "bytes \<Rightarrow> u32 \<Rightarrow> u32" where
  "inet_sum_loop (a # b # r) t = inet_sum_loop r (t + (push_bit 8 (ucast a) OR ucast b))"
| "inet_sum_loop _ t = t"

definition inet_checksum :: "bytes \<Rightarrow> u16" where
  "inet_checksum data = ucast (NOT (fold_carry (inet_sum_loop data 0)))"

definition reject_device_udp_packet :: "tun_env \<Rightarrow> bytes \<Rightarrow> tun_state \<Rightarrow> tun_state \<times> tun_call list \<times> bool" where
  "reject_device_udp_packet env data s =
     (if length data < 20 \<or> drop_bit 4 (data ! 0) \<noteq> 4 \<or> data ! 9 \<noteq> IPV4_PROTOCOL_UDP then (s, [], False) else
      case ipv4_check data of
        None \<Rightarrow> (s, [], False)
      | Some (orig, payload_off, payload) \<Rightarrow>
          if length payload < 8 then (s, [], False) else
          let quote_len = payload_off + 8;
              icmp_len = 8 + quote_len;
              total_len = 20 + icmp_len
          in if int total_len > env_mtu env then (s, [], True) else
          let buf = put_at 20 ([3, 3] @ replicate 6 0) (ts_write_buf s);
              buf = put_at 28 (take quote_len data) buf;
              icmp_sum = inet_checksum (get_at 20 icmp_len buf);
              buf = put_at 22 [ucast (drop_bit 8 icmp_sum), ucast (icmp_sum AND 0xFF)] buf;
              reply = \<lparr>ip4_version4_ihl4 = IPV4_MAKE_VERSION_IHL 20, ip4_ds = 0, ip4_total_length = hton16 (of_nat total_len),
                       ip4_identification = hton16 0, ip4_flags3_fragmentoffset13 = hton16 0, ip4_ttl = 64, ip4_protocol = 1,
                       ip4_checksum = hton16 0, ip4_source_address = ip4_destination_address orig,
                       ip4_destination_address = ip4_source_address orig\<rparr>;
              reply = reply\<lparr>ip4_checksum := ipv4_checksum reply []\<rparr>;
              buf = put_at 0 (ipv4_header_bytes reply) buf
          in (s\<lparr>ts_write_buf := buf\<rparr>, [Tun_BTap_Send (take total_len buf)], True))"

definition process_device_udp_packet :: "tun_env \<Rightarrow> bytes \<Rightarrow> tun_state \<Rightarrow> tun_state \<times> tun_call list \<times> bool" where
  "process_device_udp_packet env data s =
     (if \<not> env_udpgw env then reject_device_udp_packet env data s else
      case (if ip_version data = 4 then
              (case parse_udp4 data of
                 None \<Rightarrow> None
               | Some (ih, uh, payload) \<Rightarrow>
                   Some (BAddr_MakeIPv4 (ip4_source_address ih) (udp_source_port uh),
                         BAddr_MakeIPv4 (ip4_destination_address ih) (udp_dest_port uh),
                         env_transparent_dns env \<and> ip4_destination_address ih = env_netif_ipaddr env \<and>
                           udp_dest_port uh = hton16 53,
                         payload))
            else if ip_version data = 6 then
              if \<not> env_ip6addr env then None else
              if length data < 40 \<or> data ! 6 \<noteq> IPV6_NEXT_UDP then None else
              (case ipv6_check data of
                 None \<Rightarrow> None
               | Some (ih, p) \<Rightarrow>
                   (case udp_check p of
                      None \<Rightarrow> None
                    | Some (uh, payload) \<Rightarrow>
                        if udp_hchecksum uh \<noteq>
                           udp_ip6_checksum (uh\<lparr>udp_hchecksum := 0\<rparr>) payload (ip6_source_address ih) (ip6_destination_address ih)
                        then None
                        else Some (BAddr_MakeIPv6 (ip6_source_address ih) (udp_source_port uh),
                                   BAddr_MakeIPv6 (ip6_destination_address ih) (udp_dest_port uh), False, payload)))
            else None) of
        None \<Rightarrow> (s, [], False)
      | Some (local_addr, remote_addr, is_dns, payload) \<Rightarrow>
          if int (length payload) > env_udp_mtu env then (s, [], False)
          else (s, [Tun_SubmitPacket local_addr remote_addr is_dns payload], True))"

text \<open>\<^verbatim>\<open>alloc\<close> and \<^verbatim>\<open>input\<close> are lwIP's answers: whether \<^verbatim>\<open>pbuf_alloc\<close> found memory and whether
  \<^verbatim>\<open>netif.input\<close> returned \<^verbatim>\<open>ERR_OK\<close>.\<close>

definition device_read_handler_send :: "bool \<Rightarrow> bool \<Rightarrow> tun_env \<Rightarrow> bytes \<Rightarrow> tun_state \<Rightarrow> tun_state \<times> tun_call list" where
  "device_read_handler_send alloc input env data s =
     (let (s1, calls1, taken1) = process_device_dns_packet env data s in
      if taken1 then (s1, Tun_Read_Done # calls1) else
      let (s2, calls2, taken2) = process_device_udp_packet env data s1 in
      if taken2 then (s2, Tun_Read_Done # calls1 @ calls2) else
      let calls = Tun_Read_Done # calls1 @ calls2 in
      if length data > 65535 then (s2, calls) else
      if \<not> alloc then (s2, calls) else
      (s2, calls @ [Tun_netif_input data] @ (if input then [] else [Tun_pbuf_free])))"

section \<open>UDP from the gateway\<close>

definition udpgw_client_handler_received ::
    "tun_env \<Rightarrow> BAddr \<Rightarrow> BAddr \<Rightarrow> bytes \<Rightarrow> tun_state \<Rightarrow> tun_state \<times> tun_call list" where
  "udpgw_client_handler_received env local_addr remote_addr data s =
     (case local_addr of
        BAddr_IPv4 local_ip local_port \<Rightarrow>
          if int (length data) > 65535 - 28 \<or> int (length data) > env_mtu env - 28 then (s, []) else
          let iph = \<lparr>ip4_version4_ihl4 = IPV4_MAKE_VERSION_IHL 20, ip4_ds = hton8 0,
                     ip4_total_length = hton16 (of_nat (28 + length data)), ip4_identification = hton16 0,
                     ip4_flags3_fragmentoffset13 = hton16 0, ip4_ttl = hton8 64, ip4_protocol = hton8 IPV4_PROTOCOL_UDP,
                     ip4_checksum = hton16 0, ip4_source_address = addr_ip4 remote_addr, ip4_destination_address = local_ip\<rparr>;
              iph = iph\<lparr>ip4_checksum := ipv4_checksum iph []\<rparr>;
              udph = \<lparr>udp_source_port = addr_port4 remote_addr, udp_dest_port = local_port,
                      udp_length = hton16 (of_nat (8 + length data)), udp_hchecksum = hton16 0\<rparr>;
              udph = udph\<lparr>udp_hchecksum := udp_checksum udph data (ip4_source_address iph) (ip4_destination_address iph)\<rparr>;
              buf = put_at 28 data (put_at 20 (udp_header_bytes udph) (put_at 0 (ipv4_header_bytes iph) (ts_write_buf s)))
          in (s\<lparr>ts_write_buf := buf\<rparr>, [Tun_BTap_Send (take (28 + length data) buf)])
      | BAddr_IPv6 local_ip local_port \<Rightarrow>
          if \<not> env_ip6addr env then (s, []) else
          if int (length data) > 65535 - 8 \<or> int (length data) > env_mtu env - 48 then (s, []) else
          let (remote_ip, remote_port) = (case remote_addr of BAddr_IPv6 ip port \<Rightarrow> (ip, port) | _ \<Rightarrow> ([], 0));
              iph = \<lparr>ip6_version4_tc4 = hton8 0x60, ip6_tc4_fl4 = hton8 0, ip6_fl = hton16 0,
                     ip6_payload_length = hton16 (of_nat (8 + length data)), ip6_next_header = hton8 IPV6_NEXT_UDP,
                     ip6_hop_limit = hton8 64, ip6_source_address = take 16 remote_ip, ip6_destination_address = take 16 local_ip\<rparr>;
              udph = \<lparr>udp_source_port = remote_port, udp_dest_port = local_port,
                      udp_length = hton16 (of_nat (8 + length data)), udp_hchecksum = hton16 0\<rparr>;
              udph = udph\<lparr>udp_hchecksum := udp_ip6_checksum udph data (ip6_source_address iph) (ip6_destination_address iph)\<rparr>;
              buf = put_at 48 data (put_at 40 (udp_header_bytes udph) (put_at 0 (ipv6_header_bytes iph) (ts_write_buf s)))
          in (s\<lparr>ts_write_buf := buf\<rparr>, [Tun_BTap_Send (take (48 + length data) buf)])
      | _ \<Rightarrow> (s, [Tun_BTap_Send []]))"

section \<open>Packets from and to lwIP\<close>

text \<open>The chain of chunks is copied to the buffer while it fits.\<close>

fun copy_chunks :: "int \<Rightarrow> bytes list \<Rightarrow> nat \<Rightarrow> bytes \<Rightarrow> bytes \<times> nat option" where
  "copy_chunks mtu [] len buf = (buf, Some len)"
| "copy_chunks mtu (c # cs) len buf =
     (if int (length c) > mtu - int len then (buf, None)
      else copy_chunks mtu cs (len + length c) (put_at len c buf))"

definition common_netif_output :: "bool \<Rightarrow> tun_env \<Rightarrow> bytes \<Rightarrow> bytes list \<Rightarrow> tun_state \<Rightarrow> tun_state \<times> tun_call list" where
  "common_netif_output quitting env first_chunk next_chunks s =
     (if quitting then (s, []) else
      if next_chunks = [] then
        if int (length first_chunk) > env_mtu env then (s, []) else (s, [Tun_BTap_Send first_chunk])
      else
        (case copy_chunks (env_mtu env) (first_chunk # next_chunks) 0 (ts_write_buf s) of
           (buf, None) \<Rightarrow> (s\<lparr>ts_write_buf := buf\<rparr>, [])
         | (buf, Some len) \<Rightarrow> (s\<lparr>ts_write_buf := buf\<rparr>, [Tun_BTap_Send (take len buf)])))"

datatype netif_dispatch = Netif_ip_input | Netif_ip6_input | Netif_free

definition netif_input_func :: "tun_env \<Rightarrow> bytes \<Rightarrow> netif_dispatch" where
  "netif_input_func env p =
     (if ip_version p = 4 then Netif_ip_input
      else if ip_version p = 6 \<and> env_ip6addr env then Netif_ip6_input
      else Netif_free)"

section \<open>Sample packets\<close>

definition sample_env :: tun_env where
  "sample_env = \<lparr>env_dnsgw = True, env_dnsgw_ip = 0x0100007F, env_dnsgw_port = 0x9B1F, env_udpgw = True, env_transparent_dns = False,
     env_ip6addr = True, env_netif_ipaddr = 0x0100000A, env_mtu = 60, env_udp_mtu = 40\<rparr>"

definition sample_state :: tun_state where
  "sample_state = \<lparr>ts_init = False, ts_connections = Map.empty, ts_write_buf = replicate 60 0\<rparr>"

definition sample_query :: bytes where
  "sample_query = [69, 0, 0, 29, 0, 0, 0, 0, 64, 17, 96, 191, 10, 0, 0, 2, 8, 8, 8, 8, 3, 232, 0, 53, 0, 9, 224, 173, 1]"

definition sample_answer :: bytes where
  "sample_answer = [69, 0, 0, 29, 0, 0, 0, 0, 64, 17, 241, 206, 127, 0, 0, 1, 10, 0, 0, 1, 31, 155, 3, 232, 0, 9, 81, 87, 2]"

lemma sample_lengths: "length sample_query = 29" "length (ts_write_buf sample_state) = 60" "env_mtu sample_env = 60"
  by (simp_all add: sample_query_def sample_state_def sample_env_def)

lemma sample_query_parses:
  "parse_udp4 sample_query =
     Some (\<lparr>ip4_version4_ihl4 = 0x45, ip4_ds = 0, ip4_total_length = 0x1D00, ip4_identification = 0, ip4_flags3_fragmentoffset13 = 0,
            ip4_ttl = 64, ip4_protocol = 17, ip4_checksum = 0xBF60, ip4_source_address = 0x0200000A, ip4_destination_address = 0x08080808\<rparr>,
           \<lparr>udp_source_port = 0xE803, udp_dest_port = 0x3500, udp_length = 0x0900, udp_hchecksum = 0xADE0\<rparr>, [1])"
  by code_simp

lemma sample_answer_parses:
  "parse_udp4 sample_answer =
     Some (\<lparr>ip4_version4_ihl4 = 0x45, ip4_ds = 0, ip4_total_length = 0x1D00, ip4_identification = 0, ip4_flags3_fragmentoffset13 = 0,
            ip4_ttl = 64, ip4_protocol = 17, ip4_checksum = 0xCEF1, ip4_source_address = 0x0100007F, ip4_destination_address = 0x0100000A\<rparr>,
           \<lparr>udp_source_port = 0x9B1F, udp_dest_port = 0xE803, udp_length = 0x0900, udp_hchecksum = 0x5751\<rparr>, [2])"
  by code_simp

lemma sample_query_checks: "\<exists>ih p. ipv4_check sample_query = Some (ih, 20, p) \<and> length p = 9"
proof -
  have "(case ipv4_check sample_query of None \<Rightarrow> False | Some (_, hl, p) \<Rightarrow> hl = 20 \<and> length p = 9)" by code_simp
  then show ?thesis by (auto split: option.splits)
qed

section \<open>Packets that were built\<close>

lemma u16_of_nat: "n < 65536 \<Longrightarrow> unat (of_nat n :: u16) = n"
  by (simp add: unat_of_nat_small)

lemma ntoh_hton16 [simp]: "ntoh16 (hton16 x) = x"
  by (simp add: ntoh16_def)

lemma ihl_45: "unat (0x45 :: u8) div 16 = 4" "unat (0x45 AND 0x0F :: u8) * 4 = 20"
  by code_simp+

lemma ipv4_check_made:
  assumes "ip4_version4_ihl4 h = 0x45" "ip4_total_length h = hton16 (of_nat (20 + length rest))" "20 + length rest < 65536"
    and "ip4_checksum h = ipv4_checksum (h\<lparr>ip4_checksum := 0\<rparr>) []"
  shows "ipv4_check (ipv4_header_bytes h @ rest) = Some (h, 20, rest)"
proof -
  have "IPV4_GET_VERSION h = 4" using assms(1) ihl_45(1) by (simp add: version_eq)
  moreover have "unat (IPV4_GET_IHL h) * 4 = 20" using assms(1) ihl_45(2) by (simp add: IPV4_GET_IHL_def)
  moreover have "unat (ntoh16 (ip4_total_length h)) = 20 + length rest"
    unfolding assms(2) ntoh_hton16 using assms(3) by (rule u16_of_nat)
  ultimately show ?thesis using assms(4) by (simp add: ipv4_check_def Let_def get_at_def)
qed

lemma udp_check_made:
  assumes "udp_length h = hton16 (of_nat (8 + length rest))" "8 + length rest < 65536"
  shows "udp_check (udp_header_bytes h @ rest) = Some (h, rest)"
proof -
  have "unat (ntoh16 (udp_length h)) = 8 + length rest"
    unfolding assms(1) ntoh_hton16 using assms(2) by (rule u16_of_nat)
  then show ?thesis by (simp add: udp_check_def Let_def get_at_def)
qed

text \<open>A UDP packet over IPv4 without options and without bytes behind the datagram.\<close>

definition plain_udp4 :: "ipv4_header \<Rightarrow> udp_header \<Rightarrow> bytes \<Rightarrow> bool" where
  "plain_udp4 ih uh payload \<longleftrightarrow>
     ip4_version4_ihl4 ih = 0x45 \<and> ip4_protocol ih = 17 \<and> length payload \<le> 65507 \<and>
     ip4_total_length ih = hton16 (of_nat (28 + length payload)) \<and> udp_length uh = hton16 (of_nat (8 + length payload))"

definition made_udp4 :: "ipv4_header \<Rightarrow> udp_header \<Rightarrow> bytes \<Rightarrow> ipv4_header \<times> udp_header" where
  "made_udp4 ih uh payload =
     (ih\<lparr>ip4_checksum := ipv4_checksum (ih\<lparr>ip4_checksum := 0\<rparr>) []\<rparr>,
      uh\<lparr>udp_hchecksum := udp_checksum (uh\<lparr>udp_hchecksum := 0\<rparr>) payload (ip4_source_address ih) (ip4_destination_address ih)\<rparr>)"

lemma parse_made_udp4:
  assumes "plain_udp4 ih uh payload" "made_udp4 ih uh payload = (ih', uh')"
  shows "parse_udp4 (ipv4_header_bytes ih' @ udp_header_bytes uh' @ payload) = Some (ih', uh', payload)"
    and "ip_version (ipv4_header_bytes ih' @ udp_header_bytes uh' @ payload) = 4"
proof -
  have ih': "ih' = ih\<lparr>ip4_checksum := ipv4_checksum (ih\<lparr>ip4_checksum := 0\<rparr>) []\<rparr>"
    and uh': "uh' = uh\<lparr>udp_hchecksum := udp_checksum (uh\<lparr>udp_hchecksum := 0\<rparr>) payload (ip4_source_address ih) (ip4_destination_address ih)\<rparr>"
    using assms(2) by (simp_all add: made_udp4_def)
  have h: "ip4_version4_ihl4 ih = 0x45" "ip4_protocol ih = 17" "length payload \<le> 65507"
     "ip4_total_length ih = hton16 (of_nat (28 + length payload))" "udp_length uh = hton16 (of_nat (8 + length payload))"
    using assms(1) by (simp_all add: plain_udp4_def)
  have "ipv4_check (ipv4_header_bytes ih' @ udp_header_bytes uh' @ payload) = Some (ih', 20, udp_header_bytes uh' @ payload)"
    using h by (intro ipv4_check_made) (simp_all add: ih')
  moreover have "udp_check (udp_header_bytes uh' @ payload) = Some (uh', payload)"
    using h by (intro udp_check_made) (simp_all add: uh')
  moreover have "(ipv4_header_bytes ih' @ udp_header_bytes uh' @ payload) ! 9 = 17"
    using h(2) by (simp add: ih' ipv4_header_bytes_def mem16_def)
  ultimately show "parse_udp4 (ipv4_header_bytes ih' @ udp_header_bytes uh' @ payload) = Some (ih', uh', payload)"
    by (simp add: parse_udp4_def IPV4_PROTOCOL_UDP_def ih' uh')
  have "drop_bit 4 (0x45 :: u8) = 4" by code_simp
  then show "ip_version (ipv4_header_bytes ih' @ udp_header_bytes uh' @ payload) = 4"
    using h(1) by (simp add: ip_version_def ih' ipv4_header_bytes_def)
qed

lemma write_three:
  assumes "length h = i" "length u = k - i" "i \<le> k" "k + length p \<le> length buf"
  shows "put_at k p (put_at i u (put_at 0 h buf)) = h @ u @ p @ drop (k + length p) buf"
  using assms by (simp add: put_at_join) (simp add: put_at_def)

section \<open>Datagrams from the gateway\<close>

lemma make_ihl: "IPV4_MAKE_VERSION_IHL 20 = 0x45"
  by code_simp

lemma received4:
  assumes "28 + int (length data) \<le> env_mtu env" "length data \<le> 65507" "length (ts_write_buf s) = nat (env_mtu env)"
  shows "\<exists>ih uh s'. udpgw_client_handler_received env (BAddr_IPv4 lip lport) (BAddr_IPv4 rip rport) data s =
      (s', [Tun_BTap_Send (ipv4_header_bytes ih @ udp_header_bytes uh @ data)]) \<and>
    parse_udp4 (ipv4_header_bytes ih @ udp_header_bytes uh @ data) = Some (ih, uh, data) \<and>
    ip_version (ipv4_header_bytes ih @ udp_header_bytes uh @ data) = 4 \<and>
    ip4_source_address ih = rip \<and> ip4_destination_address ih = lip \<and> udp_source_port uh = rport \<and> udp_dest_port uh = lport \<and>
    length (ts_write_buf s') = length (ts_write_buf s)"
proof -
  define ih where "ih = \<lparr>ip4_version4_ihl4 = IPV4_MAKE_VERSION_IHL 20, ip4_ds = hton8 0,
                     ip4_total_length = hton16 (of_nat (28 + length data)), ip4_identification = hton16 0,
                     ip4_flags3_fragmentoffset13 = hton16 0, ip4_ttl = hton8 64, ip4_protocol = hton8 IPV4_PROTOCOL_UDP,
                     ip4_checksum = hton16 0, ip4_source_address = rip, ip4_destination_address = lip\<rparr>"
  define uh where "uh = \<lparr>udp_source_port = rport, udp_dest_port = lport,
                      udp_length = hton16 (of_nat (8 + length data)), udp_hchecksum = hton16 0\<rparr>"
  obtain ih' uh' where made: "made_udp4 ih uh data = (ih', uh')" by fastforce
  have "plain_udp4 ih uh data"
    using assms(2) by (simp add: plain_udp4_def ih_def uh_def make_ihl hton8_def IPV4_PROTOCOL_UDP_def)
  note p = parse_made_udp4 [OF this made]
  have f: "ip4_source_address ih' = rip" "ip4_destination_address ih' = lip" "udp_source_port uh' = rport" "udp_dest_port uh' = lport"
    using made by (auto simp: made_udp4_def ih_def uh_def)
  have z: "ih\<lparr>ip4_checksum := 0\<rparr> = ih" "uh\<lparr>udp_hchecksum := 0\<rparr> = uh" by (simp_all add: ih_def uh_def)
  have m: "ih' = ih\<lparr>ip4_checksum := ipv4_checksum ih []\<rparr>" "uh' = uh\<lparr>udp_hchecksum := udp_checksum uh data rip lip\<rparr>"
    using made z by (auto simp: made_udp4_def) (simp_all add: ih_def)
  let ?b = "ipv4_header_bytes ih' @ udp_header_bytes uh' @ data @ drop (28 + length data) (ts_write_buf s)"
  have w: "put_at 28 data (put_at 20 (udp_header_bytes uh') (put_at 0 (ipv4_header_bytes ih') (ts_write_buf s))) = ?b"
    using assms(1,3) by (intro write_three) auto
  have "udpgw_client_handler_received env (BAddr_IPv4 lip lport) (BAddr_IPv4 rip rport) data s =
      (s\<lparr>ts_write_buf := ?b\<rparr>, [Tun_BTap_Send (take (28 + length data) ?b)])"
    using assms(1,2) w m
    by (simp add: udpgw_client_handler_received_def Let_def ih_def uh_def addr_ip4_def addr_port4_def)
  moreover have "length ?b = length (ts_write_buf s)" using assms(1,3) by simp
  ultimately show ?thesis using p f by (intro exI [of _ ih'] exI [of _ uh'] exI [of _ "s\<lparr>ts_write_buf := ?b\<rparr>"]) simp
qed

lemma ipv6_load_bytes:
  "length (ip6_source_address h) = 16 \<Longrightarrow> length (ip6_destination_address h) = 16 \<Longrightarrow>
     ipv6_header_load (ipv6_header_bytes h @ r) = h \<and> length (ipv6_header_bytes h) = 40"
  by (simp add: ipv6_header_load_def ipv6_header_bytes_def load_mem16 get_at_def nth_append)

lemma received6:
  assumes "48 + int (length data) \<le> env_mtu env" "length data \<le> 65527" "length (ts_write_buf s) = nat (env_mtu env)"
    and "env_ip6addr env" "length lip = 16" "length rip = 16"
  shows "\<exists>ih uh s'. udpgw_client_handler_received env (BAddr_IPv6 lip lport) (BAddr_IPv6 rip rport) data s =
      (s', [Tun_BTap_Send (ipv6_header_bytes ih @ udp_header_bytes uh @ data)]) \<and>
    ipv6_check (ipv6_header_bytes ih @ udp_header_bytes uh @ data) = Some (ih, udp_header_bytes uh @ data) \<and>
    udp_check (udp_header_bytes uh @ data) = Some (uh, data) \<and>
    udp_hchecksum uh = udp_ip6_checksum (uh\<lparr>udp_hchecksum := 0\<rparr>) data rip lip \<and>
    ip_version (ipv6_header_bytes ih @ udp_header_bytes uh @ data) = 6 \<and>
    (ipv6_header_bytes ih @ udp_header_bytes uh @ data) ! 6 = 17 \<and> length (ipv6_header_bytes ih) = 40 \<and>
    ip6_source_address ih = rip \<and> ip6_destination_address ih = lip \<and> udp_source_port uh = rport \<and> udp_dest_port uh = lport \<and>
    length (ts_write_buf s') = length (ts_write_buf s)"
proof -
  define ih where "ih = \<lparr>ip6_version4_tc4 = hton8 0x60, ip6_tc4_fl4 = hton8 0, ip6_fl = hton16 0,
                     ip6_payload_length = hton16 (of_nat (8 + length data)), ip6_next_header = hton8 IPV6_NEXT_UDP,
                     ip6_hop_limit = hton8 64, ip6_source_address = take 16 rip, ip6_destination_address = take 16 lip\<rparr>"
  define uh0 where "uh0 = \<lparr>udp_source_port = rport, udp_dest_port = lport,
                      udp_length = hton16 (of_nat (8 + length data)), udp_hchecksum = hton16 0\<rparr>"
  define uh where "uh = uh0\<lparr>udp_hchecksum := udp_ip6_checksum uh0 data rip lip\<rparr>"
  have h: "ipv6_header_load (ipv6_header_bytes ih @ r) = ih" "length (ipv6_header_bytes ih) = 40" for r
    using ipv6_load_bytes [of ih] assms(5,6) by (simp_all add: ih_def)
  have v6: "drop_bit 4 (0x60 :: u8) = 6" by code_simp
  let ?p = "ipv6_header_bytes ih @ udp_header_bytes uh @ data"
  have len: "unat (of_nat (8 + length data) :: u16) = 8 + length data" using assms(2) by (intro u16_of_nat) simp
  have "ipv6_check ?p = Some (ih, udp_header_bytes uh @ data)"
    unfolding ipv6_check_def Let_def h(1)
    using h(2) v6 len by (simp add: ih_def ntoh8_def hton8_def get_at_def)
  moreover have "udp_check (udp_header_bytes uh @ data) = Some (uh, data)"
    using assms(2) by (intro udp_check_made) (simp_all add: uh_def uh0_def)
  moreover have "uh\<lparr>udp_hchecksum := 0\<rparr> = uh0" by (simp add: uh_def uh0_def)
  moreover have "ip_version ?p = 6" "?p ! 6 = 17"
    using v6 by (simp_all add: ip_version_def ih_def ipv6_header_bytes_def hton8_def IPV6_NEXT_UDP_def mem16_def)
  moreover have "put_at 48 data (put_at 40 (udp_header_bytes uh) (put_at 0 (ipv6_header_bytes ih) (ts_write_buf s))) =
      ipv6_header_bytes ih @ udp_header_bytes uh @ data @ drop (48 + length data) (ts_write_buf s)"
    using assms(1,3) h(2) by (intro write_three) auto
  then have "udpgw_client_handler_received env (BAddr_IPv6 lip lport) (BAddr_IPv6 rip rport) data s =
      (s\<lparr>ts_write_buf := ?p @ drop (48 + length data) (ts_write_buf s)\<rparr>, [Tun_BTap_Send ?p])"
    using assms h(2) unfolding uh_def uh0_def
    by (simp add: udpgw_client_handler_received_def Let_def ih_def)
  moreover have "length (?p @ drop (48 + length data) (ts_write_buf s)) = length (ts_write_buf s)"
    using assms(1,3) h(2) by simp
  ultimately show ?thesis
    using h(2) assms(5,6)
    by (intro exI [of _ ih] exI [of _ uh] exI [of _ "s\<lparr>ts_write_buf := ?p @ drop (48 + length data) (ts_write_buf s)\<rparr>"])
      (simp add: uh_def uh0_def ih_def)
qed

lemma submit4:
  assumes "env_udpgw env" "parse_udp4 pkt = Some (ih, uh, data)" "ip_version pkt = 4" "int (length data) \<le> env_udp_mtu env"
  shows "process_device_udp_packet env pkt t =
    (t, [Tun_SubmitPacket (BAddr_IPv4 (ip4_source_address ih) (udp_source_port uh))
           (BAddr_IPv4 (ip4_destination_address ih) (udp_dest_port uh))
           (env_transparent_dns env \<and> ip4_destination_address ih = env_netif_ipaddr env \<and> udp_dest_port uh = hton16 53)
           data], True)"
  using assms by (simp add: process_device_udp_packet_def BAddr_MakeIPv4_def)

definition same_family :: "BAddr \<Rightarrow> BAddr \<Rightarrow> bool" where
  "same_family a b =
     (case (a, b) of (BAddr_IPv4 _ _, BAddr_IPv4 _ _) \<Rightarrow> True
      | (BAddr_IPv6 x _, BAddr_IPv6 y _) \<Rightarrow> length x = 16 \<and> length y = 16 | _ \<Rightarrow> False)"

definition udp_overhead :: "BAddr \<Rightarrow> nat" where
  "udp_overhead a = (case a of BAddr_IPv4 _ _ \<Rightarrow> 28 | _ \<Rightarrow> 48)"

lemma udp_written_readable:
  assumes "same_family local remote" "int (udp_overhead local + length data) \<le> env_mtu env"
    and "udp_overhead local + length data \<le> 65535" "int (length data) \<le> env_udp_mtu env"
    and "env_udpgw env" "env_ip6addr env" "length (ts_write_buf s) = nat (env_mtu env)"
  shows "\<exists>pkt s' is_dns. udpgw_client_handler_received env local remote data s = (s', [Tun_BTap_Send pkt]) \<and>
    length pkt = udp_overhead local + length data \<and> length (ts_write_buf s') = length (ts_write_buf s) \<and>
    process_device_udp_packet env pkt t = (t, [Tun_SubmitPacket remote local is_dns data], True)"
proof -
  consider (v4) lip lport rip rport where "local = BAddr_IPv4 lip lport" "remote = BAddr_IPv4 rip rport"
    | (v6) lip lport rip rport where "local = BAddr_IPv6 lip lport" "remote = BAddr_IPv6 rip rport" "length lip = 16" "length rip = 16"
    using assms(1) by (cases local; cases remote) (auto simp: same_family_def)
  then show ?thesis
  proof cases
    case v4
    have "28 + int (length data) \<le> env_mtu env" "length data \<le> 65507" using assms(2,3) v4 by (simp_all add: udp_overhead_def)
    from received4 [OF this assms(7), of lip lport rip rport] obtain ih uh s' where
      r: "udpgw_client_handler_received env (BAddr_IPv4 lip lport) (BAddr_IPv4 rip rport) data s =
            (s', [Tun_BTap_Send (ipv4_header_bytes ih @ udp_header_bytes uh @ data)])"
      and c: "parse_udp4 (ipv4_header_bytes ih @ udp_header_bytes uh @ data) = Some (ih, uh, data)"
        "ip_version (ipv4_header_bytes ih @ udp_header_bytes uh @ data) = 4"
      and a: "ip4_source_address ih = rip" "ip4_destination_address ih = lip" "udp_source_port uh = rport"
        "udp_dest_port uh = lport" "length (ts_write_buf s') = length (ts_write_buf s)" by blast
    show ?thesis using r a submit4 [OF assms(5) c assms(4)] v4 by (auto simp: udp_overhead_def)
  next
    case v6
    have "48 + int (length data) \<le> env_mtu env" "length data \<le> 65527" using assms(2,3) v6 by (simp_all add: udp_overhead_def)
    from received6 [OF this assms(7,6) v6(3,4), of lport rport] obtain ih uh s' where
      r: "udpgw_client_handler_received env (BAddr_IPv6 lip lport) (BAddr_IPv6 rip rport) data s =
            (s', [Tun_BTap_Send (ipv6_header_bytes ih @ udp_header_bytes uh @ data)])"
      and c: "ipv6_check (ipv6_header_bytes ih @ udp_header_bytes uh @ data) = Some (ih, udp_header_bytes uh @ data)"
        "udp_check (udp_header_bytes uh @ data) = Some (uh, data)"
        "udp_hchecksum uh = udp_ip6_checksum (uh\<lparr>udp_hchecksum := 0\<rparr>) data rip lip"
        "ip_version (ipv6_header_bytes ih @ udp_header_bytes uh @ data) = 6"
        "(ipv6_header_bytes ih @ udp_header_bytes uh @ data) ! 6 = 17" "length (ipv6_header_bytes ih) = 40"
      and a: "ip6_source_address ih = rip" "ip6_destination_address ih = lip" "udp_source_port uh = rport"
        "udp_dest_port uh = lport" "length (ts_write_buf s') = length (ts_write_buf s)" by blast
    have "process_device_udp_packet env (ipv6_header_bytes ih @ udp_header_bytes uh @ data) t =
        (t, [Tun_SubmitPacket remote local False data], True)"
      using c a assms(4-6) v6 by (simp add: process_device_udp_packet_def BAddr_MakeIPv6_def IPV6_NEXT_UDP_def)
    then show ?thesis using r a c(6) v6 by (auto simp: udp_overhead_def)
  qed
qed

text \<open>
  C26: A datagram from the UDP gateway that fits the device is written as one packet of the
  right length, and that packet, read back from a device, passes every check of the UDP path
  and is submitted with the same payload and the two addresses exchanged; for IPv4 and IPv6.
\<close>

theorem udp_device_round_trip:
  assumes "same_family local remote" "int (udp_overhead local + length data) \<le> env_mtu env"
    and "udp_overhead local + length data \<le> 65535" "int (length data) \<le> env_udp_mtu env"
    and "env_udpgw env" "env_ip6addr env" "length (ts_write_buf s) = nat (env_mtu env)"
  shows "\<exists>pkt s' is_dns. udpgw_client_handler_received env local remote data s = (s', [Tun_BTap_Send pkt]) \<and>
    length pkt = udp_overhead local + length data \<and> length (ts_write_buf s') = length (ts_write_buf s) \<and>
    process_device_udp_packet env pkt t = (t, [Tun_SubmitPacket remote local is_dns data], True)"
  by (rule udp_written_readable [OF assms])

lemma udp_device_round_trip_witness:
  "\<exists>pkt s' is_dns. udpgw_client_handler_received sample_env (BAddr_IPv4 1 2) (BAddr_IPv4 3 4) [5, 6] sample_state = (s', [Tun_BTap_Send pkt]) \<and>
    length pkt = 30 \<and>
    process_device_udp_packet sample_env pkt sample_state = (sample_state, [Tun_SubmitPacket (BAddr_IPv4 3 4) (BAddr_IPv4 1 2) is_dns [5, 6]], True)"
  using udp_device_round_trip [of "BAddr_IPv4 1 2" "BAddr_IPv4 3 4" "[5, 6]" sample_env sample_state sample_state]
  by (auto simp: same_family_def udp_overhead_def sample_lengths) (auto simp: sample_env_def)

section \<open>Rejected datagrams\<close>

lemma ipv4_check_SomeD:
  assumes "ipv4_check data = Some (h, hl, p)"
  shows "20 \<le> length data" "drop_bit 4 (data ! 0) = 4" "20 \<le> hl" "hl \<le> 60" "even hl" "hl + length p \<le> length data"
    "h = ipv4_header_load data"
proof -
  show h: "20 \<le> length data" "20 \<le> hl" "even hl" "hl + length p \<le> length data" "h = ipv4_header_load data"
    using assms by (auto simp: ipv4_check_def Let_def get_at_def split: if_splits)
  have "IPV4_GET_VERSION h = 4" using assms by (auto simp: ipv4_check_def Let_def split: if_splits)
  then have "unat (data ! 0) div 16 = 4" using h(5) by (simp add: version_eq ipv4_header_load_def)
  then show "drop_bit 4 (data ! 0) = 4" by (simp add: word_unat_eq_iff nibbles(3))
  have "unat (IPV4_GET_IHL h) < 16" by (simp add: IPV4_GET_IHL_def nibbles(2))
  moreover have "hl = unat (IPV4_GET_IHL h) * 4" using assms by (auto simp: ipv4_check_def Let_def split: if_splits)
  ultimately show "hl \<le> 60" by simp
qed

lemma inet_sum_exact:
  "even (length p) \<Longrightarrow> unat t + sum16 p < 2 ^ 32 \<Longrightarrow> unat (inet_sum_loop p t) = unat t + sum16 p"
proof (induction p t rule: inet_sum_loop.induct)
  case (1 a b r t)
  let ?w = "push_bit 8 (ucast a) OR ucast b :: u32"
  have hi: "8 \<le> k \<Longrightarrow> \<not> bit a k \<and> \<not> bit b k" for k by (simp add: bit_u8_high)
  have "?w = ucast (badvpn_read_be16 (a # b # r))"
  proof (rule bit_word_eqI)
    fix n
    show "bit ?w n = bit (ucast (badvpn_read_be16 (a # b # r)) :: u32) n"
      using hi [of n] hi [of "n - 8"] by (cases "n < 16") (auto simp: badvpn_read_be16_def bit_simps)
  qed
  moreover have "unat (ucast (badvpn_read_be16 (a # b # r)) :: u32) = unat (badvpn_read_be16 (a # b # r))"
    using unat_lt [of "badvpn_read_be16 (a # b # r)"] by (simp add: unsigned_ucast_eq take_bit_nat_eq_self)
  ultimately have w: "unat ?w = unat a * 256 + unat b" by (simp add: unat_be16)
  have "unat (t + ?w) = unat t + unat ?w" using 1(3) w by (subst unat_plus_simple [symmetric]) (simp add: word_le_nat_alt unat_word_ariths)
  then show ?case using 1 w by simp
qed auto

lemma inet_checksum_completes:
  assumes "even (length p)" "length p \<le> 1000" "0 < sum16 p"
  shows "ones_sum (sum16 p + unat (inet_checksum p)) = 65535"
proof -
  have "sum16 p < 2 ^ 32" using sum16_bound [of p] assms(2) by auto
  then have "unat (fold_carry (inet_sum_loop p 0)) = ones_sum (sum16 p)"
    using inet_sum_exact [of p 0] assms(1) by (simp add: fold_carry_exact)
  then have "unat (inet_checksum p) = 65535 - ones_sum (sum16 p)"
    using ones_sum_le [of "sum16 p"] by (simp add: inet_checksum_def unat_complement)
  then show ?thesis using ones_sum_complete [of "sum16 p" "unat (inet_checksum p)"] assms(3) by simp
qed

lemma write_icmp:
  assumes "length h = 20" "28 + length q \<le> length buf"
  shows "put_at 0 h (put_at 22 [a, b] (put_at 28 q (put_at 20 ([3, 3] @ replicate 6 0) buf))) =
           h @ ([3, 3, a, b, 0, 0, 0, 0] @ q) @ drop (28 + length q) (buf :: bytes)"
proof -
  have "put_at 28 q (put_at 20 ([3, 3] @ replicate 6 0) buf) = take 20 buf @ [3, 3, 0, 0, 0, 0, 0, 0] @ q @ drop (28 + length q) buf"
    using assms(2) by (simp add: put_at_def numeral_eq_Suc)
  then show ?thesis using assms by (simp add: put_at_def)
qed

lemma sum16_split:
  fixes c :: u16
  shows "sum16 ([3, 3, ucast (drop_bit 8 c), ucast (c AND 0xFF), 0, 0, 0, 0] @ q) =
     sum16 ([3, 3, 0, 0, 0, 0, 0, 0] @ q) + unat c"
proof -
  have ff: "x AND 0xFF = take_bit 8 x" for x :: u16 by (simp add: take_bit_eq_mask mask_eq_exp_minus_1)
  have "[ucast (drop_bit 8 c), ucast (c AND 0xFF)] = badvpn_write_be16 c"
    using ff [of c] by (simp add: badvpn_write_be16_def) (auto intro!: bit_word_eqI simp: bit_simps)
  then have "unat (ucast (drop_bit 8 c) :: u8) * 256 + unat (ucast (c AND 0xFF) :: u8) = unat c"
    using unat_be16 [of "ucast (drop_bit 8 c)" "ucast (c AND 0xFF)" "[]"] read_write_be16 [of c "[]"] by simp
  then show ?thesis by simp
qed

text \<open>
  C29: A UDP datagram over IPv4 that cannot be forwarded is answered, when the answer fits the
  device, with one valid IPv4 packet of protocol ICMP from the datagram's destination to its
  source: type 3 and code 3, quoting the IP header and the first 8 bytes of its payload, with
  an ICMP checksum that completes the message to all ones.
\<close>

theorem reject_answers:
  assumes "ipv4_check data = Some (orig, hl, payload)" "data ! 9 = IPV4_PROTOCOL_UDP" "8 \<le> length payload"
    and "int (36 + hl) \<le> env_mtu env" "length (ts_write_buf s) = nat (env_mtu env)"
  shows "\<exists>s' reply icmp. reject_device_udp_packet env data s = (s', [Tun_BTap_Send (ipv4_header_bytes reply @ icmp)], True) \<and>
    ipv4_check (ipv4_header_bytes reply @ icmp) = Some (reply, 20, icmp) \<and> ip4_protocol reply = 1 \<and>
    ip4_source_address reply = ip4_destination_address orig \<and> ip4_destination_address reply = ip4_source_address orig \<and>
    take 2 icmp = [3, 3] \<and> drop 8 icmp = take (hl + 8) data \<and> ones_sum (sum16 icmp) = 65535 \<and>
    length (ts_write_buf s') = length (ts_write_buf s)"
proof -
  note d = ipv4_check_SomeD [OF assms(1)]
  define q where "q = take (hl + 8) data"
  define z where "z = [3, 3, 0, 0, 0, 0, 0, 0] @ q"
  define c where "c = inet_checksum z"
  define icmp where "icmp = [3, 3, ucast (drop_bit 8 c), ucast (c AND 0xFF), 0, 0, 0, 0] @ q"
  define r0 where "r0 = \<lparr>ip4_version4_ihl4 = IPV4_MAKE_VERSION_IHL 20, ip4_ds = 0, ip4_total_length = hton16 (of_nat (20 + (8 + (hl + 8)))),
     ip4_identification = hton16 0, ip4_flags3_fragmentoffset13 = hton16 0, ip4_ttl = 64, ip4_protocol = 1,
     ip4_checksum = hton16 0, ip4_source_address = ip4_destination_address orig, ip4_destination_address = ip4_source_address orig\<rparr>"
  define reply where "reply = r0\<lparr>ip4_checksum := ipv4_checksum r0 []\<rparr>"
  have lq: "length q = hl + 8" using d(6) assms(3) by (simp add: q_def)
  have fits: "28 + length q \<le> length (ts_write_buf s)" using lq assms(4,5) by simp
  have "ones_sum (sum16 z + unat c) = 65535"
    unfolding c_def using lq d(4,5) by (intro inet_checksum_completes) (auto simp: z_def)
  then have ok: "ones_sum (sum16 icmp) = 65535" unfolding icmp_def sum16_split z_def by simp
  have chk: "ipv4_check (ipv4_header_bytes reply @ icmp) = Some (reply, 20, icmp)"
    using lq d(4) by (intro ipv4_check_made) (simp_all add: reply_def r0_def make_ihl icmp_def)
  let ?b = "put_at 0 (ipv4_header_bytes reply) (put_at 22 [ucast (drop_bit 8 c), ucast (c AND 0xFF)]
      (put_at 28 q (put_at 20 ([3, 3] @ replicate 6 0) (ts_write_buf s))))"
  have b: "?b = ipv4_header_bytes reply @ icmp @ drop (28 + length q) (ts_write_buf s)"
    using write_icmp [OF _ fits] by (simp add: icmp_def)
  have g: "get_at 20 (8 + (hl + 8)) (put_at 28 q (put_at 20 ([3, 3] @ replicate 6 0) (ts_write_buf s))) = z"
    using lq fits by (simp add: z_def put_at_def get_at_def numeral_eq_Suc)
  have "reject_device_udp_packet env data s = (s\<lparr>ts_write_buf := ?b\<rparr>, [Tun_BTap_Send (take (20 + (8 + (hl + 8))) ?b)], True)"
    using assms(2-4) d(1,2)
    unfolding reject_device_udp_packet_def assms(1) option.case prod.case Let_def q_def [symmetric] g c_def [symmetric] r0_def [symmetric]
    by (simp add: reply_def)
  moreover have "length icmp = 8 + (hl + 8)" using lq by (simp add: icmp_def)
  then have "take (20 + (8 + (hl + 8))) ?b = ipv4_header_bytes reply @ icmp" unfolding b by simp
  moreover have "length ?b = length (ts_write_buf s)" unfolding b using lq fits by (simp add: icmp_def)
  ultimately show ?thesis
    using chk ok lq by (intro exI [of _ "s\<lparr>ts_write_buf := ?b\<rparr>"] exI [of _ reply] exI [of _ icmp])
      (simp add: reply_def r0_def icmp_def q_def)
qed

lemma reject_answers_witness:
  "\<exists>s' reply icmp. reject_device_udp_packet sample_env sample_query sample_state = (s', [Tun_BTap_Send (ipv4_header_bytes reply @ icmp)], True) \<and>
    ipv4_check (ipv4_header_bytes reply @ icmp) = Some (reply, 20, icmp) \<and> drop 8 icmp = take 28 sample_query"
proof -
  obtain ih p where c: "ipv4_check sample_query = Some (ih, 20, p)" "length p = 9" using sample_query_checks by blast
  have "sample_query ! 9 = IPV4_PROTOCOL_UDP" by code_simp
  from reject_answers [OF c(1) this, of sample_env sample_state] c(2) show ?thesis by (auto simp: sample_lengths)
qed

section \<open>Packets of lwIP\<close>

lemma copy_chunks_exact:
  assumes "len \<le> length buf" "mtu = int (length buf)"
  shows "length (fst (copy_chunks mtu cs len buf)) = length buf \<and>
    (if len + length (concat cs) \<le> length buf
     then snd (copy_chunks mtu cs len buf) = Some (len + length (concat cs)) \<and>
          take (len + length (concat cs)) (fst (copy_chunks mtu cs len buf)) = take len buf @ concat cs
     else snd (copy_chunks mtu cs len buf) = None)"
  using assms
proof (induction mtu cs len buf rule: copy_chunks.induct)
  case (2 mtu c cs len buf)
  show ?case
  proof (cases "len + length c \<le> length buf")
    case True
    then have "take (len + length c) (put_at len c buf) = take len buf @ c" by (simp add: put_at_def)
    then show ?thesis using True 2 by (auto simp: add.assoc)
  qed (use 2 in auto)
qed simp

text \<open>
  A packet that lwIP hands over as a chain of buffers is sent to the device as the
  concatenation of the chain, in one packet, exactly when it fits the device; otherwise
  nothing is sent. The write buffer keeps its length.
\<close>

theorem netif_output_exact:
  assumes "int (length (ts_write_buf s)) = env_mtu env"
  shows "snd (common_netif_output False env c cs s) =
      (if int (length (concat (c # cs))) \<le> env_mtu env then [Tun_BTap_Send (concat (c # cs))] else []) \<and>
    length (ts_write_buf (fst (common_netif_output quitting env c cs s))) = length (ts_write_buf s)"
  using copy_chunks_exact [of 0 "ts_write_buf s" "env_mtu env" "c # cs"] assms
  by (auto simp: common_netif_output_def split: prod.splits option.splits if_splits)

lemma netif_output_exact_witness: "snd (common_netif_output False sample_env [1, 2] [[3], []] sample_state) = [Tun_BTap_Send [1, 2, 3]]"
  using netif_output_exact [of sample_state sample_env "[1, 2]" "[[3], []]"] by (simp add: sample_lengths)

section \<open>The DNS gateway\<close>

lemma write_buf_connections [simp]:
  "ts_write_buf (insert_connection a b port s) = ts_write_buf s" "ts_write_buf (remove_connection con s) = ts_write_buf s"
  by (simp_all add: insert_connection_def remove_connection_def Let_def split: option.splits)

lemma parse_udp4_version: "parse_udp4 data = Some x \<Longrightarrow> ip_version data = 4"
  using ipv4_check_SomeD(1,2) [of data]
  by (fastforce simp: parse_udp4_def ip_version_def split: if_splits option.splits)

lemma dns_send:
  assumes "env_dnsgw env" "parse_udp4 data = Some (ih, uh, payload)" "dns_rewrite env ih uh s = Some (ih1, uh1, s1)"
    and "made_udp4 ih1 uh1 payload = (ih', uh')" "28 + length payload \<le> length (ts_write_buf s1)"
  shows "\<exists>b. process_device_dns_packet env data s =
      (s1\<lparr>ts_write_buf := b\<rparr>, [Tun_BTap_Send (ipv4_header_bytes ih' @ udp_header_bytes uh' @ payload)], True) \<and>
    length b = length (ts_write_buf s1)"
proof -
  let ?b = "put_at 28 payload (put_at 20 (udp_header_bytes uh') (put_at 0 (ipv4_header_bytes ih') (ts_write_buf s1)))"
  have b: "?b = ipv4_header_bytes ih' @ udp_header_bytes uh' @ payload @ drop (28 + length payload) (ts_write_buf s1)"
    using assms(5) by (intro write_three) auto
  have "process_device_dns_packet env data s = (s1\<lparr>ts_write_buf := ?b\<rparr>, [Tun_BTap_Send (take (28 + length payload) ?b)], True)"
    using assms(1-3) parse_udp4_version [OF assms(2)] assms(4)
    by (auto simp: process_device_dns_packet_def Let_def made_udp4_def)
  moreover have "take (28 + length payload) ?b = ipv4_header_bytes ih' @ udp_header_bytes uh' @ payload" unfolding b by simp
  moreover have "length ?b = length (ts_write_buf s1)" unfolding b using assms(5) by simp
  ultimately show ?thesis by auto
qed

lemma dns_packet:
  assumes "env_dnsgw env" "parse_udp4 data = Some (ih, uh, payload)" "dns_rewrite env ih uh s = Some (ih1, uh1, s1)"
    and "plain_udp4 ih1 uh1 payload" "28 + length payload \<le> length (ts_write_buf s1)"
  shows "\<exists>b pkt ih' uh'. process_device_dns_packet env data s = (s1\<lparr>ts_write_buf := b\<rparr>, [Tun_BTap_Send pkt], True) \<and>
    length b = length (ts_write_buf s1) \<and> length pkt = 28 + length payload \<and> parse_udp4 pkt = Some (ih', uh', payload) \<and>
    ip4_source_address ih' = ip4_source_address ih1 \<and> ip4_destination_address ih' = ip4_destination_address ih1 \<and>
    udp_source_port uh' = udp_source_port uh1 \<and> udp_dest_port uh' = udp_dest_port uh1"
proof -
  obtain ih' uh' where m: "made_udp4 ih1 uh1 payload = (ih', uh')" by fastforce
  obtain b where b: "process_device_dns_packet env data s =
      (s1\<lparr>ts_write_buf := b\<rparr>, [Tun_BTap_Send (ipv4_header_bytes ih' @ udp_header_bytes uh' @ payload)], True)"
    "length b = length (ts_write_buf s1)" using dns_send [OF assms(1-3) m assms(5)] by blast
  have "ip4_source_address ih' = ip4_source_address ih1 \<and> ip4_destination_address ih' = ip4_destination_address ih1 \<and>
    udp_source_port uh' = udp_source_port uh1 \<and> udp_dest_port uh' = udp_dest_port uh1"
    using m by (auto simp: made_udp4_def)
  then show ?thesis using b parse_made_udp4(1) [OF assms(4) m]
    by (intro exI [of _ b] exI [of _ "ipv4_header_bytes ih' @ udp_header_bytes uh' @ payload"] exI [of _ ih'] exI [of _ uh']) simp
qed



text \<open>
  C30: A query whose IPv4 header carries options is never forwarded intact: the packet sent
  has a header of 20 bytes that still announces the options and the old total length, and
  the IPv4 check refuses it.
\<close>

theorem dns_options_broken:
  assumes "env_dnsgw env" "parse_udp4 data = Some (ih, uh, payload)" "dns_rewrite env ih uh s = Some (ih1, uh1, s1)"
    and "5 < IPV4_GET_IHL ih" "28 + length payload \<le> length (ts_write_buf s1)"
  shows "\<exists>s' pkt. process_device_dns_packet env data s = (s', [Tun_BTap_Send pkt], True) \<and> ipv4_check pkt = None"
proof -
  obtain hl p where c: "ipv4_check data = Some (ih, hl, p)" "udp_check p = Some (uh, payload)"
    using assms(2) by (auto simp: parse_udp4_def split: if_splits option.splits)
  have "8 + length payload \<le> length p" using c(2) by (auto simp: udp_check_def Let_def get_at_def split: if_splits)
  moreover have "unat (ntoh16 (ip4_total_length ih)) = hl + length p" "hl = unat (IPV4_GET_IHL ih) * 4"
    using c(1) by (auto simp: ipv4_check_def Let_def get_at_def split: if_splits)
  moreover have "5 < unat (IPV4_GET_IHL ih)" using assms(4) by (simp add: word_less_nat_alt)
  ultimately have long: "28 + length payload < unat (ntoh16 (ip4_total_length ih))" by simp
  obtain ih' uh' where m: "made_udp4 ih1 uh1 payload = (ih', uh')" by fastforce
  have "ip4_total_length ih' = ip4_total_length ih1" using m by (auto simp: made_udp4_def)
  moreover have "ip4_total_length ih1 = ip4_total_length ih" using assms(3) by (auto simp: dns_rewrite_def Let_def split: if_splits option.splits)
  ultimately have "ipv4_check (ipv4_header_bytes ih' @ udp_header_bytes uh' @ payload) = None"
    using long by (simp add: ipv4_check_def Let_def)
  then show ?thesis using dns_send [OF assms(1-3) m assms(5)] by blast
qed

lemma dns_options_broken_witness:
  "\<exists>s' pkt. process_device_dns_packet sample_env
      [70, 0, 0, 33, 0, 0, 0, 0, 64, 17, 93, 185, 10, 0, 0, 2, 8, 8, 8, 8, 1, 1, 1, 1, 3, 232, 0, 53, 0, 9, 224, 173, 1] sample_state =
    (s', [Tun_BTap_Send pkt], True) \<and> ipv4_check pkt = None"
proof -
  let ?d = "[70, 0, 0, 33, 0, 0, 0, 0, 64, 17, 93, 185, 10, 0, 0, 2, 8, 8, 8, 8, 1, 1, 1, 1, 3, 232, 0, 53, 0, 9, 224, 173, 1]"
  have "(case parse_udp4 ?d of None \<Rightarrow> False | Some (ih, uh, payload) \<Rightarrow> 5 < IPV4_GET_IHL ih \<and> udp_dest_port uh = hton16 53 \<and> length payload = 1)"
    by code_simp
  then obtain ih uh payload where p: "parse_udp4 ?d = Some (ih, uh, payload)" "5 < IPV4_GET_IHL ih" "udp_dest_port uh = hton16 53" "length payload = 1"
    by (auto split: option.splits)
  have "\<exists>ih1 uh1 s1. dns_rewrite sample_env ih uh sample_state = Some (ih1, uh1, s1) \<and> length (ts_write_buf s1) = 60"
    using p(3) by (simp add: dns_rewrite_def Let_def sample_state_def)
  then show ?thesis using dns_options_broken [OF _ p(1) _ p(2)] p(4) by (fastforce simp: sample_env_def)
qed

section \<open>Runs of the packet path\<close>

text \<open>What the surroundings may do: the device delivers a packet, which is at most as long as
  its MTU; the UDP gateway delivers a datagram; lwIP hands over a chain of buffers.\<close>

inductive tun_step :: "tun_env \<Rightarrow> tun_state \<Rightarrow> tun_call list \<Rightarrow> tun_state \<Rightarrow> bool" for env where
  step_device: "int (length data) \<le> env_mtu env \<Longrightarrow> device_read_handler_send alloc input env data s = (s', calls) \<Longrightarrow>
     tun_step env s calls s'"
| step_udpgw: "same_family local remote \<Longrightarrow> udpgw_client_handler_received env local remote data s = (s', calls) \<Longrightarrow>
     tun_step env s calls s'"
| step_output: "common_netif_output quitting env c cs s = (s', calls) \<Longrightarrow> tun_step env s calls s'"

inductive tun_runs :: "tun_env \<Rightarrow> tun_state \<Rightarrow> tun_call list \<Rightarrow> tun_state \<Rightarrow> bool" for env where
  runs_refl: "tun_runs env s [] s"
| runs_step: "tun_runs env s calls s1 \<Longrightarrow> tun_step env s1 new s2 \<Longrightarrow> tun_runs env s (calls @ new) s2"

inductive_cases tun_stepE: "tun_step env s calls s'"

definition con_ok :: "u16 \<Rightarrow> Connection \<Rightarrow> bool" where
  "con_ok port c \<longleftrightarrow> con_port c = port \<and> 1 \<le> con_count c \<and>
     (\<exists>ip. con_local_addr c = BAddr_IPv4 ip port) \<and> (\<exists>ip. con_remote_addr c = BAddr_IPv4 ip (hton16 53))"

definition tun_ok :: "tun_env \<Rightarrow> tun_state \<Rightarrow> bool" where
  "tun_ok env s \<longleftrightarrow> int (length (ts_write_buf s)) = env_mtu env \<and>
     (\<forall>port c. ts_connections s port = Some c \<longrightarrow> con_ok port c)"

definition call_ok :: "tun_env \<Rightarrow> tun_call \<Rightarrow> bool" where
  "call_ok env c =
     (case c of Tun_BTap_Send p \<Rightarrow> int (length p) \<le> env_mtu env
      | Tun_SubmitPacket a b _ p \<Rightarrow> same_family a b \<and> int (length p) \<le> env_udp_mtu env
      | Tun_netif_input p \<Rightarrow> length p \<le> 65535
      | _ \<Rightarrow> True)"

lemma tun_ok_buf: "tun_ok env s \<Longrightarrow> length b = length (ts_write_buf s) \<Longrightarrow> tun_ok env (s\<lparr>ts_write_buf := b\<rparr>)"
  by (simp add: tun_ok_def)

lemma insert_connection_ok:
  "tun_ok env s \<Longrightarrow> tun_ok env (insert_connection (BAddr_IPv4 a port) (BAddr_IPv4 b (hton16 53)) port s)"
  by (fastforce simp: tun_ok_def con_ok_def insert_connection_def find_connection_def split: option.splits)

lemma remove_connection_ok:
  "tun_ok env s \<Longrightarrow> ts_connections s port = Some con \<Longrightarrow> tun_ok env (remove_connection con s)"
  by (force simp: tun_ok_def con_ok_def remove_connection_def)

lemma dns_rewrite_ok:
  assumes "tun_ok env s" "dns_rewrite env ih uh s = Some (ih', uh', s')"
  shows "tun_ok env s' \<and> ts_write_buf s' = ts_write_buf s"
proof -
  have "tun_ok env (s\<lparr>ts_init := True, ts_connections := Map.empty\<rparr>)" using assms(1) by (simp add: tun_ok_def)
  then show ?thesis
    using assms insert_connection_ok remove_connection_ok
    by (auto simp: dns_rewrite_def Let_def BAddr_MakeIPv4_def find_connection_def split: if_splits option.splits)
qed

lemma parse_udp4_length:
  assumes "parse_udp4 data = Some (ih, uh, payload)"
  shows "28 + length payload \<le> length data"
proof -
  obtain hl p where c: "ipv4_check data = Some (ih, hl, p)" "udp_check p = Some (uh, payload)"
    using assms by (auto simp: parse_udp4_def split: if_splits option.splits)
  then have "8 + length payload \<le> length p" by (auto simp: udp_check_def Let_def get_at_def split: if_splits)
  then show ?thesis using ipv4_check_SomeD(3,6) [OF c(1)] by simp
qed

lemma process_dns_ok:
  assumes "tun_ok env s" "int (length data) \<le> env_mtu env" "process_device_dns_packet env data s = (s', calls, taken)"
  shows "tun_ok env s' \<and> list_all (call_ok env) calls \<and> length calls = of_bool taken"
proof (cases "\<exists>ih uh payload ih1 uh1 s1. env_dnsgw env \<and> parse_udp4 data = Some (ih, uh, payload) \<and> dns_rewrite env ih uh s = Some (ih1, uh1, s1)")
  case True
  then obtain ih uh payload ih1 uh1 s1 where
    h: "env_dnsgw env" "parse_udp4 data = Some (ih, uh, payload)" "dns_rewrite env ih uh s = Some (ih1, uh1, s1)" by blast
  note s1 = dns_rewrite_ok [OF assms(1) h(3)]
  have len: "int (28 + length payload) \<le> env_mtu env" using parse_udp4_length [OF h(2)] assms(2) by simp
  obtain ih' uh' where m: "made_udp4 ih1 uh1 payload = (ih', uh')" by fastforce
  have "28 + length payload \<le> length (ts_write_buf s1)" using len s1 unfolding tun_ok_def by linarith
  from dns_send [OF h m this] show ?thesis
    using assms(3) s1 len by (auto simp: call_ok_def intro!: tun_ok_buf)
next
  case False
  then show ?thesis using assms by (force simp: process_device_dns_packet_def split: if_splits option.splits prod.splits)
qed

lemma reject_ok:
  assumes "tun_ok env s" "reject_device_udp_packet env data s = (s', calls, taken)"
  shows "tun_ok env s' \<and> list_all (call_ok env) calls \<and> length calls \<le> of_bool taken"
proof (cases "\<exists>orig off p. \<not> (length data < 20 \<or> drop_bit 4 (data ! 0) \<noteq> 4 \<or> data ! 9 \<noteq> IPV4_PROTOCOL_UDP) \<and>
    ipv4_check data = Some (orig, off, p) \<and> 8 \<le> length p \<and> int (36 + off) \<le> env_mtu env")
  case True
  then obtain orig off p where h: "\<not> (length data < 20 \<or> drop_bit 4 (data ! 0) \<noteq> 4 \<or> data ! 9 \<noteq> IPV4_PROTOCOL_UDP)"
    "ipv4_check data = Some (orig, off, p)" "8 \<le> length p" "int (36 + off) \<le> env_mtu env" by blast
  have "off + 8 \<le> length data" using ipv4_check_SomeD(6) [OF h(2)] h(3) by simp
  then show ?thesis
    using assms h unfolding reject_device_udp_packet_def tun_ok_def Let_def by (auto simp: call_ok_def)
next
  case False
  then show ?thesis
    using assms unfolding reject_device_udp_packet_def by (fastforce simp: Let_def split: if_splits option.splits prod.splits)
qed

lemma ipv6_check_lengths: "ipv6_check data = Some (h, p) \<Longrightarrow> length (ip6_source_address h) = 16 \<and> length (ip6_destination_address h) = 16"
  by (auto simp: ipv6_check_def ipv6_header_load_def Let_def get_at_def split: if_splits)

lemma process_udp_ok:
  assumes "tun_ok env s" "process_device_udp_packet env data s = (s', calls, taken)"
  shows "tun_ok env s' \<and> list_all (call_ok env) calls \<and> length calls \<le> of_bool taken"
proof (cases "env_udpgw env")
  case True
  then show ?thesis
    using assms by (auto simp: process_device_udp_packet_def call_ok_def same_family_def BAddr_MakeIPv4_def BAddr_MakeIPv6_def
      dest!: ipv6_check_lengths split: if_splits option.splits)
next
  case False
  then show ?thesis using assms reject_ok by (simp add: process_device_udp_packet_def)
qed

lemma received_ok:
  assumes "tun_ok env s" "same_family local remote" "udpgw_client_handler_received env local remote data s = (s', calls)"
  shows "tun_ok env s' \<and> list_all (call_ok env) calls"
  using assms unfolding udpgw_client_handler_received_def same_family_def tun_ok_def
  by (auto simp: Let_def call_ok_def ipv6_header_bytes_def split: BAddr.splits if_splits)

lemma output_ok:
  assumes "tun_ok env s" "common_netif_output quitting env c cs s = (s', calls)"
  shows "tun_ok env s' \<and> list_all (call_ok env) calls"
  using assms copy_chunks_exact [of 0 "ts_write_buf s" "env_mtu env" "c # cs"]
  by (auto simp: common_netif_output_def tun_ok_def call_ok_def split: prod.splits option.splits if_splits)

lemma device_read_ok:
  assumes "tun_ok env s" "int (length data) \<le> env_mtu env" "device_read_handler_send alloc input env data s = (s', calls)"
  shows "tun_ok env s' \<and> list_all (call_ok env) calls"
proof -
  obtain s1 calls1 taken1 where d: "process_device_dns_packet env data s = (s1, calls1, taken1)" by (metis prod_cases3)
  obtain s2 calls2 taken2 where u: "process_device_udp_packet env data s1 = (s2, calls2, taken2)" by (metis prod_cases3)
  note ok1 = process_dns_ok [OF assms(1,2) d]
  note ok2 = process_udp_ok [OF conjunct1 [OF ok1] u]
  have "calls = Tun_Read_Done # calls1 \<and> s' = s1 \<or>
      s' = s2 \<and> (\<exists>r. calls = Tun_Read_Done # calls1 @ calls2 @ r \<and> list_all (call_ok env) r)"
    using assms(3) unfolding device_read_handler_send_def d u Let_def prod.case
    by (auto simp: call_ok_def split: if_splits)
  moreover have "call_ok env Tun_Read_Done" by (simp add: call_ok_def)
  ultimately show ?thesis using ok1 ok2 by auto
qed

lemma tun_step_ok: "tun_ok env s \<Longrightarrow> tun_step env s calls s' \<Longrightarrow> tun_ok env s' \<and> list_all (call_ok env) calls"
  by (erule tun_stepE) (erule (2) device_read_ok | erule (2) received_ok | erule (1) output_ok)+

text \<open>
  C28: Along every run of the packet path, whatever packets arrive, the device write buffer
  keeps the length of the device's MTU, so no handler writes behind it; the DNS table holds
  only entries with a positive count under their own port and with IPv4 addresses, so the
  unions read from it are the ones written; and no packet longer than the device's MTU is sent,
  no datagram longer than the gateway's limit or with mixed address families is submitted.
\<close>

theorem tun_runs_safe:
  assumes "tun_runs env s calls s'" "tun_ok env s"
  shows "tun_ok env s' \<and> list_all (call_ok env) calls"
  using assms
proof (induction rule: tun_runs.induct)
  case (runs_step s calls s1 new s2)
  note ok = runs_step.IH [OF runs_step.prems]
  from runs_step.hyps(2) tun_step_ok [OF conjunct1 [OF ok]] ok show ?case by simp
qed simp

lemma tun_runs_safe_witness:
  "\<exists>calls s'. tun_runs sample_env sample_state calls s' \<and> calls = [Tun_BTap_Send [1, 2, 3]] \<and> tun_ok sample_env s' \<and> list_all (call_ok sample_env) calls"
proof -
  have "common_netif_output False sample_env [1, 2, 3] [] sample_state = (sample_state, [Tun_BTap_Send [1, 2, 3]])"
    by (simp add: common_netif_output_def sample_env_def)
  then have r: "tun_runs sample_env sample_state [Tun_BTap_Send [1, 2, 3]] sample_state"
    using runs_step [OF runs_refl step_output] by fastforce
  moreover have "tun_ok sample_env sample_state" by (simp add: tun_ok_def sample_lengths) (simp add: sample_state_def)
  ultimately show ?thesis using tun_runs_safe [OF r] by blast
qed

end
