(* ===== verification/Socks_Client.thy ===== *)
theory Socks_Client
  imports Addr Bsize
begin

text \<open>
  The SOCKS5 client \<^verbatim>\<open>socksclient/BSocksClient.c\<close>. A handler returns the new client and the
  calls it makes, in order. \<^verbatim>\<open>recv_dest\<close> is an offset into the client's buffer; a send refers to
  the first bytes of the buffer until it is done. \<^verbatim>\<open>BRealloc\<close> answers with \<^verbatim>\<open>alloc\<close>: None when there
  is no memory, otherwise the contents of the fresh part of the block. The SOCKS dialogue of
  RFC 1928 and RFC 1929 is specified by \<^verbatim>\<open>socks_verdict\<close> and \<^verbatim>\<open>socks_messages\<close> over the bytes of the
  server.
\<close>

section \<open>Protocol\<close>

definition SOCKS_VERSION :: u8 where "SOCKS_VERSION = 0x05"
definition SOCKS_METHOD_NO_AUTHENTICATION_REQUIRED :: int where "SOCKS_METHOD_NO_AUTHENTICATION_REQUIRED = 0x00"
definition SOCKS_METHOD_USERNAME_PASSWORD :: int where "SOCKS_METHOD_USERNAME_PASSWORD = 0x02"
definition SOCKS_CMD_CONNECT :: u8 where "SOCKS_CMD_CONNECT = 0x01"
definition SOCKS_ATYP_IPV4 :: u8 where "SOCKS_ATYP_IPV4 = 0x01"
definition SOCKS_ATYP_IPV6 :: u8 where "SOCKS_ATYP_IPV6 = 0x04"
definition SOCKS_REP_SUCCEEDED :: u8 where "SOCKS_REP_SUCCEEDED = 0x00"

lemmas socks_consts = SOCKS_VERSION_def SOCKS_METHOD_NO_AUTHENTICATION_REQUIRED_def SOCKS_METHOD_USERNAME_PASSWORD_def
  SOCKS_CMD_CONNECT_def SOCKS_ATYP_IPV4_def SOCKS_ATYP_IPV6_def SOCKS_REP_SUCCEEDED_def

section \<open>State\<close>

record BSocksClient_auth_info =
  ai_auth_type :: int
  ai_username :: bytes
  ai_password :: bytes

datatype socks_state =
    STATE_CONNECTING
  | STATE_SENDING_HELLO
  | STATE_SENT_HELLO
  | STATE_SENDING_PASSWORD
  | STATE_SENT_PASSWORD
  | STATE_SENDING_REQUEST
  | STATE_SENT_REQUEST
  | STATE_RECEIVED_REPLY_HEADER
  | STATE_UP

record BSocksClient =
  sc_auth_info :: "BSocksClient_auth_info list"
  sc_dest_addr :: BAddr
  sc_state :: socks_state
  sc_buffer :: "bytes option"
  sc_recv_dest :: nat
  sc_recv_len :: nat
  sc_recv_total :: nat

datatype socks_event = BSOCKSCLIENT_EVENT_ERROR | BSOCKSCLIENT_EVENT_UP | BSOCKSCLIENT_EVENT_ERROR_CLOSED

datatype con_event = BCONNECTION_EVENT_ERROR | BCONNECTION_EVENT_RECVCLOSED

datatype socks_call =
    Sc_Con_Init
  | Sc_Con_Free
  | Sc_Control_Init
  | Sc_Control_Free
  | Sc_Up_Init
  | Sc_Up_Free
  | Sc_Connector_Free
  | Sc_Buffer_Free
  | Sc_Send nat
  | Sc_Recv nat nat
  | Sc_Handler socks_event

section \<open>Operations\<close>

definition BSocksClient_auth_none :: BSocksClient_auth_info where
  "BSocksClient_auth_none = \<lparr>ai_auth_type = SOCKS_METHOD_NO_AUTHENTICATION_REQUIRED, ai_username = [], ai_password = []\<rparr>"

definition BSocksClient_auth_password :: "bytes \<Rightarrow> bytes \<Rightarrow> BSocksClient_auth_info" where
  "BSocksClient_auth_password username password =
     \<lparr>ai_auth_type = SOCKS_METHOD_USERNAME_PASSWORD, ai_username = username, ai_password = password\<rparr>"

text \<open>\<^verbatim>\<open>BRealloc\<close> keeps the bytes that were there.\<close>

definition BRealloc :: "(nat \<Rightarrow> u8) option \<Rightarrow> bytes option \<Rightarrow> nat \<Rightarrow> bytes option" where
  "BRealloc alloc buf n =
     map_option (\<lambda>fresh. map (\<lambda>i. case buf of Some b \<Rightarrow> if i < length b then b ! i else fresh i | None \<Rightarrow> fresh i) [0..<n]) alloc"

definition reserve_buffer :: "(nat \<Rightarrow> u8) option \<Rightarrow> 64 bsize_t \<Rightarrow> BSocksClient \<Rightarrow> BSocksClient option" where
  "reserve_buffer alloc size' s =
     (if is_overflow size' then None
      else map_option (\<lambda>b. s\<lparr>sc_buffer := Some b\<rparr>) (BRealloc alloc (sc_buffer s) (unat (bvalue size'))))"

definition buffer_write :: "nat \<Rightarrow> bytes \<Rightarrow> BSocksClient \<Rightarrow> BSocksClient" where
  "buffer_write off data s = s\<lparr>sc_buffer := map_option (put_at off data) (sc_buffer s)\<rparr>"

definition do_receive :: "BSocksClient \<Rightarrow> BSocksClient \<times> socks_call list" where
  "do_receive s = (s, [Sc_Recv (sc_recv_dest s + sc_recv_len s) (sc_recv_total s - sc_recv_len s)])"

definition start_receive :: "nat \<Rightarrow> nat \<Rightarrow> BSocksClient \<Rightarrow> BSocksClient \<times> socks_call list" where
  "start_receive dest recv_total s = do_receive (s\<lparr>sc_recv_dest := dest, sc_recv_len := 0, sc_recv_total := recv_total\<rparr>)"

definition report_error :: "socks_event \<Rightarrow> socks_call list" where
  "report_error e = [Sc_Handler e]"

definition connector_handler ::
    "bool \<Rightarrow> (nat \<Rightarrow> u8) option \<Rightarrow> bool \<Rightarrow> BSocksClient \<Rightarrow> BSocksClient \<times> socks_call list" where
  "connector_handler con_init alloc is_error s =
     (if is_error then (s, report_error BSOCKSCLIENT_EVENT_ERROR) else
      if \<not> con_init then (s, report_error BSOCKSCLIENT_EVENT_ERROR) else
      let up = [Sc_Con_Init, Sc_Control_Init];
          fail1 = [Sc_Control_Free, Sc_Con_Free] @ report_error BSOCKSCLIENT_EVENT_ERROR;
          num = length (sc_auth_info s)
      in if num = 0 \<or> num > 255 then (s, up @ fail1) else
      let size' = bsize_add (bsize_fromsize 2) (bsize_mul (bsize_fromsize (of_nat num)) (bsize_fromsize 1)) in
      case reserve_buffer alloc size' s of
        None \<Rightarrow> (s, up @ fail1)
      | Some s \<Rightarrow>
          let s = buffer_write 0 [hton8 SOCKS_VERSION, hton8 (of_nat num)] s;
              s = buffer_write 2 (map (\<lambda>a. hton8 (word_of_int (ai_auth_type a))) (sc_auth_info s)) s
          in (s\<lparr>sc_state := STATE_SENDING_HELLO\<rparr>, up @ [Sc_Send (unat (bvalue size'))]))"

definition connection_handler :: "con_event \<Rightarrow> BSocksClient \<Rightarrow> BSocksClient \<times> socks_call list" where
  "connection_handler event s =
     (if sc_state s = STATE_UP \<and> event = BCONNECTION_EVENT_RECVCLOSED
      then (s, report_error BSOCKSCLIENT_EVENT_ERROR_CLOSED)
      else (s, report_error BSOCKSCLIENT_EVENT_ERROR))"

text \<open>The address type of a request to no IP address is not initialised; \<^verbatim>\<open>BSocksClient_Init\<close> excludes it.\<close>

definition auth_finished :: "(nat \<Rightarrow> u8) option \<Rightarrow> BSocksClient \<Rightarrow> BSocksClient \<times> socks_call list" where
  "auth_finished alloc s =
     (let size' = bsize_fromsize 4;
          size' = (case sc_dest_addr s of BAddr_IPv4 _ _ \<Rightarrow> bsize_add size' (bsize_fromsize 6)
                   | BAddr_IPv6 _ _ \<Rightarrow> bsize_add size' (bsize_fromsize 18) | _ \<Rightarrow> size')
      in case reserve_buffer alloc size' s of
        None \<Rightarrow> (s, report_error BSOCKSCLIENT_EVENT_ERROR)
      | Some s \<Rightarrow>
          let (atyp, s) = (case sc_dest_addr s of
                BAddr_IPv4 ip port \<Rightarrow> (hton8 SOCKS_ATYP_IPV4, buffer_write 4 (mem32 ip @ mem16 port) s)
              | BAddr_IPv6 ip port \<Rightarrow> (hton8 SOCKS_ATYP_IPV6, buffer_write 4 (ip @ mem16 port) s)
              | _ \<Rightarrow> (0, s));
              s = buffer_write 0 [hton8 SOCKS_VERSION, hton8 SOCKS_CMD_CONNECT, hton8 0, atyp] s
          in (s\<lparr>sc_state := STATE_SENDING_REQUEST\<rparr>, [Sc_Send (unat (bvalue size'))]))"

definition received_hello :: "(nat \<Rightarrow> u8) option \<Rightarrow> bytes \<Rightarrow> BSocksClient \<Rightarrow> BSocksClient \<times> socks_call list" where
  "received_hello alloc buf s =
     (let fail = (s, report_error BSOCKSCLIENT_EVENT_ERROR) in
      if ntoh8 (buf ! 0) \<noteq> SOCKS_VERSION then fail else
      case find (\<lambda>a. ai_auth_type a = uint (ntoh8 (buf ! 1))) (sc_auth_info s) of
        None \<Rightarrow> fail
      | Some ai \<Rightarrow>
          if ai_auth_type ai = SOCKS_METHOD_NO_AUTHENTICATION_REQUIRED then auth_finished alloc s
          else if ai_auth_type ai = SOCKS_METHOD_USERNAME_PASSWORD then
            let ul = length (ai_username ai); pl = length (ai_password ai) in
            if ul = 0 \<or> ul > 255 \<or> pl = 0 \<or> pl > 255 then fail else
            let size' = bsize_fromsize (1 + 1 + of_nat ul + 1 + of_nat pl) in
            (case reserve_buffer alloc size' s of
               None \<Rightarrow> fail
             | Some s \<Rightarrow>
                 let s = buffer_write 0 ([1, of_nat ul] @ ai_username ai @ [of_nat pl] @ ai_password ai) s
                 in (s\<lparr>sc_state := STATE_SENDING_PASSWORD\<rparr>, [Sc_Send (unat (bvalue size'))]))
          else (s, []))"

definition received_reply_header :: "bytes \<Rightarrow> BSocksClient \<Rightarrow> BSocksClient \<times> socks_call list" where
  "received_reply_header buf s =
     (let fail = (s, report_error BSOCKSCLIENT_EVENT_ERROR) in
      if ntoh8 (buf ! 0) \<noteq> SOCKS_VERSION then fail else
      if ntoh8 (buf ! 1) \<noteq> SOCKS_REP_SUCCEEDED then fail else
      case (if ntoh8 (buf ! 3) = SOCKS_ATYP_IPV4 then Some 6 else if ntoh8 (buf ! 3) = SOCKS_ATYP_IPV6 then Some 18 else None) of
        None \<Rightarrow> fail
      | Some addr_len \<Rightarrow>
          let (s, calls) = start_receive 4 addr_len s in (s\<lparr>sc_state := STATE_RECEIVED_REPLY_HEADER\<rparr>, calls))"

definition recv_complete :: "(nat \<Rightarrow> u8) option \<Rightarrow> BSocksClient \<Rightarrow> BSocksClient \<times> socks_call list" where
  "recv_complete alloc s =
     (let buf = (case sc_buffer s of Some b \<Rightarrow> b | None \<Rightarrow> []) in
      case sc_state s of
        STATE_SENT_HELLO \<Rightarrow> received_hello alloc buf s
      | STATE_SENT_REQUEST \<Rightarrow> received_reply_header buf s
      | STATE_SENT_PASSWORD \<Rightarrow>
          if buf ! 0 \<noteq> 1 then (s, report_error BSOCKSCLIENT_EVENT_ERROR) else
          if buf ! 1 \<noteq> 0 then (s, report_error BSOCKSCLIENT_EVENT_ERROR) else
          auth_finished alloc s
      | STATE_RECEIVED_REPLY_HEADER \<Rightarrow>
          (s\<lparr>sc_buffer := None, sc_state := STATE_UP\<rparr>,
           [Sc_Buffer_Free, Sc_Control_Free, Sc_Up_Init, Sc_Handler BSOCKSCLIENT_EVENT_UP])
      | _ \<Rightarrow> (s, []))"

definition recv_handler_done :: "(nat \<Rightarrow> u8) option \<Rightarrow> nat \<Rightarrow> BSocksClient \<Rightarrow> BSocksClient \<times> socks_call list" where
  "recv_handler_done alloc data_len s =
     (let s = s\<lparr>sc_recv_len := sc_recv_len s + data_len\<rparr>
      in if sc_recv_len s < sc_recv_total s then do_receive s else recv_complete alloc s)"

definition send_handler_done :: "(nat \<Rightarrow> u8) option \<Rightarrow> BSocksClient \<Rightarrow> BSocksClient \<times> socks_call list" where
  "send_handler_done alloc s =
     (let fail = (s, report_error BSOCKSCLIENT_EVENT_ERROR);
          receive = (\<lambda>size' recv_total state.
            case reserve_buffer alloc size' s of
              None \<Rightarrow> fail
            | Some s \<Rightarrow> let (s, calls) = start_receive 0 recv_total s in (s\<lparr>sc_state := state\<rparr>, calls))
      in case sc_state s of
        STATE_SENDING_HELLO \<Rightarrow> receive (bsize_fromsize 2) 2 STATE_SENT_HELLO
      | STATE_SENDING_REQUEST \<Rightarrow>
          receive (bsize_add (bsize_fromsize 4) (bsize_max (bsize_fromsize 6) (bsize_fromsize 18))) 4 STATE_SENT_REQUEST
      | STATE_SENDING_PASSWORD \<Rightarrow> receive (bsize_fromsize 2) 2 STATE_SENT_PASSWORD
      | _ \<Rightarrow> (s, []))"

text \<open>\<^verbatim>\<open>connector_init\<close> is whether \<^verbatim>\<open>BConnector_Init\<close> succeeded.\<close>

definition BSocksClient_Init :: "bool \<Rightarrow> BSocksClient_auth_info list \<Rightarrow> BAddr \<Rightarrow> BSocksClient option" where
  "BSocksClient_Init connector_init auth_info dest_addr =
     (if \<not> connector_init then None else
      Some \<lparr>sc_auth_info = auth_info, sc_dest_addr = dest_addr, sc_state = STATE_CONNECTING, sc_buffer = None,
            sc_recv_dest = 0, sc_recv_len = 0, sc_recv_total = 0\<rparr>)"

definition BSocksClient_Free :: "BSocksClient \<Rightarrow> socks_call list" where
  "BSocksClient_Free s =
     (if sc_state s \<noteq> STATE_CONNECTING
      then (if sc_state s = STATE_UP then [Sc_Up_Free] else [Sc_Control_Free]) @ [Sc_Con_Free] else []) @
     [Sc_Connector_Free] @ (if sc_buffer s \<noteq> None then [Sc_Buffer_Free] else [])"

section \<open>The client between its connection and its user\<close>

text \<open>
  \<^verbatim>\<open>sy_got\<close> are the bytes taken from the server, \<^verbatim>\<open>sy_sent\<close> the messages the connection has sent,
  read from the buffer when the send is done. A call that is not allowed makes a run
  undefined: a send or receive while one is outstanding or outside of the buffer, use of
  a resource that is not there, a second initialisation, a double free. The user frees
  the client after an error, so nothing happens after it.
\<close>

record sc_sys =
  sy_client :: BSocksClient
  sy_connector :: bool
  sy_con :: bool
  sy_control :: bool
  sy_up :: bool
  sy_buffer :: bool
  sy_send :: "nat option"
  sy_recv :: "(nat \<times> nat) option"
  sy_sent :: "bytes list"
  sy_got :: bytes
  sy_events :: "socks_event list"

abbreviation sy_buf :: "sc_sys \<Rightarrow> bytes" where
  "sy_buf s \<equiv> (case sc_buffer (sy_client s) of Some b \<Rightarrow> b | None \<Rightarrow> [])"

definition sy_failed :: "sc_sys \<Rightarrow> bool" where
  "sy_failed s \<longleftrightarrow> (\<exists>e \<in> set (sy_events s). e \<noteq> BSOCKSCLIENT_EVENT_UP)"

fun sc_call :: "socks_call \<Rightarrow> sc_sys \<Rightarrow> sc_sys option" where
  "sc_call Sc_Con_Init s = (if sy_connector s \<and> \<not> sy_con s then Some (s\<lparr>sy_con := True\<rparr>) else None)"
| "sc_call Sc_Con_Free s = (if sy_con s \<and> \<not> sy_control s \<and> \<not> sy_up s then Some (s\<lparr>sy_con := False\<rparr>) else None)"
| "sc_call Sc_Control_Init s = (if sy_con s \<and> \<not> sy_control s \<and> \<not> sy_up s then Some (s\<lparr>sy_control := True\<rparr>) else None)"
| "sc_call Sc_Control_Free s = (if sy_control s then Some (s\<lparr>sy_control := False, sy_send := None, sy_recv := None\<rparr>) else None)"
| "sc_call Sc_Up_Init s = (if sy_con s \<and> \<not> sy_control s \<and> \<not> sy_up s then Some (s\<lparr>sy_up := True\<rparr>) else None)"
| "sc_call Sc_Up_Free s = (if sy_up s then Some (s\<lparr>sy_up := False\<rparr>) else None)"
| "sc_call Sc_Connector_Free s = (if sy_connector s \<and> \<not> sy_con s then Some (s\<lparr>sy_connector := False\<rparr>) else None)"
| "sc_call Sc_Buffer_Free s = (if sy_buffer s \<and> sy_send s = None \<and> sy_recv s = None then Some (s\<lparr>sy_buffer := False\<rparr>) else None)"
| "sc_call (Sc_Send n) s =
     (if sy_control s \<and> sy_send s = None \<and> 0 < n \<and> n \<le> length (sy_buf s) then Some (s\<lparr>sy_send := Some n\<rparr>) else None)"
| "sc_call (Sc_Recv off n) s =
     (if sy_control s \<and> sy_recv s = None \<and> 0 < n \<and> off + n \<le> length (sy_buf s) then Some (s\<lparr>sy_recv := Some (off, n)\<rparr>) else None)"
| "sc_call (Sc_Handler e) s = (if sy_failed s then None else Some (s\<lparr>sy_events := sy_events s @ [e]\<rparr>))"

fun sc_perform :: "socks_call list \<Rightarrow> sc_sys \<Rightarrow> sc_sys option" where
  "sc_perform [] s = Some s"
| "sc_perform (c # cs) s = Option.bind (sc_call c s) (sc_perform cs)"

text \<open>A buffer the client acquired in a handler is there from then on.\<close>

definition sc_handle :: "BSocksClient \<times> socks_call list \<Rightarrow> sc_sys \<Rightarrow> sc_sys option" where
  "sc_handle r s = sc_perform (snd r) (s\<lparr>sy_client := fst r, sy_buffer := (sy_buffer s \<or> sc_buffer (fst r) \<noteq> None)\<rparr>)"

datatype sc_event =
    Ev_Connected bool bool "(nat \<Rightarrow> u8) option"
  | Ev_Sent "(nat \<Rightarrow> u8) option"
  | Ev_Received bytes "(nat \<Rightarrow> u8) option"
  | Ev_Connection con_event

fun sc_step :: "sc_event \<Rightarrow> sc_sys \<Rightarrow> sc_sys option" where
  "sc_step (Ev_Connected is_error con_init alloc) s =
     (if sc_state (sy_client s) = STATE_CONNECTING then sc_handle (connector_handler con_init alloc is_error (sy_client s)) s else Some s)"
| "sc_step (Ev_Sent alloc) s =
     (case sy_send s of None \<Rightarrow> Some s
      | Some n \<Rightarrow> sc_handle (send_handler_done alloc (sy_client s))
                    (s\<lparr>sy_send := None, sy_sent := sy_sent s @ [take n (sy_buf s)]\<rparr>))"
| "sc_step (Ev_Received data alloc) s =
     (case sy_recv s of None \<Rightarrow> Some s
      | Some (off, n) \<Rightarrow>
          if data = [] \<or> n < length data then Some s else
          sc_handle (recv_handler_done alloc (length data) (buffer_write off data (sy_client s)))
            (s\<lparr>sy_recv := None, sy_got := sy_got s @ data\<rparr>))"
| "sc_step (Ev_Connection e) s = (if sy_con s then sc_handle (connection_handler e (sy_client s)) s else Some s)"

fun sc_run :: "sc_event list \<Rightarrow> sc_sys \<Rightarrow> sc_sys option" where
  "sc_run [] s = Some s"
| "sc_run (e # es) s = (if sy_failed s then Some s else Option.bind (sc_step e s) (sc_run es))"

definition sc_start :: "BSocksClient \<Rightarrow> sc_sys" where
  "sc_start c = \<lparr>sy_client = c, sy_connector = True, sy_con = False, sy_control = False, sy_up = False, sy_buffer = False,
     sy_send = None, sy_recv = None, sy_sent = [], sy_got = [], sy_events = []\<rparr>"

section \<open>The dialogue\<close>

datatype verdict = Need nat | Bad | Good

definition reply_verdict :: "bytes \<Rightarrow> verdict" where
  "reply_verdict b =
     (if length b < 4 then Need (4 - length b) else
      if b ! 0 \<noteq> 5 \<or> b ! 1 \<noteq> 0 \<or> b ! 3 \<notin> {1, 4} then Bad else
      let n = (if b ! 3 = 1 then 10 else 22) in
      if length b < n then Need (n - length b) else Good)"

definition password_verdict :: "bytes \<Rightarrow> verdict" where
  "password_verdict b =
     (if length b < 2 then Need (2 - length b) else
      if b ! 0 \<noteq> 1 \<or> b ! 1 \<noteq> 0 then Bad else reply_verdict (drop 2 b))"

definition auth_pick :: "BSocksClient_auth_info list \<Rightarrow> u8 \<Rightarrow> BSocksClient_auth_info option" where
  "auth_pick auth m = find (\<lambda>a. ai_auth_type a = uint m) auth"

definition password_ok :: "BSocksClient_auth_info \<Rightarrow> bool" where
  "password_ok a \<longleftrightarrow> ai_username a \<noteq> [] \<and> length (ai_username a) \<le> 255 \<and> ai_password a \<noteq> [] \<and> length (ai_password a) \<le> 255"

text \<open>The number of bytes missing before the client has to act, or the outcome.\<close>

definition socks_verdict :: "BSocksClient_auth_info list \<Rightarrow> bytes \<Rightarrow> verdict" where
  "socks_verdict auth b =
     (if length b < 2 then Need (2 - length b) else
      if b ! 0 \<noteq> 5 then Bad else
      case auth_pick auth (b ! 1) of
        None \<Rightarrow> Bad
      | Some a \<Rightarrow>
          if ai_auth_type a = 0 then reply_verdict (drop 2 b)
          else if password_ok a then password_verdict (drop 2 b) else Bad)"

definition hello_message :: "BSocksClient_auth_info list \<Rightarrow> bytes" where
  "hello_message auth = [5, of_nat (length auth)] @ map (\<lambda>a. word_of_int (ai_auth_type a)) auth"

definition password_message :: "BSocksClient_auth_info \<Rightarrow> bytes" where
  "password_message a =
     [1, of_nat (length (ai_username a))] @ ai_username a @ [of_nat (length (ai_password a))] @ ai_password a"

definition request_message :: "BAddr \<Rightarrow> bytes" where
  "request_message dest =
     (case dest of BAddr_IPv4 ip port \<Rightarrow> [5, 1, 0, 1] @ mem32 ip @ mem16 port
      | BAddr_IPv6 ip port \<Rightarrow> [5, 1, 0, 4] @ ip @ mem16 port | _ \<Rightarrow> [])"

text \<open>What the client has to send on its part, given the bytes of the server.\<close>

definition socks_messages :: "BSocksClient_auth_info list \<Rightarrow> BAddr \<Rightarrow> bytes \<Rightarrow> bytes list" where
  "socks_messages auth dest b =
     hello_message auth #
     (if length b < 2 \<or> b ! 0 \<noteq> 5 then [] else
      case auth_pick auth (b ! 1) of
        None \<Rightarrow> []
      | Some a \<Rightarrow>
          if ai_auth_type a = 0 then [request_message dest]
          else if \<not> password_ok a then []
          else password_message a # (if 4 \<le> length b \<and> b ! 2 = 1 \<and> b ! 3 = 0 then [request_message dest] else []))"

text \<open>The bytes of the server by which the client is authenticated, and the messages sent until then.\<close>

definition authenticated :: "BSocksClient_auth_info list \<Rightarrow> bytes \<Rightarrow> bytes list \<Rightarrow> bool" where
  "authenticated auth b msgs \<longleftrightarrow>
     (\<exists>m a. auth_pick auth m = Some a \<and>
       (if ai_auth_type a = 0 then b = [5, m] \<and> msgs = [hello_message auth]
        else password_ok a \<and> b = [5, m, 1, 0] \<and> msgs = [hello_message auth, password_message a]))"

lemma authenticated_reply:
  "authenticated auth b msgs \<Longrightarrow>
     socks_verdict auth (b @ x) = reply_verdict x \<and> socks_messages auth dest (b @ x) = msgs @ [request_message dest]"
  by (auto simp: authenticated_def socks_verdict_def socks_messages_def password_verdict_def split: if_splits)

lemma hello_verdict: "length x < 2 \<Longrightarrow> socks_verdict auth x = Need (2 - length x) \<and> socks_messages auth dest x = [hello_message auth]"
  by (simp add: socks_verdict_def socks_messages_def)

lemma password_phase:
  assumes "auth_pick auth m = Some a" "ai_auth_type a \<noteq> 0" "password_ok a" "length x < 2"
  shows "socks_verdict auth (5 # m # x) = Need (2 - length x) \<and> socks_messages auth dest (5 # m # x) = [hello_message auth, password_message a]"
  using assms by (auto simp: socks_verdict_def socks_messages_def password_verdict_def)

definition reply_length :: "bytes \<Rightarrow> nat" where
  "reply_length h = (if h ! 3 = 1 then 6 else 18)"

definition reply_header_ok :: "bytes \<Rightarrow> bool" where
  "reply_header_ok h \<longleftrightarrow> length h = 4 \<and> h ! 0 = 5 \<and> h ! 1 = 0 \<and> h ! 3 \<in> {1, 4}"

lemma reply_verdict_header:
  "reply_header_ok h \<Longrightarrow> reply_verdict (h @ x) = (if length x < reply_length h then Need (reply_length h - length x) else Good)"
  by (auto simp: reply_header_ok_def reply_verdict_def reply_length_def nth_append)

section \<open>The invariant\<close>

definition receiving :: "nat \<Rightarrow> nat \<Rightarrow> bytes \<Rightarrow> sc_sys \<Rightarrow> bool" where
  "receiving off n base s \<longleftrightarrow>
     (\<exists>x b. sy_got s = base @ x \<and> length x < n \<and> sc_buffer (sy_client s) = Some b \<and> off + n \<le> length b \<and> get_at off (length x) b = x \<and>
        sc_recv_dest (sy_client s) = off \<and> sc_recv_len (sy_client s) = length x \<and> sc_recv_total (sy_client s) = n \<and>
        sy_recv s = Some (off + length x, n - length x) \<and> sy_send s = None)"

definition sending :: "bytes \<Rightarrow> sc_sys \<Rightarrow> bool" where
  "sending msg s \<longleftrightarrow> sc_buffer (sy_client s) = Some msg \<and> sy_send s = Some (length msg) \<and> sy_recv s = None"

definition sc_phase :: "BSocksClient_auth_info list \<Rightarrow> BAddr \<Rightarrow> sc_sys \<Rightarrow> bool" where
  "sc_phase auth dest s =
     (case sc_state (sy_client s) of
        STATE_CONNECTING \<Rightarrow> sc_buffer (sy_client s) = None \<and> sy_got s = [] \<and> sy_sent s = [] \<and> sy_send s = None \<and> sy_recv s = None
      | STATE_SENDING_HELLO \<Rightarrow> sending (hello_message auth) s \<and> sy_got s = [] \<and> sy_sent s = []
      | STATE_SENT_HELLO \<Rightarrow> receiving 0 2 [] s \<and> sy_sent s = [hello_message auth]
      | STATE_SENDING_PASSWORD \<Rightarrow>
          (\<exists>m a. auth_pick auth m = Some a \<and> ai_auth_type a \<noteq> 0 \<and> password_ok a \<and> sending (password_message a) s \<and>
             sy_got s = [5, m] \<and> sy_sent s = [hello_message auth])
      | STATE_SENT_PASSWORD \<Rightarrow>
          (\<exists>m a. auth_pick auth m = Some a \<and> ai_auth_type a \<noteq> 0 \<and> password_ok a \<and> receiving 0 2 [5, m] s \<and>
             sy_sent s = [hello_message auth, password_message a])
      | STATE_SENDING_REQUEST \<Rightarrow>
          (\<exists>msgs. authenticated auth (sy_got s) msgs \<and> sending (request_message dest) s \<and> sy_sent s = msgs)
      | STATE_SENT_REQUEST \<Rightarrow>
          (\<exists>b msgs. authenticated auth b msgs \<and> receiving 0 4 b s \<and> length (sy_buf s) = 22 \<and> sy_sent s = msgs @ [request_message dest])
      | STATE_RECEIVED_REPLY_HEADER \<Rightarrow>
          (\<exists>b msgs h. authenticated auth b msgs \<and> reply_header_ok h \<and> receiving 4 (reply_length h) (b @ h) s \<and>
             sy_sent s = msgs @ [request_message dest])
      | STATE_UP \<Rightarrow>
          socks_verdict auth (sy_got s) = Good \<and> sy_sent s = socks_messages auth dest (sy_got s) \<and>
          sc_buffer (sy_client s) = None \<and> sy_send s = None \<and> sy_recv s = None)"

definition sc_resources :: "sc_sys \<Rightarrow> bool" where
  "sc_resources s \<longleftrightarrow> sy_connector s \<and> sy_buffer s = (sc_buffer (sy_client s) \<noteq> None) \<and>
     sy_con s = (sc_state (sy_client s) \<noteq> STATE_CONNECTING) \<and>
     sy_up s = (sc_state (sy_client s) = STATE_UP) \<and>
     sy_control s = (sc_state (sy_client s) \<notin> {STATE_CONNECTING, STATE_UP}) \<and>
     (\<not> sy_control s \<longrightarrow> sy_send s = None \<and> sy_recv s = None)"

text \<open>The events reported while the client is in use, and after it failed.\<close>

definition live_events :: "socks_state \<Rightarrow> socks_event list" where
  "live_events st = (if st = STATE_UP then [BSOCKSCLIENT_EVENT_UP] else [])"

definition sc_ok :: "BSocksClient_auth_info list \<Rightarrow> BAddr \<Rightarrow> sc_sys \<Rightarrow> bool" where
  "sc_ok auth dest s \<longleftrightarrow>
     sc_auth_info (sy_client s) = auth \<and> sc_dest_addr (sy_client s) = dest \<and> sc_resources s \<and>
     (sc_state (sy_client s) = STATE_UP \<longrightarrow> socks_verdict auth (sy_got s) = Good) \<and>
     (if sy_failed s
      then \<exists>e. e \<noteq> BSOCKSCLIENT_EVENT_UP \<and> sy_events s = live_events (sc_state (sy_client s)) @ [e]
      else sy_events s = live_events (sc_state (sy_client s)) \<and> sc_phase auth dest s)"

definition faulty :: "sc_event \<Rightarrow> bool" where
  "faulty e = (case e of Ev_Connected is_error con_init alloc \<Rightarrow> is_error \<or> \<not> con_init \<or> alloc = None
     | Ev_Sent alloc \<Rightarrow> alloc = None | Ev_Received _ alloc \<Rightarrow> alloc = None | Ev_Connection _ \<Rightarrow> True)"

definition step_ok :: "BSocksClient_auth_info list \<Rightarrow> BAddr \<Rightarrow> bool \<Rightarrow> sc_sys option \<Rightarrow> bool" where
  "step_ok auth dest fault r =
     (case r of None \<Rightarrow> False
      | Some s \<Rightarrow> sc_ok auth dest s \<and>
          (sy_failed s \<longrightarrow> fault \<or> socks_verdict auth (sy_got s) = Bad \<and> sy_events s = [BSOCKSCLIENT_EVENT_ERROR]))"

lemma live_not_failed [simp]: "\<not> (\<exists>e \<in> set (live_events st). e \<noteq> BSOCKSCLIENT_EVENT_UP)"
  by (simp add: live_events_def)

lemma failed_snoc: "sy_events s = live_events st @ [e] \<Longrightarrow> sy_failed s \<longleftrightarrow> e \<noteq> BSOCKSCLIENT_EVENT_UP"
  by (auto simp: sy_failed_def live_events_def)

text \<open>Reporting an error leaves the client as it is.\<close>

lemma report_ok:
  assumes "sc_resources s" "\<not> sy_failed s" "sy_events s = live_events (sc_state (sy_client s))" "e \<noteq> BSOCKSCLIENT_EVENT_UP"
    and "sc_auth_info (sy_client s) = auth" "sc_dest_addr (sy_client s) = dest"
    and "sc_state (sy_client s) = STATE_UP \<Longrightarrow> socks_verdict auth (sy_got s) = Good"
    and "fault \<or> socks_verdict auth (sy_got s) = Bad \<and> sc_state (sy_client s) \<noteq> STATE_UP \<and> e = BSOCKSCLIENT_EVENT_ERROR"
  shows "step_ok auth dest fault (sc_perform [Sc_Handler e] s)"
proof -
  have "sy_failed (s\<lparr>sy_events := sy_events s @ [e]\<rparr>)" using assms(4) by (auto simp: sy_failed_def)
  then show ?thesis using assms by (auto simp: step_ok_def sc_ok_def sc_resources_def live_events_def)
qed

lemma reserve_buffer_cases:
  assumes "\<not> is_overflow sz" "unat (bvalue sz) = n"
  shows "alloc = None \<Longrightarrow> reserve_buffer alloc sz s = None"
    and "alloc \<noteq> None \<Longrightarrow> \<exists>b. reserve_buffer alloc sz s = Some (s\<lparr>sc_buffer := Some b\<rparr>) \<and> length b = n"
  using assms by (auto simp: reserve_buffer_def BRealloc_def)

lemma put_whole: "length x = length b \<Longrightarrow> put_at 0 x b = x"
  by (simp add: put_at_def)

text \<open>A handler of the control phase is entered with client \<^verbatim>\<open>c\<close> and nothing outstanding.\<close>

definition in_control :: "BSocksClient_auth_info list \<Rightarrow> BAddr \<Rightarrow> BSocksClient \<Rightarrow> sc_sys \<Rightarrow> bool" where
  "in_control auth dest c s \<longleftrightarrow>
     sc_auth_info c = auth \<and> sc_dest_addr c = dest \<and> sc_state c \<notin> {STATE_CONNECTING, STATE_UP} \<and>
     sy_connector s \<and> sy_con s \<and> sy_control s \<and> \<not> sy_up s \<and> sy_buffer s = (sc_buffer c \<noteq> None) \<and>
     sy_events s = [] \<and> sy_send s = None \<and> sy_recv s = None"

lemma control_fail:
  assumes "in_control auth dest c s" "fault \<or> socks_verdict auth (sy_got s) = Bad"
  shows "step_ok auth dest fault (sc_handle (c, report_error BSOCKSCLIENT_EVENT_ERROR) s)"
  unfolding sc_handle_def report_error_def fst_conv snd_conv using assms
  by (intro report_ok) (auto simp: in_control_def sc_resources_def sy_failed_def live_events_def)

lemma control_send:
  assumes "in_control auth dest c s" "st \<notin> {STATE_CONNECTING, STATE_UP}" "msg \<noteq> []" "n = length msg"
    and "sc_phase auth dest (s\<lparr>sy_client := c\<lparr>sc_buffer := Some msg, sc_state := st\<rparr>, sy_buffer := True, sy_send := Some n\<rparr>)"
  shows "step_ok auth dest fault (sc_handle (c\<lparr>sc_buffer := Some msg, sc_state := st\<rparr>, [Sc_Send n]) s)"
  using assms by (auto simp: step_ok_def sc_handle_def in_control_def sc_ok_def sc_resources_def sy_failed_def live_events_def)

lemma control_recv:
  assumes "in_control auth dest c s" "sc_state c' \<notin> {STATE_CONNECTING, STATE_UP}" "sc_buffer c' = Some b" "0 < n" "off + n \<le> length b"
    and "sc_auth_info c' = auth" "sc_dest_addr c' = dest"
    and "sc_phase auth dest (s\<lparr>sy_client := c', sy_buffer := True, sy_recv := Some (off, n)\<rparr>)"
  shows "step_ok auth dest fault (sc_handle (c', [Sc_Recv off n]) s)"
  using assms by (auto simp: step_ok_def sc_handle_def in_control_def sc_ok_def sc_resources_def sy_failed_def live_events_def)

definition dest_ok :: "BAddr \<Rightarrow> bool" where
  "dest_ok dest = (case dest of BAddr_IPv4 _ _ \<Rightarrow> True | BAddr_IPv6 ip _ \<Rightarrow> length ip = 16 | _ \<Rightarrow> False)"

lemma hton8_id [simp]: "hton8 x = x" "ntoh8 x = x"
  by (simp_all add: hton8_def ntoh8_def)

lemma auth_finished_eq:
  assumes "dest_ok (sc_dest_addr c)"
  shows "alloc = None \<Longrightarrow> auth_finished alloc c = (c, report_error BSOCKSCLIENT_EVENT_ERROR)"
    and "alloc \<noteq> None \<Longrightarrow> auth_finished alloc c =
      (c\<lparr>sc_buffer := Some (request_message (sc_dest_addr c)), sc_state := STATE_SENDING_REQUEST\<rparr>,
       [Sc_Send (length (request_message (sc_dest_addr c)))])"
proof -
  let ?sz4 = "bsize_add (bsize_fromsize 4) (bsize_fromsize 6) :: 64 bsize_t"
  let ?sz6 = "bsize_add (bsize_fromsize 4) (bsize_fromsize 18) :: 64 bsize_t"
  have sz: "\<not> is_overflow ?sz4" "unat (bvalue ?sz4) = 10" "\<not> is_overflow ?sz6" "unat (bvalue ?sz6) = 22"
    by code_simp+
  note r = reserve_buffer_cases [OF sz(1,2)] reserve_buffer_cases [OF sz(3,4)]
  show "alloc = None \<Longrightarrow> auth_finished alloc c = (c, report_error BSOCKSCLIENT_EVENT_ERROR)"
    using r assms by (auto simp: auth_finished_def dest_ok_def Let_def split: BAddr.splits)
  assume a: "alloc \<noteq> None"
  have w: "put_at 0 h (put_at 4 x b) = h @ x" if "length h = 4" "length b = 4 + length x" for h x and b :: bytes
    using that by (simp add: put_at_def)
  from assms consider (v4) ip port where "sc_dest_addr c = BAddr_IPv4 ip port"
    | (v6) ip port where "sc_dest_addr c = BAddr_IPv6 ip port" "length ip = 16"
    by (auto simp: dest_ok_def split: BAddr.splits)
  then show "auth_finished alloc c =
      (c\<lparr>sc_buffer := Some (request_message (sc_dest_addr c)), sc_state := STATE_SENDING_REQUEST\<rparr>,
       [Sc_Send (length (request_message (sc_dest_addr c)))])"
  proof cases
    case v4
    obtain b where "reserve_buffer alloc ?sz4 c = Some (c\<lparr>sc_buffer := Some b\<rparr>)" "length b = 10" using r(2) a by blast
    then show ?thesis using v4 sz(2)
      by (simp add: auth_finished_def Let_def buffer_write_def w request_message_def socks_consts)
  next
    case v6
    obtain b where "reserve_buffer alloc ?sz6 c = Some (c\<lparr>sc_buffer := Some b\<rparr>)" "length b = 22" using r(4) a by blast
    then show ?thesis using v6 sz(4)
      by (simp add: auth_finished_def Let_def buffer_write_def w request_message_def socks_consts)
  qed
qed

lemma auth_finished_ok:
  assumes "in_control auth dest c s" "dest_ok dest" "authenticated auth (sy_got s) (sy_sent s)"
  shows "step_ok auth dest (alloc = None) (sc_handle (auth_finished alloc c) s)"
proof (cases "alloc = None")
  case True
  then show ?thesis using assms auth_finished_eq(1) [of c] by (auto simp: in_control_def intro!: control_fail)
next
  case False
  have d: "sc_dest_addr c = dest" using assms(1) by (simp add: in_control_def)
  show ?thesis
    using auth_finished_eq(2) [of c alloc] False assms d
    by (auto simp: sc_phase_def sending_def request_message_def dest_ok_def in_control_def intro!: control_send split: BAddr.splits)
qed

lemma hello_size:
  assumes "n \<le> 255"
  shows "\<not> is_overflow (bsize_add (bsize_fromsize 2) (bsize_mul (bsize_fromsize (of_nat n)) (bsize_fromsize 1)) :: 64 bsize_t)"
    and "unat (bvalue (bsize_add (bsize_fromsize 2) (bsize_mul (bsize_fromsize (of_nat n)) (bsize_fromsize 1)) :: 64 bsize_t)) = 2 + n"
proof -
  let ?sz = "bsize_add (bsize_fromsize 2) (bsize_mul (bsize_fromsize (of_nat n)) (bsize_fromsize 1)) :: 64 bsize_t"
  have "unat (of_nat n :: 64 word) = n" using assms by (intro unat_of_nat_small) simp
  then have "bsize_nat ?sz = Some (2 + n)"
    using assms by (simp add: bsize_nat_add bsize_nat_mul bsize_nat_fromsize exact_def)
  then show "\<not> is_overflow ?sz" "unat (bvalue ?sz) = 2 + n"
    by (auto simp: bsize_nat_def bsize_tosize_def split: if_splits)
qed

definition auth_ok :: "BSocksClient_auth_info list \<Rightarrow> bool" where
  "auth_ok auth \<longleftrightarrow> (\<forall>a \<in> set auth. ai_auth_type a = 0 \<or> ai_auth_type a = 2)"

definition methods_ok :: "BSocksClient_auth_info list \<Rightarrow> bool" where
  "methods_ok auth \<longleftrightarrow> auth \<noteq> [] \<and> length auth \<le> 255"

lemma connected_ok:
  assumes "sc_ok auth dest s" "\<not> sy_failed s"
  shows "step_ok auth dest (is_error \<or> \<not> con_init \<or> alloc = None \<or> \<not> methods_ok auth) (sc_step (Ev_Connected is_error con_init alloc) s)"
proof (cases "sc_state (sy_client s) = STATE_CONNECTING")
  case True
  let ?n = "length auth"
  let ?sz = "bsize_add (bsize_fromsize 2) (bsize_mul (bsize_fromsize (of_nat ?n)) (bsize_fromsize 1)) :: 64 bsize_t"
  have c: "sc_auth_info (sy_client s) = auth" "sc_dest_addr (sy_client s) = dest" "sc_buffer (sy_client s) = None"
    "sy_connector s" "\<not> sy_con s" "\<not> sy_up s" "\<not> sy_control s" "\<not> sy_buffer s" "sy_events s = []" "sy_got s = []" "sy_sent s = []"
    "sy_send s = None" "sy_recv s = None"
    using assms True by (auto simp: sc_ok_def sc_resources_def live_events_def sc_phase_def split: if_splits)
  show ?thesis
  proof (cases "is_error \<or> \<not> con_init \<or> alloc = None \<or> \<not> methods_ok auth")
    case fault: True
    have nf: "\<not> sy_failed (s\<lparr>sy_events := []\<rparr>)" by (simp add: sy_failed_def)
    have "?n \<noteq> 0 \<Longrightarrow> \<not> 255 < ?n \<Longrightarrow> alloc = None \<Longrightarrow> reserve_buffer alloc ?sz (sy_client s) = None"
      using hello_size [of ?n] by (intro reserve_buffer_cases(1)) auto
    then have "connector_handler con_init alloc is_error (sy_client s) \<in>
        {(sy_client s, [Sc_Handler BSOCKSCLIENT_EVENT_ERROR]),
         (sy_client s, [Sc_Con_Init, Sc_Control_Init, Sc_Control_Free, Sc_Con_Free, Sc_Handler BSOCKSCLIENT_EVENT_ERROR])}"
      using fault c by (auto simp: connector_handler_def Let_def report_error_def methods_ok_def)
    then show ?thesis using True c fault
      by (auto simp: sc_handle_def step_ok_def sc_ok_def sc_resources_def live_events_def sy_failed_def)
  next
    case good: False
    then have n: "auth \<noteq> []" "?n \<le> 255" by (auto simp: methods_ok_def)
    obtain b where b: "reserve_buffer alloc ?sz (sy_client s) = Some (sy_client s\<lparr>sc_buffer := Some b\<rparr>)" "length b = 2 + ?n"
      using reserve_buffer_cases(2) [OF hello_size(1) hello_size(2), OF n(2) n(2), of alloc "sy_client s"] good by auto
    have "put_at 2 (map (\<lambda>a. word_of_int (ai_auth_type a)) auth) (put_at 0 [5, of_nat ?n] b) = hello_message auth"
      using b(2) by (simp add: put_at_def hello_message_def)
    then have "connector_handler con_init alloc is_error (sy_client s) =
        (sy_client s\<lparr>sc_buffer := Some (hello_message auth), sc_state := STATE_SENDING_HELLO\<rparr>,
         [Sc_Con_Init, Sc_Control_Init, Sc_Send (2 + ?n)])"
      using good n b c hello_size(2) [OF n(2)] by (simp add: connector_handler_def Let_def buffer_write_def socks_consts)
    then show ?thesis using True c n
      by (simp add: sc_handle_def step_ok_def sc_ok_def sc_resources_def live_events_def sy_failed_def sc_phase_def sending_def hello_message_def)
  qed
next
  case False
  then show ?thesis using assms by (simp add: step_ok_def)
qed

lemma connection_ok:
  assumes "sc_ok auth dest s" "\<not> sy_failed s"
  shows "step_ok auth dest True (sc_step (Ev_Connection e) s)"
proof (cases "sy_con s")
  case True
  have "\<exists>ev. ev \<noteq> BSOCKSCLIENT_EVENT_UP \<and> connection_handler e (sy_client s) = (sy_client s, [Sc_Handler ev])"
    by (simp add: connection_handler_def report_error_def)
  then obtain ev where ev: "ev \<noteq> BSOCKSCLIENT_EVENT_UP" "connection_handler e (sy_client s) = (sy_client s, [Sc_Handler ev])" by blast
  have "(sy_buffer s \<or> sc_buffer (sy_client s) \<noteq> None) = sy_buffer s" using assms(1) by (auto simp: sc_ok_def sc_resources_def)
  then have "sc_handle (sy_client s, [Sc_Handler ev]) s = sc_perform [Sc_Handler ev] s" unfolding sc_handle_def by simp
  moreover have "step_ok auth dest True (sc_perform [Sc_Handler ev] s)"
    using assms ev(1) by (intro report_ok) (auto simp: sc_ok_def)
  ultimately show ?thesis using True ev(2) by simp
next
  case False
  then show ?thesis using assms by (simp add: step_ok_def)
qed

lemma start_receive_eq:
  "start_receive dest n c = (c\<lparr>sc_recv_dest := dest, sc_recv_len := 0, sc_recv_total := n\<rparr>, [Sc_Recv dest n])"
  by (simp add: start_receive_def do_receive_def)

lemma receive_reply:
  assumes c: "in_control auth dest c s" and sz: "\<not> is_overflow sz" "unat (bvalue sz) = m" "0 < n" "n \<le> m"
    and st: "st \<notin> {STATE_CONNECTING, STATE_UP}"
    and ph: "\<And>b. length b = m \<Longrightarrow> sc_phase auth dest (s\<lparr>sy_client := c\<lparr>sc_buffer := Some b, sc_recv_dest := 0, sc_recv_len := 0,
        sc_recv_total := n, sc_state := st\<rparr>, sy_buffer := True, sy_recv := Some (0, n)\<rparr>)"
  shows "step_ok auth dest (alloc = None) (sc_handle
    (case reserve_buffer alloc sz c of None \<Rightarrow> (c, report_error BSOCKSCLIENT_EVENT_ERROR)
     | Some c \<Rightarrow> (case start_receive 0 n c of (c, calls) \<Rightarrow> (c\<lparr>sc_state := st\<rparr>, calls))) s)"
proof (cases "alloc = None")
  case True
  then show ?thesis using reserve_buffer_cases(1) [OF sz(1,2) True] control_fail [OF c, of True] by simp
next
  case False
  obtain b where b: "reserve_buffer alloc sz c = Some (c\<lparr>sc_buffer := Some b\<rparr>)" "length b = m"
    using reserve_buffer_cases(2) [OF sz(1,2) False] by blast
  have "step_ok auth dest (alloc = None) (sc_handle (c\<lparr>sc_buffer := Some b, sc_recv_dest := 0, sc_recv_len := 0,
      sc_recv_total := n, sc_state := st\<rparr>, [Sc_Recv 0 n]) s)"
    using c sz st b(2) ph [OF b(2)] by (intro control_recv) (auto simp: in_control_def)
  then show ?thesis using b by (simp add: start_receive_eq)
qed

lemma sent_ok:
  assumes "sc_ok auth dest s" "\<not> sy_failed s"
  shows "step_ok auth dest (alloc = None) (sc_step (Ev_Sent alloc) s)"
proof (cases "sy_send s")
  case None
  then show ?thesis using assms by (simp add: step_ok_def)
next
  case (Some n)
  let ?c = "sy_client s"
  let ?s = "s\<lparr>sy_send := None, sy_sent := sy_sent s @ [take n (sy_buf s)]\<rparr>"
  have ph: "sc_phase auth dest s" and res: "sc_resources s" and ev: "sy_events s = live_events (sc_state ?c)"
    and ad: "sc_auth_info ?c = auth" "sc_dest_addr ?c = dest" using assms by (auto simp: sc_ok_def)
  have st: "sc_state ?c \<in> {STATE_SENDING_HELLO, STATE_SENDING_PASSWORD, STATE_SENDING_REQUEST}" and r: "sy_recv s = None"
    using ph Some by (auto simp: sc_phase_def receiving_def sending_def split: socks_state.splits)
  have ic: "in_control auth dest ?c ?s" using res ev ad st r by (auto simp: in_control_def sc_resources_def live_events_def)
  have sz: "unat (bvalue (bsize_fromsize 2 :: 64 bsize_t)) = 2"
    "\<not> is_overflow (bsize_add (bsize_fromsize 4) (bsize_max (bsize_fromsize 6) (bsize_fromsize 18)) :: 64 bsize_t)"
    "unat (bvalue (bsize_add (bsize_fromsize 4) (bsize_max (bsize_fromsize 6) (bsize_fromsize 18)) :: 64 bsize_t)) = 22"
    by code_simp+
  have no: "\<not> is_overflow (bsize_fromsize 2 :: 64 bsize_t)" by (simp add: bsize_fromsize_def)
  have step: "sc_step (Ev_Sent alloc) s = sc_handle (send_handler_done alloc ?c) ?s" using Some by simp
  consider (hello) "sc_state ?c = STATE_SENDING_HELLO" | (pw) "sc_state ?c = STATE_SENDING_PASSWORD" | (req) "sc_state ?c = STATE_SENDING_REQUEST"
    using st by blast
  then show ?thesis
  proof cases
    case hello
    show ?thesis unfolding step send_handler_done_def Let_def hello socks_state.case
      using ph hello Some by (intro receive_reply [OF ic no sz(1)]) (auto simp: sc_phase_def receiving_def sending_def)
  next
    case pw
    show ?thesis unfolding step send_handler_done_def Let_def pw socks_state.case
      using ph pw Some by (intro receive_reply [OF ic no sz(1)]) (auto simp: sc_phase_def receiving_def sending_def)
  next
    case req
    show ?thesis unfolding step send_handler_done_def Let_def req socks_state.case
      using ph req Some by (intro receive_reply [OF ic sz(2,3)]) (auto simp: sc_phase_def receiving_def sending_def)
  qed
qed

text \<open>A receive that continues, or is complete.\<close>

lemma receiving_continues:
  assumes "receiving off n base s" "sy_recv s = Some (p, m)" "length data \<le> m" "data \<noteq> []"
  defines "c \<equiv> buffer_write p data (sy_client s)"
  defines "c' \<equiv> c\<lparr>sc_recv_len := sc_recv_len c + length data\<rparr>"
  shows "if length data < m
    then receiving off n base (s\<lparr>sy_got := sy_got s @ data, sy_client := c', sy_buffer := True,
           sy_recv := Some (off + sc_recv_len c', sc_recv_total c' - sc_recv_len c')\<rparr>) \<and> sc_recv_dest c' = off \<and> sc_recv_len c' < sc_recv_total c'
    else sc_recv_len c' = sc_recv_total c' \<and>
      (\<exists>x b. sc_buffer c' = Some b \<and> length b = length (sy_buf s) \<and> off + n \<le> length b \<and> get_at off n b = x \<and> length x = n \<and>
        sy_got s @ data = base @ x)"
proof -
  obtain x b where r: "sy_got s = base @ x" "length x < n" "sc_buffer (sy_client s) = Some b" "off + n \<le> length b" "get_at off (length x) b = x"
    "sc_recv_dest (sy_client s) = off" "sc_recv_len (sy_client s) = length x" "sc_recv_total (sy_client s) = n"
    "p = off + length x" "m = n - length x" "sy_send s = None"
    using assms(1,2) by (auto simp: receiving_def)
  have g: "get_at off (length x + length data) (put_at p data b) = x @ data"
    using r assms(3) by (simp add: get_at_append_split get_put_before)
  have l: "length (put_at p data b) = length b" using r assms(3) by simp
  have c': "sc_buffer c' = Some (put_at p data b)" "sc_recv_len c' = length x + length data" "sc_recv_total c' = n" "sc_recv_dest c' = off"
    using r by (simp_all add: c'_def c_def buffer_write_def)
  show ?thesis
  proof (cases "length data < m")
    case True
    then have "receiving off n base (s\<lparr>sy_got := sy_got s @ data, sy_client := c', sy_buffer := True,
        sy_recv := Some (off + sc_recv_len c', sc_recv_total c' - sc_recv_len c')\<rparr>)"
      unfolding receiving_def using r(1,2,4,10,11) c' g l by (intro exI [of _ "x @ data"] exI [of _ "put_at p data b"]) simp
    then show ?thesis using True c' r(10) by simp
  next
    case False
    then have "length x + length data = n" using assms(3) r(2,10) by simp
    then show ?thesis using False c' g l r(1,3,4) by auto
  qed
qed

lemma two_bytes: "length x = 2 \<Longrightarrow> x = [x ! 0, x ! 1]"
  by (cases x; cases "tl x") auto

lemma get_at_nth: "get_at off n b = x \<Longrightarrow> i < n \<Longrightarrow> off + n \<le> length b \<Longrightarrow> b ! (off + i) = x ! i"
  by (auto simp: get_at_def)

lemma auth_pick_ok: "auth_ok auth \<Longrightarrow> auth_pick auth m = Some a \<Longrightarrow> ai_auth_type a = 0 \<or> ai_auth_type a = 2"
  by (auto simp: auth_pick_def auth_ok_def find_Some_iff)

lemma hello_complete:
  assumes c: "in_control auth dest c s" and ok: "auth_ok auth" "dest_ok dest"
    and got: "length (sy_got s) = 2" "buf ! 0 = sy_got s ! 0" "buf ! 1 = sy_got s ! 1" "sy_sent s = [hello_message auth]"
  shows "step_ok auth dest (alloc = None) (sc_handle (received_hello alloc buf c) s)"
proof -
  have g: "sy_got s = [buf ! 0, buf ! 1]" using two_bytes [OF got(1)] got(2,3) by simp
  have ai: "sc_auth_info c = auth" using c by (simp add: in_control_def)
  consider (bad) "buf ! 0 \<noteq> 5 \<or> auth_pick auth (buf ! 1) = None"
    | (none) a where "buf ! 0 = 5" "auth_pick auth (buf ! 1) = Some a" "ai_auth_type a = 0"
    | (badpw) a where "buf ! 0 = 5" "auth_pick auth (buf ! 1) = Some a" "ai_auth_type a = 2" "\<not> password_ok a"
    | (pw) a where "buf ! 0 = 5" "auth_pick auth (buf ! 1) = Some a" "ai_auth_type a = 2" "password_ok a"
    using auth_pick_ok [OF ok(1)] by (cases "auth_pick auth (buf ! 1)") blast+
  then show ?thesis
  proof cases
    case bad
    then have "received_hello alloc buf c = (c, report_error BSOCKSCLIENT_EVENT_ERROR)"
      using ai by (auto simp: received_hello_def Let_def socks_consts auth_pick_def)
    moreover have "socks_verdict auth (sy_got s) = Bad" using bad by (auto simp: socks_verdict_def g)
    ultimately show ?thesis using control_fail [OF c] by simp
  next
    case none
    have "authenticated auth (sy_got s) (sy_sent s)" using none got(4) by (auto simp: authenticated_def g)
    moreover have "received_hello alloc buf c = auth_finished alloc c"
      using none ai by (simp add: received_hello_def socks_consts auth_pick_def)
    ultimately show ?thesis using auth_finished_ok [OF c ok(2)] by simp
  next
    case badpw
    then have "received_hello alloc buf c = (c, report_error BSOCKSCLIENT_EVENT_ERROR)"
      using ai by (auto simp: received_hello_def Let_def socks_consts auth_pick_def password_ok_def)
    moreover have "socks_verdict auth (sy_got s) = Bad" using badpw by (simp add: socks_verdict_def g)
    ultimately show ?thesis using control_fail [OF c] by simp
  next
    case pw
    let ?n = "length (password_message a)"
    let ?sz = "bsize_fromsize (1 + 1 + of_nat (length (ai_username a)) + 1 + of_nat (length (ai_password a))) :: 64 bsize_t"
    have "of_nat ?n = bvalue ?sz" by (simp add: bsize_fromsize_def password_message_def)
    moreover have "unat (of_nat ?n :: 64 word) = ?n"
      using pw(4) by (intro unat_of_nat_small) (simp add: password_ok_def password_message_def)
    ultimately have sz: "unat (bvalue ?sz) = ?n" by simp
    have no: "\<not> is_overflow ?sz" by (simp add: bsize_fromsize_def)
    have eq: "received_hello alloc buf c =
        (case reserve_buffer alloc ?sz c of None \<Rightarrow> (c, report_error BSOCKSCLIENT_EVENT_ERROR)
         | Some c \<Rightarrow> ((buffer_write 0 (password_message a) c)\<lparr>sc_state := STATE_SENDING_PASSWORD\<rparr>, [Sc_Send (unat (bvalue ?sz))]))"
      using pw ai by (simp add: received_hello_def Let_def socks_consts auth_pick_def password_ok_def password_message_def split: option.split)
    show ?thesis
    proof (cases "alloc = None")
      case True
      then show ?thesis using eq reserve_buffer_cases(1) [OF no sz] control_fail [OF c, of True] by simp
    next
      case False
      obtain b where "reserve_buffer alloc ?sz c = Some (c\<lparr>sc_buffer := Some b\<rparr>)" "length b = ?n"
        using reserve_buffer_cases(2) [OF no sz False] by blast
      then have e: "received_hello alloc buf c =
          (c\<lparr>sc_buffer := Some (password_message a), sc_state := STATE_SENDING_PASSWORD\<rparr>, [Sc_Send ?n])"
        unfolding eq using sz by (simp add: buffer_write_def put_whole)
      show ?thesis unfolding e using c pw got(4)
        by (intro control_send) (auto simp: sc_phase_def sending_def g password_message_def in_control_def)
    qed
  qed
qed

lemma reply_header_complete:
  assumes c: "in_control auth dest c s" and a: "authenticated auth b msgs" "sy_sent s = msgs @ [request_message dest]"
    and got: "sy_got s = b @ h" "length h = 4" "sc_buffer c = Some buf" "length buf = 22" "get_at 0 4 buf = h"
  shows "step_ok auth dest fault (sc_handle (received_reply_header buf c) s)"
proof -
  have n: "buf ! 0 = h ! 0" "buf ! 1 = h ! 1" "buf ! 3 = h ! 3" using get_at_nth [OF got(5)] got(4) by force+
  have v: "socks_verdict auth (sy_got s) = reply_verdict h" using authenticated_reply [OF a(1)] got(1) by simp
  show ?thesis
  proof (cases "reply_header_ok h")
    case True
    then have "received_reply_header buf c = (c\<lparr>sc_recv_dest := 4, sc_recv_len := 0, sc_recv_total := reply_length h,
        sc_state := STATE_RECEIVED_REPLY_HEADER\<rparr>, [Sc_Recv 4 (reply_length h)])"
      using n by (auto simp: received_reply_header_def Let_def socks_consts start_receive_eq reply_header_ok_def reply_length_def)
    moreover have "0 < reply_length h" "4 + reply_length h \<le> length buf" using got(4) by (auto simp: reply_length_def)
    moreover have r: "receiving 4 (reply_length h) (b @ h) (s\<lparr>sy_client := c\<lparr>sc_recv_dest := 4, sc_recv_len := 0, sc_recv_total := reply_length h,
        sc_state := STATE_RECEIVED_REPLY_HEADER\<rparr>, sy_buffer := True, sy_recv := Some (4, reply_length h)\<rparr>)"
      using got(1,3) c calculation(2,3) by (simp add: receiving_def in_control_def)
    then have "sc_phase auth dest (s\<lparr>sy_client := c\<lparr>sc_recv_dest := 4, sc_recv_len := 0, sc_recv_total := reply_length h,
        sc_state := STATE_RECEIVED_REPLY_HEADER\<rparr>, sy_buffer := True, sy_recv := Some (4, reply_length h)\<rparr>)"
      using a True by (simp add: sc_phase_def) blast
    ultimately show ?thesis
      using c got(3) by (auto simp: in_control_def intro!: control_recv)
  next
    case False
    then have "received_reply_header buf c = (c, report_error BSOCKSCLIENT_EVENT_ERROR)"
      using n got(2) by (auto simp: received_reply_header_def Let_def socks_consts reply_header_ok_def)
    moreover have "reply_verdict h = Bad" using False got(2) by (auto simp: reply_header_ok_def reply_verdict_def)
    ultimately show ?thesis using control_fail [OF c] v by simp
  qed
qed

text \<open>The phases in which a receive is outstanding: where it goes, its length, the bytes before it.\<close>

lemma phase_receiving:
  assumes "sc_phase auth dest s" "sy_recv s \<noteq> None"
  obtains (hello) "sc_state (sy_client s) = STATE_SENT_HELLO" "receiving 0 2 [] s" "sy_sent s = [hello_message auth]"
    | (password) m a where "sc_state (sy_client s) = STATE_SENT_PASSWORD" "receiving 0 2 [5, m] s"
        "auth_pick auth m = Some a" "ai_auth_type a \<noteq> 0" "password_ok a" "sy_sent s = [hello_message auth, password_message a]"
    | (request) b msgs where "sc_state (sy_client s) = STATE_SENT_REQUEST" "receiving 0 4 b s" "authenticated auth b msgs"
        "length (sy_buf s) = 22" "sy_sent s = msgs @ [request_message dest]"
    | (reply) b msgs h where "sc_state (sy_client s) = STATE_RECEIVED_REPLY_HEADER" "receiving 4 (reply_length h) (b @ h) s"
        "authenticated auth b msgs" "reply_header_ok h" "sy_sent s = msgs @ [request_message dest]"
  using assms by (cases "sc_state (sy_client s)") (auto simp: sc_phase_def sending_def)

lemma received_partly:
  assumes c: "in_control auth dest c s0" and st: "sc_state c = sc_state (sy_client s)" and ph: "sc_phase auth dest s"
    and r: "sy_recv s = Some (p, m)" and sent: "sy_sent s0 = sy_sent s" and buf: "\<exists>b. sc_buffer c = Some b \<and> length b = length (sy_buf s)"
    and len: "sc_recv_len c < sc_recv_total c"
    and all: "\<And>off n base. receiving off n base s \<Longrightarrow> receiving off n base (s0\<lparr>sy_client := c, sy_buffer := True,
        sy_recv := Some (sc_recv_dest c + sc_recv_len c, sc_recv_total c - sc_recv_len c)\<rparr>)"
  shows "step_ok auth dest fault (sc_handle (do_receive c) s0)"
proof -
  let ?s = "s0\<lparr>sy_client := c, sy_buffer := True, sy_recv := Some (sc_recv_dest c + sc_recv_len c, sc_recv_total c - sc_recv_len c)\<rparr>"
  obtain b where b: "sc_buffer c = Some b" "length b = length (sy_buf s)" using buf by blast
  have "sy_recv s \<noteq> None" using r by simp
  with ph obtain off n base where "receiving off n base s" by (cases rule: phase_receiving) blast+
  then have fit: "sc_recv_dest c + sc_recv_len c + (sc_recv_total c - sc_recv_len c) \<le> length b"
    using all b by (force simp: receiving_def)
  have "sc_phase auth dest ?s"
    using ph \<open>sy_recv s \<noteq> None\<close>
  proof (cases rule: phase_receiving)
    case hello
    then show ?thesis using st sent all by (simp add: sc_phase_def)
  next
    case (password m a)
    then show ?thesis using st sent all by (simp add: sc_phase_def) blast
  next
    case (request b' msgs)
    then show ?thesis using st sent all b by (simp add: sc_phase_def) blast
  next
    case (reply b' msgs h)
    then show ?thesis using st sent all by (simp add: sc_phase_def) blast
  qed
  then show ?thesis unfolding do_receive_def using c b(1) fit len by (intro control_recv [OF c]) (auto simp: in_control_def)
qed

lemma up_ok:
  assumes c: "in_control auth dest c s" and buf: "sc_buffer c \<noteq> None"
    and v: "socks_verdict auth (sy_got s) = Good" and sent: "sy_sent s = socks_messages auth dest (sy_got s)"
  shows "step_ok auth dest fault (sc_handle (c\<lparr>sc_buffer := None, sc_state := STATE_UP\<rparr>,
    [Sc_Buffer_Free, Sc_Control_Free, Sc_Up_Init, Sc_Handler BSOCKSCLIENT_EVENT_UP]) s)"
  using assms by (auto simp: step_ok_def sc_handle_def in_control_def sc_ok_def sc_resources_def sy_failed_def live_events_def sc_phase_def)

lemma password_complete:
  assumes c: "in_control auth dest c s" and "dest_ok dest" and st: "sc_state c = STATE_SENT_PASSWORD"
    and a: "auth_pick auth m = Some a" "ai_auth_type a \<noteq> 0" "password_ok a" "sy_sent s = [hello_message auth, password_message a]"
    and b: "sc_buffer c = Some b" "2 \<le> length b" "get_at 0 2 b = x" "length x = 2" "sy_got s = [5, m] @ x"
  shows "step_ok auth dest (alloc = None) (sc_handle (recv_complete alloc c) s)"
proof -
  have x: "b ! 0 = x ! 0" "b ! 1 = x ! 1" "x = [x ! 0, x ! 1]" using get_at_nth [OF b(3)] b(2) two_bytes [OF b(4)] by force+
  have eq: "recv_complete alloc c =
      (if x ! 0 \<noteq> 1 \<or> x ! 1 \<noteq> 0 then (c, report_error BSOCKSCLIENT_EVENT_ERROR) else auth_finished alloc c)"
    using st b(1) x by (simp add: recv_complete_def Let_def)
  show ?thesis
  proof (cases "x ! 0 \<noteq> 1 \<or> x ! 1 \<noteq> 0")
    case True
    then have "socks_verdict auth (sy_got s) = Bad" using b(4,5) a(1-3) by (simp add: socks_verdict_def password_verdict_def)
    then show ?thesis using True eq control_fail [OF c] by simp
  next
    case False
    then have "x = [1, 0]" using x(3) by simp
    then have "authenticated auth (sy_got s) (sy_sent s)" using b(5) a by (auto simp: authenticated_def)
    then show ?thesis using False eq auth_finished_ok [OF c assms(2)] by simp
  qed
qed

lemma received_whole:
  assumes ic: "in_control auth dest c s0" and ok: "auth_ok auth" "dest_ok dest" and st: "sc_state c = sc_state (sy_client s)"
    and ph: "sc_phase auth dest s" "sy_recv s \<noteq> None" and sent: "sy_sent s0 = sy_sent s"
    and all: "\<And>off n base. receiving off n base s \<Longrightarrow> \<exists>x b. sc_buffer c = Some b \<and> length b = length (sy_buf s) \<and> off + n \<le> length b \<and>
        get_at off n b = x \<and> length x = n \<and> sy_got s0 = base @ x"
  shows "step_ok auth dest (alloc = None) (sc_handle (recv_complete alloc c) s0)"
  using ph
proof (cases rule: phase_receiving)
  case hello
  obtain b x where b: "sc_buffer c = Some b" "2 \<le> length b" "get_at 0 2 b = x" "length x = 2" "sy_got s0 = x"
    using all [OF hello(2)] by auto
  have "recv_complete alloc c = received_hello alloc b c" using hello(1) st b(1) by (simp add: recv_complete_def Let_def)
  moreover have "b ! 0 = sy_got s0 ! 0" "b ! 1 = sy_got s0 ! 1" using get_at_nth [OF b(3)] b(2,5) by force+
  ultimately show ?thesis using hello_complete [OF ic ok] b(4,5) hello(3) sent by simp
next
  case (password m a)
  then show ?thesis using all [OF password(2)] password_complete [OF ic ok(2)] st sent by auto
next
  case (request b' msgs)
  obtain b h where b: "sc_buffer c = Some b" "length b = 22" "get_at 0 4 b = h" "length h = 4" "sy_got s0 = b' @ h"
    using all [OF request(2)] request(4) by auto
  have "recv_complete alloc c = received_reply_header b c" using request(1) st b(1) by (simp add: recv_complete_def Let_def)
  then show ?thesis using reply_header_complete [OF ic request(3) _ b(5,4,1,2,3)] request(5) sent by simp
next
  case (reply b' msgs h)
  obtain x b where x: "sc_buffer c = Some b" "length x = reply_length h" "sy_got s0 = b' @ (h @ x)" using all [OF reply(2)] by auto
  have "recv_complete alloc c = (c\<lparr>sc_buffer := None, sc_state := STATE_UP\<rparr>,
      [Sc_Buffer_Free, Sc_Control_Free, Sc_Up_Init, Sc_Handler BSOCKSCLIENT_EVENT_UP])"
    using reply(1) st by (simp add: recv_complete_def Let_def)
  moreover have "socks_verdict auth (sy_got s0) = Good" "sy_sent s0 = socks_messages auth dest (sy_got s0)"
    using authenticated_reply [OF reply(3), of "h @ x" dest] reply_verdict_header [OF reply(4), of x] x reply(5) sent by simp_all
  ultimately show ?thesis using up_ok [OF ic] x(1) by auto
qed

lemma sc_received_ok:
  assumes "sc_ok auth dest s" "\<not> sy_failed s" "auth_ok auth" "dest_ok dest"
  shows "step_ok auth dest (alloc = None) (sc_step (Ev_Received data alloc) s)"
proof (cases "\<exists>p m. sy_recv s = Some (p, m) \<and> data \<noteq> [] \<and> length data \<le> m")
  case True
  then obtain p m where r: "sy_recv s = Some (p, m)" "data \<noteq> []" "length data \<le> m" by blast
  let ?c = "buffer_write p data (sy_client s)"
  let ?s = "s\<lparr>sy_recv := None, sy_got := sy_got s @ data\<rparr>"
  define c where "c = ?c\<lparr>sc_recv_len := sc_recv_len ?c + length data\<rparr>"
  have ph: "sc_phase auth dest s" and res: "sc_resources s" and ev: "sy_events s = live_events (sc_state (sy_client s))"
    and ad: "sc_auth_info (sy_client s) = auth" "sc_dest_addr (sy_client s) = dest" using assms(1,2) by (auto simp: sc_ok_def)
  have st: "sc_state c = sc_state (sy_client s)" "sc_auth_info c = auth" "sc_dest_addr c = dest"
    "sc_recv_dest c = sc_recv_dest (sy_client s)" using ad by (simp_all add: c_def buffer_write_def)
  have rn: "sy_recv s \<noteq> None" using r by simp
  note go = receiving_continues [OF _ r(1,3,2), folded c_def]
  obtain off n base where rc: "receiving off n base s" using ph rn by (cases rule: phase_receiving) blast+
  then have buf: "\<exists>b. sc_buffer c = Some b \<and> length b = length (sy_buf s)" and snd: "sy_send s = None"
      and bs: "sc_buffer (sy_client s) \<noteq> None"
    using r by (auto simp: receiving_def c_def buffer_write_def)
  have ic: "in_control auth dest c ?s"
    using res ev st snd buf bs by (cases rule: phase_receiving [OF ph rn]) (auto simp: in_control_def sc_resources_def live_events_def)
  have step: "sc_step (Ev_Received data alloc) s = sc_handle (recv_handler_done alloc (length data) ?c) ?s"
    using r by simp
  show ?thesis
  proof (cases "length data < m")
    case True
    then have len: "sc_recv_len c < sc_recv_total c" using go [OF rc] by simp
    have "recv_handler_done alloc (length data) ?c = do_receive c"
      using len by (simp add: recv_handler_done_def Let_def c_def)
    moreover have "step_ok auth dest (alloc = None) (sc_handle (do_receive c) ?s)"
    proof (rule received_partly [OF ic st(1) ph r(1) _ buf len])
      fix off n base
      assume "receiving off n base s"
      then show "receiving off n base (?s\<lparr>sy_client := c, sy_buffer := True,
          sy_recv := Some (sc_recv_dest c + sc_recv_len c, sc_recv_total c - sc_recv_len c)\<rparr>)"
        using go [of off n base] True by simp
    qed simp
    ultimately show ?thesis using step by simp
  next
    case False
    have "recv_handler_done alloc (length data) ?c = recv_complete alloc c"
      using go [OF rc] False by (simp add: recv_handler_done_def Let_def c_def)
    moreover have "step_ok auth dest (alloc = None) (sc_handle (recv_complete alloc c) ?s)"
    proof (rule received_whole [OF ic assms(3,4) st(1) ph rn])
      fix off n base
      assume "receiving off n base s"
      then show "\<exists>x b. sc_buffer c = Some b \<and> length b = length (sy_buf s) \<and> off + n \<le> length b \<and>
          get_at off n b = x \<and> length x = n \<and> sy_got ?s = base @ x"
        using go [of off n base] False by simp
    qed simp
    ultimately show ?thesis using step by simp
  qed
qed (use assms in \<open>auto simp: step_ok_def split: option.splits\<close>)

section \<open>Runs\<close>

lemma step_ok_mono: "step_ok auth dest f r \<Longrightarrow> (f \<Longrightarrow> g) \<Longrightarrow> step_ok auth dest g r"
  by (auto simp: step_ok_def split: option.splits)

lemma sc_step_ok:
  assumes "sc_ok auth dest s" "\<not> sy_failed s" "auth_ok auth" "dest_ok dest"
  shows "step_ok auth dest (faulty e \<or> \<not> methods_ok auth) (sc_step e s)"
proof (cases e)
  case (Ev_Connected is_error con_init alloc)
  show ?thesis unfolding Ev_Connected by (rule step_ok_mono [OF connected_ok [OF assms(1,2)]]) (auto simp: faulty_def)
next
  case (Ev_Sent alloc)
  show ?thesis unfolding Ev_Sent by (rule step_ok_mono [OF sent_ok [OF assms(1,2)]]) (auto simp: faulty_def)
next
  case (Ev_Received data alloc)
  show ?thesis unfolding Ev_Received by (rule step_ok_mono [OF sc_received_ok [OF assms]]) (auto simp: faulty_def)
next
  case (Ev_Connection ev)
  show ?thesis unfolding Ev_Connection by (rule step_ok_mono [OF connection_ok [OF assms(1,2)]]) (auto simp: faulty_def)
qed

definition rejected :: "BSocksClient_auth_info list \<Rightarrow> sc_sys \<Rightarrow> bool" where
  "rejected auth s \<longleftrightarrow> socks_verdict auth (sy_got s) = Bad \<and> sy_events s = [BSOCKSCLIENT_EVENT_ERROR]"

lemma sc_run_ok:
  assumes "sc_ok auth dest s" "auth_ok auth" "dest_ok dest"
  shows "\<exists>s'. sc_run es s = Some s' \<and> sc_ok auth dest s' \<and>
    (methods_ok auth \<and> (\<forall>e \<in> set es. \<not> faulty e) \<and> (sy_failed s \<longrightarrow> rejected auth s) \<longrightarrow> sy_failed s' \<longrightarrow> rejected auth s')"
  using assms(1)
proof (induction es arbitrary: s)
  case (Cons e es)
  show ?case
  proof (cases "sy_failed s")
    case False
    then obtain s1 where s1: "sc_step e s = Some s1" "sc_ok auth dest s1"
      "sy_failed s1 \<Longrightarrow> faulty e \<or> \<not> methods_ok auth \<or> rejected auth s1"
      using sc_step_ok [OF Cons.prems False assms(2,3), of e] by (auto simp: step_ok_def rejected_def split: option.splits)
    then show ?thesis using Cons.IH [OF s1(2)] False by auto
  qed (use Cons.prems in auto)
qed simp

lemma sc_start_ok: "BSocksClient_Init True auth dest = Some c \<Longrightarrow> sc_ok auth dest (sc_start c)"
  by (auto simp: BSocksClient_Init_def sc_start_def sc_ok_def sc_resources_def sy_failed_def live_events_def sc_phase_def)

lemma receiving_need: "receiving off n base s \<Longrightarrow> \<exists>x. sy_got s = base @ x \<and> length x < n \<and> sy_recv s = Some (off + length x, n - length x) \<and> sy_send s = None"
  by (auto simp: receiving_def)

lemma reply_verdict_short: "length x < 4 \<Longrightarrow> reply_verdict x = Need (4 - length x)"
  by (simp add: reply_verdict_def)

lemma phase_waits:
  assumes "sc_phase auth dest s" "sc_state (sy_client s) \<notin> {STATE_CONNECTING, STATE_UP}"
  shows "\<exists>n. socks_verdict auth (sy_got s) = Need n \<and> (\<forall>p m. sy_recv s = Some (p, m) \<longrightarrow> m = n) \<and> (sy_send s = None) = (sy_recv s \<noteq> None) \<and>
    sy_sent s @ (case sy_send s of None \<Rightarrow> [] | Some n \<Rightarrow> [take n (sy_buf s)]) = socks_messages auth dest (sy_got s)"
proof (cases "sy_recv s = None")
  case False
  with assms(1) show ?thesis
  proof (cases rule: phase_receiving)
    case hello
    then show ?thesis using receiving_need [OF hello(2)] hello_verdict [of _ auth dest] by auto
  next
    case (password m a)
    then show ?thesis using receiving_need [OF password(2)] password_phase [OF password(3-5), of _ dest] by auto
  next
    case (request b msgs)
    then show ?thesis
      using receiving_need [OF request(2)] authenticated_reply [OF request(3), of _ dest] reply_verdict_short by auto
  next
    case (reply b msgs h)
    then show ?thesis
      using receiving_need [OF reply(2)] authenticated_reply [OF reply(3), of _ dest] reply_verdict_header [OF reply(4)] by fastforce
  qed
next
  case True
  with assms(1,2) consider (hello) "sending (hello_message auth) s" "sy_got s = []" "sy_sent s = []"
    | (password) m a where "auth_pick auth m = Some a" "ai_auth_type a \<noteq> 0" "password_ok a" "sending (password_message a) s"
        "sy_got s = [5, m]" "sy_sent s = [hello_message auth]"
    | (request) "authenticated auth (sy_got s) (sy_sent s)" "sending (request_message dest) s"
    by (cases "sc_state (sy_client s)") (auto simp: sc_phase_def receiving_def)
  then show ?thesis
  proof cases
    case hello
    then show ?thesis using hello_verdict [of "[]" auth dest] by (auto simp: sending_def)
  next
    case (password m a)
    then show ?thesis using password_phase [OF password(1-3), of "[]" dest] by (auto simp: sending_def)
  next
    case request
    then show ?thesis using authenticated_reply [OF request(1), of "[]" dest] reply_verdict_short [of "[]"] by (auto simp: sending_def)
  qed
qed

text \<open>
  C6: The SOCKS handshake is exact. However the server's bytes are split and however sends and
  receives interleave, as long as memory and connection do not fail the client sends just the
  messages of the dialogue, reports an error exactly when the bytes violate it and reports that
  it is up exactly when they complete it. While the dialogue goes on there is always either a
  send or a receive outstanding, and a receive asks for just the bytes missing until the next
  decision, so no byte behind the reply is taken from the connection.
\<close>

theorem sc_handshake_exact:
  assumes "BSocksClient_Init True auth dest = Some c" "auth_ok auth" "methods_ok auth" "dest_ok dest" "\<forall>e \<in> set es. \<not> faulty e"
  shows "\<exists>s. sc_run es (sc_start c) = Some s \<and>
    (case socks_verdict auth (sy_got s) of
       Bad \<Rightarrow> sy_events s = [BSOCKSCLIENT_EVENT_ERROR]
     | Good \<Rightarrow> sy_events s = [BSOCKSCLIENT_EVENT_UP] \<and> sy_up s \<and> sy_sent s = socks_messages auth dest (sy_got s)
     | Need n \<Rightarrow> sy_events s = [] \<and>
         (sy_con s \<longrightarrow> (sy_send s = None) = (sy_recv s \<noteq> None) \<and> (\<forall>p m. sy_recv s = Some (p, m) \<longrightarrow> m = n) \<and>
            sy_sent s @ (case sy_send s of None \<Rightarrow> [] | Some k \<Rightarrow> [take k (sy_buf s)]) = socks_messages auth dest (sy_got s)))"
proof -
  have "\<not> sy_failed (sc_start c)" by (simp add: sc_start_def sy_failed_def)
  then obtain s where s: "sc_run es (sc_start c) = Some s" "sc_ok auth dest s" "sy_failed s \<Longrightarrow> rejected auth s"
    using sc_run_ok [OF sc_start_ok [OF assms(1)] assms(2,4), of es] assms(3,5) by blast
  show ?thesis
  proof (cases "sy_failed s")
    case True
    then show ?thesis using s by (auto simp: rejected_def)
  next
    case False
    then have ev: "sy_events s = live_events (sc_state (sy_client s))" and ph: "sc_phase auth dest s" and res: "sc_resources s"
      using s(2) by (auto simp: sc_ok_def)
    consider "sc_state (sy_client s) = STATE_CONNECTING" | "sc_state (sy_client s) = STATE_UP" | "sc_state (sy_client s) \<notin> {STATE_CONNECTING, STATE_UP}"
      by blast
    then show ?thesis
    proof cases
      case 1
      then show ?thesis using s(1) ev ph res hello_verdict [of "[]" auth] by (simp add: sc_phase_def sc_resources_def live_events_def)
    next
      case 2
      then show ?thesis using s(1) ev ph res by (simp add: sc_phase_def sc_resources_def live_events_def)
    next
      case 3
      then show ?thesis using s(1) ev phase_waits [OF ph 3] by (auto simp: live_events_def)
    qed
  qed
qed

lemma sc_handshake_exact_witness:
  "\<exists>c s. BSocksClient_Init True [BSocksClient_auth_none] (BAddr_IPv4 1 2) = Some c \<and>
    sc_run [Ev_Connected False True (Some (\<lambda>_. 0)), Ev_Sent (Some (\<lambda>_. 0)), Ev_Received [5] (Some (\<lambda>_. 0)), Ev_Received [0] (Some (\<lambda>_. 0)),
      Ev_Sent (Some (\<lambda>_. 0)), Ev_Received [5, 0, 0, 1] (Some (\<lambda>_. 0)), Ev_Received [1, 2, 3, 4, 5, 6] (Some (\<lambda>_. 0))] (sc_start c) = Some s \<and>
    sy_events s = [BSOCKSCLIENT_EVENT_UP] \<and> sy_sent s = [[5, 1, 0], [5, 1, 0, 1, 1, 0, 0, 0, 2, 0]]"
proof -
  let ?a = "[BSocksClient_auth_none]" and ?d = "BAddr_IPv4 1 2"
  let ?es = "[Ev_Connected False True (Some (\<lambda>_. 0)), Ev_Sent (Some (\<lambda>_. 0)), Ev_Received [5] (Some (\<lambda>_. 0)), Ev_Received [0] (Some (\<lambda>_. 0)),
      Ev_Sent (Some (\<lambda>_. 0)), Ev_Received [5, 0, 0, 1] (Some (\<lambda>_. 0)), Ev_Received [1, 2, 3, 4, 5, 6] (Some (\<lambda>_. 0))]"
  define c where "c = the (BSocksClient_Init True ?a ?d)"
  have i: "BSocksClient_Init True ?a ?d = Some c" by (simp add: c_def BSocksClient_Init_def)
  have h: "auth_ok ?a" "methods_ok ?a" "dest_ok ?d" "\<forall>e \<in> set ?es. \<not> faulty e"
    by (simp_all add: auth_ok_def methods_ok_def dest_ok_def faulty_def BSocksClient_auth_none_def socks_consts)
  have got: "map_option sy_got (sc_run ?es (sc_start (the (BSocksClient_Init True ?a ?d)))) = Some [5, 0, 5, 0, 0, 1, 1, 2, 3, 4, 5, 6]"
    by code_simp
  have v: "socks_verdict ?a [5, 0, 5, 0, 0, 1, 1, 2, 3, 4, 5, 6] = Good" by code_simp
  have m: "socks_messages ?a ?d [5, 0, 5, 0, 0, 1, 1, 2, 3, 4, 5, 6] = [[5, 1, 0], [5, 1, 0, 1, 1, 0, 0, 0, 2, 0]]" by code_simp
  obtain s where s: "sc_run ?es (sc_start c) = Some s" using sc_handshake_exact [OF i h] by blast
  have g: "sy_got s = [5, 0, 5, 0, 0, 1, 1, 2, 3, 4, 5, 6]" using got unfolding c_def [symmetric] s by simp
  have "sy_events s = [BSOCKSCLIENT_EVENT_UP] \<and> sy_sent s = socks_messages ?a ?d (sy_got s)"
    using sc_handshake_exact [OF i h] unfolding s by (auto simp: g v)
  then show ?thesis using i s g m by (intro exI [of _ c] exI [of _ s]) (simp del: sc_run.simps)
qed

text \<open>
  Whatever fails, and at whatever moment, the client never calls a busy or missing
  interface, never reads or sends outside of its buffer, reports at most one error and nothing
  after it, reports that it is up only when the dialogue is complete, and freeing it releases
  its connector, connection, I/O objects and buffer, each exactly once.
\<close>

theorem sc_released:
  assumes "BSocksClient_Init True auth dest = Some c" "auth_ok auth" "dest_ok dest"
  shows "\<exists>s s'. sc_run es (sc_start c) = Some s \<and> sc_perform (BSocksClient_Free (sy_client s)) s = Some s' \<and>
    \<not> sy_connector s' \<and> \<not> sy_con s' \<and> \<not> sy_control s' \<and> \<not> sy_up s' \<and> \<not> sy_buffer s' \<and>
    (BSOCKSCLIENT_EVENT_UP \<in> set (sy_events s) \<longrightarrow> socks_verdict auth (sy_got s) = Good) \<and>
    length (filter (\<lambda>e. e \<noteq> BSOCKSCLIENT_EVENT_UP) (sy_events s)) \<le> 1 \<and> length (sy_events s) \<le> 2"
proof -
  obtain s where s: "sc_run es (sc_start c) = Some s" "sc_ok auth dest s"
    using sc_run_ok [OF sc_start_ok [OF assms(1)] assms(2,3), of es] by blast
  have res: "sc_resources s" using s(2) by (simp add: sc_ok_def)
  have "\<exists>s'. sc_perform (BSocksClient_Free (sy_client s)) s = Some s' \<and>
      \<not> sy_connector s' \<and> \<not> sy_con s' \<and> \<not> sy_control s' \<and> \<not> sy_up s' \<and> \<not> sy_buffer s'"
    using res by (auto simp: BSocksClient_Free_def sc_resources_def)
  moreover have "BSOCKSCLIENT_EVENT_UP \<in> set (sy_events s) \<longrightarrow> socks_verdict auth (sy_got s) = Good"
    "length (filter (\<lambda>e. e \<noteq> BSOCKSCLIENT_EVENT_UP) (sy_events s)) \<le> 1" "length (sy_events s) \<le> 2"
    using s(2) by (auto simp: sc_ok_def live_events_def split: if_splits)
  ultimately show ?thesis using s(1) by blast
qed

lemma sc_released_witness:
  "\<exists>c s s'. BSocksClient_Init True [] (BAddr_IPv4 1 2) = Some c \<and>
    sc_run [Ev_Connected False True None] (sc_start c) = Some s \<and> sc_perform (BSocksClient_Free (sy_client s)) s = Some s' \<and> \<not> sy_connector s'"
proof -
  define c where "c = the (BSocksClient_Init True [] (BAddr_IPv4 1 2))"
  have "BSocksClient_Init True [] (BAddr_IPv4 1 2) = Some c" by (simp add: c_def BSocksClient_Init_def)
  from sc_released [OF this, of "[Ev_Connected False True None]"] this show ?thesis
    by (simp add: auth_ok_def dest_ok_def del: sc_run.simps) blast
qed

end
