(* ===== verification/Tcp_Client.thy ===== *)
theory Tcp_Client
  imports Socks_Client
begin

text \<open>
  The TCP clients of \<^verbatim>\<open>tun2socks/tun2socks.c\<close>: every connection lwIP accepts is relayed to its own
  SOCKS client. A function returns the new client and the calls it makes, in order. The
  answers of lwIP are arguments: whether \<^verbatim>\<open>tcp_close\<close> succeeds, for every turn of the write
  loop the free send buffer and the result of \<^verbatim>\<open>tcp_write\<close>, and whether \<^verbatim>\<open>tcp_output\<close> succeeds. The
  reactor jobs that run inside of \<^verbatim>\<open>SYNC_COMMIT\<close> are the argument \<^verbatim>\<open>jobs\<close> of the lwIP callbacks; the
  \<^verbatim>\<open>dead_client\<close> variable is killed exactly when \<^verbatim>\<open>client_closed\<close> is set.
\<close>

section \<open>State\<close>

record tcp_client =
  tc_client_closed :: bool
  tc_buf :: bytes
  tc_buf_used :: nat
  tc_socks_up :: bool
  tc_socks_closed :: bool
  tc_recv_buf :: bytes
  tc_recv_buf_used :: int
  tc_recv_buf_sent :: int
  tc_recv_waiting :: bool
  tc_recv_tcp_pending :: int

datatype tcp_err = ERR_OK | ERR_MEM | ERR_ABRT | ERR_OTHER

record tcp_answers =
  an_close :: bool
  an_writes :: "(nat \<times> tcp_err) list"
  an_output :: bool

datatype tc_call =
    Tc_set_err bool
  | Tc_set_recv bool
  | Tc_set_sent bool
  | Tc_tcp_close bool
  | Tc_tcp_abort
  | Tc_tcp_recved nat
  | Tc_tcp_write bytes
  | Tc_tcp_output
  | Tc_pbuf_free
  | Tc_Socks_Free
  | Tc_Send nat
  | Tc_Recv nat
  | Tc_dealloc

section \<open>Closing\<close>

definition client_dealloc :: "tcp_client \<Rightarrow> tcp_client \<times> tc_call list" where
  "client_dealloc c = (c, [Tc_dealloc])"

definition callbacks_off :: "tc_call list" where
  "callbacks_off = [Tc_set_err False, Tc_set_recv False, Tc_set_sent False]"

function client_handle_freed_client :: "tcp_answers \<Rightarrow> tcp_client \<Rightarrow> tcp_client \<times> tc_call list"
and client_free_client :: "tcp_answers \<Rightarrow> tcp_client \<Rightarrow> tcp_client \<times> tc_call list"
and client_free_socks :: "tcp_answers \<Rightarrow> tcp_client \<Rightarrow> tcp_client \<times> tc_call list" where
  "client_handle_freed_client an c =
     (let c = c\<lparr>tc_client_closed := True\<rparr> in
      if tc_buf_used c > 0 \<and> \<not> tc_socks_closed c then (c, [])
      else if \<not> tc_socks_closed c then client_free_socks an c
      else client_dealloc c)"
| "client_free_client an c =
     (let (c, calls) = client_handle_freed_client an c in
      (c, callbacks_off @ [Tc_tcp_close (an_close an)] @ (if an_close an then [] else [Tc_tcp_abort]) @ calls))"
| "client_free_socks an c =
     (let off = (if tc_socks_up c \<and> \<not> tc_client_closed c then [Tc_set_recv False] else []);
          c = c\<lparr>tc_socks_closed := True\<rparr>;
          (c, calls) =
            (if tc_socks_up c \<and> (tc_recv_buf_used c \<ge> 0 \<or> tc_recv_tcp_pending c > 0) \<and> \<not> tc_client_closed c then (c, [])
             else if \<not> tc_client_closed c then client_free_client an c
             else client_dealloc c)
      in (c, off @ [Tc_Socks_Free] @ calls))"
  by pat_completeness auto
termination
  by (relation "measure (\<lambda>x. case x of Inl (_, c) \<Rightarrow> (if tc_socks_closed c then 1 else 4)
        | Inr (Inl (_, c)) \<Rightarrow> (if tc_socks_closed c then 2 else 5) | Inr (Inr _) \<Rightarrow> (3::nat))") auto

declare client_handle_freed_client.simps [simp del] client_free_client.simps [simp del] client_free_socks.simps [simp del]

definition client_abort_client :: "tcp_answers \<Rightarrow> tcp_client \<Rightarrow> tcp_client \<times> tc_call list" where
  "client_abort_client an c =
     (let (c, calls) = client_handle_freed_client an c in (c, callbacks_off @ [Tc_tcp_abort] @ calls))"

definition client_murder :: "tcp_client \<Rightarrow> tcp_client \<times> tc_call list" where
  "client_murder c =
     (let (c, calls1) = (if \<not> tc_client_closed c then (c\<lparr>tc_client_closed := True\<rparr>, callbacks_off @ [Tc_tcp_abort]) else (c, []));
          (c, calls2) = (if \<not> tc_socks_closed c then (c\<lparr>tc_socks_closed := True\<rparr>, [Tc_Socks_Free]) else (c, []));
          (c, calls3) = client_dealloc c
      in (c, calls1 @ calls2 @ calls3))"

section \<open>From the client to SOCKS\<close>

definition client_send_to_socks :: "tcp_client \<Rightarrow> tc_call list" where
  "client_send_to_socks c = [Tc_Send (tc_buf_used c)]"

definition client_socks_send_handler_done :: "tcp_answers \<Rightarrow> nat \<Rightarrow> tcp_client \<Rightarrow> tcp_client \<times> tc_call list" where
  "client_socks_send_handler_done an data_len c =
     (let rest = get_at data_len (tc_buf_used c - data_len) (tc_buf c);
          c = c\<lparr>tc_buf := put_at 0 rest (tc_buf c), tc_buf_used := tc_buf_used c - data_len\<rparr>;
          conf = (if \<not> tc_client_closed c then [Tc_tcp_recved data_len] else [])
      in if tc_buf_used c > 0 then (c, conf @ [Tc_Send (tc_buf_used c)])
      else if tc_client_closed c then let (c, calls) = client_free_socks an c in (c, conf @ calls)
      else (c, conf))"

section \<open>From SOCKS to the client\<close>

definition client_socks_recv_initiate :: "tcp_client \<Rightarrow> tc_call list" where
  "client_socks_recv_initiate c = [Tc_Recv (length (tc_recv_buf c))]"

text \<open>The write loop; the flag says that \<^verbatim>\<open>tcp_write\<close> failed with another error than \<^verbatim>\<open>ERR_MEM\<close>.\<close>

fun send_out_loop :: "(nat \<times> tcp_err) list \<Rightarrow> tcp_client \<Rightarrow> tcp_client \<times> tc_call list \<times> bool" where
  "send_out_loop [] c = (c, [], False)"
| "send_out_loop ((sndbuf, err) # an) c =
     (let to_write = bmin (tc_recv_buf_used c - tc_recv_buf_sent c) (int sndbuf) in
      if to_write = 0 then (c, [], False)
      else if err \<noteq> ERR_OK then (c, [], err \<noteq> ERR_MEM)
      else
        let w = Tc_tcp_write (get_at (nat (tc_recv_buf_sent c)) (nat to_write) (tc_recv_buf c));
            c = c\<lparr>tc_recv_buf_sent := tc_recv_buf_sent c + to_write, tc_recv_tcp_pending := tc_recv_tcp_pending c + to_write\<rparr>
        in if tc_recv_buf_sent c < tc_recv_buf_used c
           then let (c, calls, failed) = send_out_loop an c in (c, w # calls, failed)
           else (c, [w], False))"

text \<open>The flag is the return value -1.\<close>

definition client_socks_recv_send_out :: "tcp_answers \<Rightarrow> tcp_client \<Rightarrow> tcp_client \<times> tc_call list \<times> bool" where
  "client_socks_recv_send_out an c =
     (let (c, writes, failed) = send_out_loop (an_writes an) c in
      if failed then let (c, calls) = client_abort_client an c in (c, writes @ calls, True) else
      if \<not> an_output an then let (c, calls) = client_abort_client an c in (c, writes @ [Tc_tcp_output] @ calls, True) else
      if tc_recv_buf_sent c < tc_recv_buf_used c then
        if tc_recv_tcp_pending c = 0 then
          let (c, calls) = client_abort_client an c in (c, writes @ [Tc_tcp_output] @ calls, True)
        else (c\<lparr>tc_recv_waiting := True\<rparr>, writes @ [Tc_tcp_output], False)
      else (c\<lparr>tc_recv_buf_used := - 1\<rparr>, writes @ [Tc_tcp_output], False))"

definition client_socks_recv_handler_done :: "tcp_answers \<Rightarrow> nat \<Rightarrow> tcp_client \<Rightarrow> tcp_client \<times> tc_call list" where
  "client_socks_recv_handler_done an data_len c =
     (if tc_client_closed c then (c, []) else
      let c = c\<lparr>tc_recv_buf_used := int data_len, tc_recv_buf_sent := 0, tc_recv_waiting := False\<rparr>;
          (c, calls, aborted) = client_socks_recv_send_out an c
      in if aborted then (c, calls) else
      if tc_recv_buf_used c = - 1 then (c, calls @ client_socks_recv_initiate c) else (c, calls))"

definition client_socks_handler :: "tcp_answers \<Rightarrow> socks_event \<Rightarrow> tcp_client \<Rightarrow> tcp_client \<times> tc_call list" where
  "client_socks_handler an event c =
     (case event of
        BSOCKSCLIENT_EVENT_ERROR \<Rightarrow> client_free_socks an c
      | BSOCKSCLIENT_EVENT_UP \<Rightarrow>
          let c = c\<lparr>tc_recv_buf_used := - 1, tc_recv_tcp_pending := 0\<rparr>;
              sent = (if \<not> tc_client_closed c then [Tc_set_sent True] else []);
              c = c\<lparr>tc_socks_up := True\<rparr>;
              send = (if tc_buf_used c > 0 then client_send_to_socks c else []);
              recv = (if \<not> tc_client_closed c then client_socks_recv_initiate c else [])
          in (c, sent @ send @ recv)
      | BSOCKSCLIENT_EVENT_ERROR_CLOSED \<Rightarrow> client_free_socks an c)"

section \<open>Reactor jobs and lwIP callbacks\<close>

text \<open>The jobs of the reactor that concern this client; data of a receive has been written to the buffer.\<close>

datatype tc_job =
    Job_Socks socks_event tcp_answers
  | Job_Sent nat tcp_answers
  | Job_Received bytes tcp_answers

definition client_err_func :: "tcp_answers \<Rightarrow> tcp_client \<Rightarrow> tcp_client \<times> tc_call list" where
  "client_err_func an c = client_handle_freed_client an c"

text \<open>\<^verbatim>\<open>client_recv_func\<close> up to \<^verbatim>\<open>SYNC_COMMIT\<close>; Some is the value returned before, and the flag
  whether the jobs are run.\<close>

definition client_recv_func_1 ::
    "tcp_answers \<Rightarrow> bytes option \<Rightarrow> tcp_client \<Rightarrow> tcp_client \<times> tc_call list \<times> tcp_err option \<times> bool" where
  "client_recv_func_1 an p c =
     (case p of
        None \<Rightarrow> let (c, calls) = client_free_client an c in (c, calls, Some ERR_ABRT, False)
      | Some data \<Rightarrow>
          if length data > length (tc_buf c) - tc_buf_used c then (c, [], Some ERR_MEM, False) else
          let c = c\<lparr>tc_buf := put_at (tc_buf_used c) data (tc_buf c), tc_buf_used := tc_buf_used c + length data\<rparr> in
          if tc_buf_used c = length data \<and> tc_socks_up c then (c, client_send_to_socks c, None, True)
          else (c, [], None, False))"

definition client_recv_func_2 :: "bool \<Rightarrow> tcp_client \<Rightarrow> tc_call list \<times> tcp_err" where
  "client_recv_func_2 synced c = (if synced \<and> tc_client_closed c then ([], ERR_ABRT) else ([Tc_pbuf_free], ERR_OK))"

definition client_sent_func_1 :: "tcp_answers \<Rightarrow> nat \<Rightarrow> tcp_client \<Rightarrow> tcp_client \<times> tc_call list \<times> tcp_err option \<times> bool" where
  "client_sent_func_1 an len c =
     (let c = c\<lparr>tc_recv_tcp_pending := tc_recv_tcp_pending c - int len\<rparr> in
      if tc_recv_buf_used c > 0 then
        let c = c\<lparr>tc_recv_waiting := False\<rparr>;
            (c, calls, aborted) = client_socks_recv_send_out an c
        in if aborted then (c, calls, Some ERR_ABRT, False) else
        if tc_recv_buf_used c = - 1 \<and> \<not> tc_socks_closed c then (c, calls @ client_socks_recv_initiate c, None, True)
        else (c, calls, Some ERR_OK, False)
      else if tc_socks_closed c \<and> tc_recv_tcp_pending c = 0 then
        let (c, calls) = client_free_client an c in (c, calls, Some ERR_ABRT, False)
      else (c, [], Some ERR_OK, False))"

definition client_sent_func_2 :: "bool \<Rightarrow> tcp_client \<Rightarrow> tc_call list \<times> tcp_err" where
  "client_sent_func_2 synced c = (if synced \<and> tc_client_closed c then ([], ERR_ABRT) else ([], ERR_OK))"

section \<open>The client between lwIP and the SOCKS client\<close>

text \<open>
  \<^verbatim>\<open>ty_from_client\<close> and \<^verbatim>\<open>ty_from_socks\<close> are the bytes taken from either side, \<^verbatim>\<open>ty_to_socks\<close> and
  \<^verbatim>\<open>ty_written\<close> those passed on, \<^verbatim>\<open>ty_recved\<close> and \<^verbatim>\<open>ty_acked\<close> the bytes confirmed. A call on a closed
  connection, on a SOCKS client that was freed or on a busy interface, an abort that would
  enter the error callback again, and a double free make a run undefined. \<^verbatim>\<open>ty_client_failed\<close>
  and \<^verbatim>\<open>ty_socks_failed\<close> record that a side ended other than by the relay closing it in order.
\<close>

record tc_sys =
  ty_client :: tcp_client
  ty_freed :: bool
  ty_pcb :: bool
  ty_cb_err :: bool
  ty_cb_recv :: bool
  ty_cb_sent :: bool
  ty_socks :: bool
  ty_send :: "nat option"
  ty_recv :: bool
  ty_from_client :: bytes
  ty_to_socks :: bytes
  ty_recved :: nat
  ty_from_socks :: bytes
  ty_written :: bytes
  ty_acked :: nat
  ty_pbufs :: nat
  ty_client_failed :: bool
  ty_socks_failed :: bool

fun tc_do :: "tc_call \<Rightarrow> tc_sys \<Rightarrow> tc_sys option" where
  "tc_do (Tc_set_err b) s = (if ty_pcb s then Some (s\<lparr>ty_cb_err := b\<rparr>) else None)"
| "tc_do (Tc_set_recv b) s = (if ty_pcb s then Some (s\<lparr>ty_cb_recv := b\<rparr>) else None)"
| "tc_do (Tc_set_sent b) s = (if ty_pcb s then Some (s\<lparr>ty_cb_sent := b\<rparr>) else None)"
| "tc_do (Tc_tcp_close ok) s = (if ty_pcb s then Some (s\<lparr>ty_pcb := \<not> ok\<rparr>) else None)"
| "tc_do Tc_tcp_abort s = (if ty_pcb s \<and> \<not> ty_cb_err s then Some (s\<lparr>ty_pcb := False, ty_client_failed := True\<rparr>) else None)"
| "tc_do (Tc_tcp_recved n) s =
     (if ty_pcb s \<and> ty_recved s + n \<le> length (ty_from_client s) then Some (s\<lparr>ty_recved := ty_recved s + n\<rparr>) else None)"
| "tc_do (Tc_tcp_write data) s = (if ty_pcb s \<and> data \<noteq> [] then Some (s\<lparr>ty_written := ty_written s @ data\<rparr>) else None)"
| "tc_do Tc_tcp_output s = (if ty_pcb s then Some s else None)"
| "tc_do Tc_pbuf_free s = (if 0 < ty_pbufs s then Some (s\<lparr>ty_pbufs := ty_pbufs s - 1\<rparr>) else None)"
| "tc_do Tc_Socks_Free s = (if ty_socks s then Some (s\<lparr>ty_socks := False, ty_send := None, ty_recv := False\<rparr>) else None)"
| "tc_do (Tc_Send n) s =
     (if ty_socks s \<and> tc_socks_up (ty_client s) \<and> ty_send s = None \<and> 0 < n \<and> n \<le> length (tc_buf (ty_client s))
      then Some (s\<lparr>ty_send := Some n\<rparr>) else None)"
| "tc_do (Tc_Recv n) s =
     (if ty_socks s \<and> tc_socks_up (ty_client s) \<and> \<not> ty_recv s \<and> 0 < n \<and> n \<le> length (tc_recv_buf (ty_client s))
      then Some (s\<lparr>ty_recv := True\<rparr>) else None)"
| "tc_do Tc_dealloc s = (if \<not> ty_freed s \<and> \<not> ty_pcb s \<and> \<not> ty_socks s then Some (s\<lparr>ty_freed := True\<rparr>) else None)"

fun tc_perform :: "tc_call list \<Rightarrow> tc_sys \<Rightarrow> tc_sys option" where
  "tc_perform [] s = Some s"
| "tc_perform (c # cs) s = Option.bind (tc_do c s) (tc_perform cs)"

definition tc_handle :: "tcp_client \<times> tc_call list \<Rightarrow> tc_sys \<Rightarrow> tc_sys option" where
  "tc_handle r s = tc_perform (snd r) (s\<lparr>ty_client := fst r\<rparr>)"

fun tc_job_step :: "tc_job \<Rightarrow> tc_sys \<Rightarrow> tc_sys option" where
  "tc_job_step (Job_Socks e an) s =
     (if ty_socks s \<and> (tc_socks_up (ty_client s) \<longleftrightarrow> e \<noteq> BSOCKSCLIENT_EVENT_UP) \<or> ty_socks s \<and> e = BSOCKSCLIENT_EVENT_ERROR then
        tc_handle (client_socks_handler an e (ty_client s)) (s\<lparr>ty_socks_failed := (ty_socks_failed s \<or> e \<noteq> BSOCKSCLIENT_EVENT_UP)\<rparr>)
      else Some s)"
| "tc_job_step (Job_Sent n an) s =
     (case ty_send s of None \<Rightarrow> Some s
      | Some m \<Rightarrow>
          if 0 < n \<and> n \<le> m then
            tc_handle (client_socks_send_handler_done an n (ty_client s))
              (s\<lparr>ty_send := None, ty_to_socks := ty_to_socks s @ take n (tc_buf (ty_client s))\<rparr>)
          else Some s)"
| "tc_job_step (Job_Received data an) s =
     (if ty_recv s \<and> data \<noteq> [] \<and> length data \<le> length (tc_recv_buf (ty_client s)) then
        tc_handle (client_socks_recv_handler_done an (length data)
                     ((ty_client s)\<lparr>tc_recv_buf := put_at 0 data (tc_recv_buf (ty_client s))\<rparr>))
          (s\<lparr>ty_recv := False, ty_from_socks := ty_from_socks s @ data\<rparr>)
      else Some s)"

fun tc_jobs :: "tc_job list \<Rightarrow> tc_sys \<Rightarrow> tc_sys option" where
  "tc_jobs [] s = Some s"
| "tc_jobs (j # js) s = Option.bind (tc_job_step j s) (tc_jobs js)"

text \<open>A callback: the first part, the jobs if it synchronises, the last part if it has not returned.\<close>

definition tc_callback ::
    "tcp_client \<times> tc_call list \<times> tcp_err option \<times> bool \<Rightarrow> tc_job list \<Rightarrow> (bool \<Rightarrow> tcp_client \<Rightarrow> tc_call list \<times> tcp_err) \<Rightarrow>
       tc_sys \<Rightarrow> (tc_sys \<times> tcp_err) option" where
  "tc_callback r jobs finish s =
     (case r of (c, calls, ret, sync) \<Rightarrow>
        case tc_handle (c, calls) s of
          None \<Rightarrow> None
        | Some s \<Rightarrow>
            (case ret of Some err \<Rightarrow> Some (s, err)
             | None \<Rightarrow>
                 (case (if sync then tc_jobs jobs s else Some s) of
                    None \<Rightarrow> None
                  | Some s \<Rightarrow> let (calls, err) = finish sync (ty_client s) in map_option (\<lambda>s. (s, err)) (tc_perform calls s))))"

datatype tc_event =
    Ev_tcp_recv "bytes option" tcp_answers "tc_job list"
  | Ev_tcp_sent nat tcp_answers "tc_job list"
  | Ev_tcp_err tcp_answers
  | Ev_job tc_job
  | Ev_murder

definition tc_recv_event :: "bytes option \<Rightarrow> tcp_answers \<Rightarrow> tc_job list \<Rightarrow> tc_sys \<Rightarrow> (tc_sys \<times> tcp_err) option" where
  "tc_recv_event p an jobs s =
     (let r = client_recv_func_1 an p (ty_client s) in
      tc_callback r jobs client_recv_func_2
        (case p of None \<Rightarrow> s\<lparr>ty_client_failed := True\<rparr>
         | Some data \<Rightarrow> if fst (snd (snd r)) = Some ERR_MEM then s
                        else s\<lparr>ty_from_client := ty_from_client s @ data, ty_pbufs := ty_pbufs s + 1\<rparr>))"

definition tc_sent_event :: "nat \<Rightarrow> tcp_answers \<Rightarrow> tc_job list \<Rightarrow> tc_sys \<Rightarrow> (tc_sys \<times> tcp_err) option" where
  "tc_sent_event len an jobs s =
     tc_callback (client_sent_func_1 an len (ty_client s)) jobs client_sent_func_2 (s\<lparr>ty_acked := ty_acked s + len\<rparr>)"

fun tc_step :: "tc_event \<Rightarrow> tc_sys \<Rightarrow> tc_sys option" where
  "tc_step (Ev_tcp_recv p an jobs) s =
     (if ty_pcb s \<and> ty_cb_recv s \<and> p \<noteq> Some [] then map_option fst (tc_recv_event p an jobs s) else Some s)"
| "tc_step (Ev_tcp_sent len an jobs) s =
     (if ty_pcb s \<and> ty_cb_sent s \<and> 0 < len \<and> ty_acked s + len \<le> length (ty_written s)
      then map_option fst (tc_sent_event len an jobs s) else Some s)"
| "tc_step (Ev_tcp_err an) s =
     (if ty_pcb s \<and> ty_cb_err s then tc_handle (client_err_func an (ty_client s))
        (s\<lparr>ty_pcb := False, ty_cb_err := False, ty_cb_recv := False, ty_cb_sent := False, ty_client_failed := True\<rparr>) else Some s)"
| "tc_step (Ev_job j) s = tc_job_step j s"
| "tc_step Ev_murder s =
     (if ty_freed s then Some s
      else tc_handle (client_murder (ty_client s)) (s\<lparr>ty_client_failed := True, ty_socks_failed := True\<rparr>))"

fun tc_run :: "tc_event list \<Rightarrow> tc_sys \<Rightarrow> tc_sys option" where
  "tc_run [] s = Some s"
| "tc_run (e # es) s = Option.bind (tc_step e s) (tc_run es)"

text \<open>The fields \<^verbatim>\<open>listener_accept_func\<close> sets; the rest of the allocated memory is arbitrary.\<close>

definition tc_accepted :: "tcp_client \<Rightarrow> tcp_client" where
  "tc_accepted c = c\<lparr>tc_client_closed := False, tc_buf_used := 0, tc_socks_up := False, tc_socks_closed := False\<rparr>"

definition tc_start :: "tcp_client \<Rightarrow> tc_sys" where
  "tc_start c = \<lparr>ty_client = c, ty_freed = False, ty_pcb = True, ty_cb_err = True, ty_cb_recv = True, ty_cb_sent = False,
     ty_socks = True, ty_send = None, ty_recv = False, ty_from_client = [], ty_to_socks = [], ty_recved = 0,
     ty_from_socks = [], ty_written = [], ty_acked = 0, ty_pbufs = 0, ty_client_failed = False, ty_socks_failed = False\<rparr>"

section \<open>The invariant\<close>

definition to_socks_ok :: "tc_sys \<Rightarrow> bool" where
  "to_socks_ok s \<longleftrightarrow>
     (let c = ty_client s in
      tc_buf_used c \<le> length (tc_buf c) \<and> ty_from_client s = ty_to_socks s @ take (tc_buf_used c) (tc_buf c) \<and>
      (ty_pcb s \<longrightarrow> ty_recved s = length (ty_to_socks s)) \<and>
      (ty_send s = None \<longrightarrow> \<not> (ty_socks s \<and> tc_socks_up c) \<or> tc_buf_used c = 0) \<and>
      (\<forall>m. ty_send s = Some m \<longrightarrow> ty_socks s \<and> tc_socks_up c \<and> 0 < m \<and> m \<le> tc_buf_used c) \<and>
      (\<not> ty_socks s \<and> \<not> ty_socks_failed s \<longrightarrow> tc_buf_used c = 0))"

definition to_client_ok :: "tc_sys \<Rightarrow> bool" where
  "to_client_ok s \<longleftrightarrow>
     (let c = ty_client s in
      0 < length (tc_recv_buf c) \<and> ty_acked s \<le> length (ty_written s) \<and>
      (ty_recv s \<longrightarrow> ty_socks s \<and> tc_socks_up c \<and> tc_recv_buf_used c = - 1) \<and>
      (\<exists>rest. ty_from_socks s = ty_written s @ rest) \<and>
      (\<not> tc_socks_up c \<longrightarrow> ty_from_socks s = []) \<and>
      (ty_pcb s \<and> tc_socks_up c \<longrightarrow>
         tc_recv_tcp_pending c = int (length (ty_written s)) - int (ty_acked s) \<and>
         (if tc_recv_buf_used c = - 1 then ty_from_socks s = ty_written s \<and> ty_recv s = ty_socks s
          else 0 \<le> tc_recv_buf_sent c \<and> tc_recv_buf_sent c < tc_recv_buf_used c \<and> tc_recv_buf_used c \<le> int (length (tc_recv_buf c)) \<and>
               tc_recv_waiting c \<and> 0 < tc_recv_tcp_pending c \<and>
               ty_from_socks s = ty_written s @
                 get_at (nat (tc_recv_buf_sent c)) (nat (tc_recv_buf_used c - tc_recv_buf_sent c)) (tc_recv_buf c))) \<and>
      (\<not> ty_pcb s \<and> \<not> ty_client_failed s \<longrightarrow> ty_written s = ty_from_socks s \<and> ty_acked s = length (ty_written s)))"

definition sides_ok :: "tc_sys \<Rightarrow> bool" where
  "sides_ok s \<longleftrightarrow>
     (let c = ty_client s in
      ty_pcb s = (\<not> tc_client_closed c) \<and> ty_socks s = (\<not> tc_socks_closed c) \<and> ty_freed s = (tc_client_closed c \<and> tc_socks_closed c) \<and>
      ty_cb_err s = ty_pcb s \<and> ty_cb_sent s = (ty_pcb s \<and> tc_socks_up c) \<and> ty_cb_recv s = (ty_pcb s \<and> ty_socks s) \<and>
      (tc_client_closed c \<and> \<not> tc_socks_closed c \<longrightarrow> 0 < tc_buf_used c \<and> ty_client_failed s) \<and>
      (tc_socks_closed c \<and> \<not> tc_client_closed c \<longrightarrow>
         tc_socks_up c \<and> (tc_recv_buf_used c \<ge> 0 \<or> tc_recv_tcp_pending c > 0) \<and> ty_socks_failed s))"

definition tc_ok :: "tc_sys \<Rightarrow> bool" where
  "tc_ok s \<longleftrightarrow> to_socks_ok s \<and> to_client_ok s \<and> sides_ok s"

definition sides0 :: "tc_sys \<Rightarrow> bool" where
  "sides0 s \<longleftrightarrow>
     (let c = ty_client s in
      ty_pcb s = (\<not> tc_client_closed c) \<and> ty_socks s = (\<not> tc_socks_closed c) \<and> \<not> ty_freed s \<and>
      ty_cb_err s = ty_pcb s \<and> ty_cb_sent s = (ty_pcb s \<and> tc_socks_up c) \<and> ty_cb_recv s = (ty_pcb s \<and> ty_socks s))"

lemma sides_ok_open: "sides_ok s \<Longrightarrow> \<not> ty_freed s \<Longrightarrow> sides0 s"
  by (auto simp: sides_ok_def sides0_def Let_def)

lemma tc_perform_append: "tc_perform (xs @ ys) s = Option.bind (tc_perform xs s) (tc_perform ys)"
  by (induction xs arbitrary: s) (simp_all split: bind_split)

text \<open>The mutual recursion, unrolled: each side is closed once.\<close>

lemma free_socks_closed:
  "tc_client_closed c \<Longrightarrow> client_free_socks an c = (c\<lparr>tc_socks_closed := True\<rparr>, [Tc_Socks_Free, Tc_dealloc])"
  by (subst client_free_socks.simps) (simp add: client_dealloc_def)

lemma handle_freed_eq:
  "client_handle_freed_client an c =
     (if tc_buf_used c > 0 \<and> \<not> tc_socks_closed c then (c\<lparr>tc_client_closed := True\<rparr>, [])
      else if \<not> tc_socks_closed c then (c\<lparr>tc_client_closed := True, tc_socks_closed := True\<rparr>, [Tc_Socks_Free, Tc_dealloc])
      else (c\<lparr>tc_client_closed := True\<rparr>, [Tc_dealloc]))"
  by (subst client_handle_freed_client.simps) (simp add: client_dealloc_def free_socks_closed)

lemma free_client_eq:
  "client_free_client an c =
     (fst (client_handle_freed_client an c),
      callbacks_off @ Tc_tcp_close (an_close an) # (if an_close an then [] else [Tc_tcp_abort]) @ snd (client_handle_freed_client an c))"
  by (subst client_free_client.simps) (simp add: split_def Let_def)

lemma free_socks_open:
  assumes "\<not> tc_client_closed c"
  shows "client_free_socks an c =
    (if tc_socks_up c \<and> (tc_recv_buf_used c \<ge> 0 \<or> tc_recv_tcp_pending c > 0)
     then (c\<lparr>tc_socks_closed := True\<rparr>, [Tc_set_recv False, Tc_Socks_Free])
     else (c\<lparr>tc_client_closed := True, tc_socks_closed := True\<rparr>,
           (if tc_socks_up c then [Tc_set_recv False] else []) @ Tc_Socks_Free # callbacks_off @ Tc_tcp_close (an_close an) #
           (if an_close an then [] else [Tc_tcp_abort]) @ [Tc_dealloc]))"
  using assms by (subst client_free_socks.simps) (simp add: free_client_eq handle_freed_eq)

lemmas tc_inv_defs = tc_ok_def to_socks_ok_def to_client_ok_def sides_ok_def sides0_def Let_def

text \<open>The SOCKS client goes, by its own fault or with an empty buffer.\<close>

lemma free_socks_ok:
  assumes "to_socks_ok (s\<lparr>ty_client := c\<rparr>)" "to_client_ok (s\<lparr>ty_client := c\<rparr>)" "sides0 (s\<lparr>ty_client := c\<rparr>)" "ty_socks s"
    and "if tc_client_closed c then ty_socks_failed s \<or> tc_buf_used c = 0 else ty_socks_failed s"
  shows "\<exists>s'. tc_handle (client_free_socks an c) s = Some s' \<and> tc_ok s'"
proof (cases "tc_client_closed c")
  case True
  then show ?thesis
    using assms
    by (auto simp: free_socks_closed free_socks_open callbacks_off_def tc_handle_def tc_inv_defs)
next
  case False
  show ?thesis
  proof (cases "tc_socks_up c \<and> (tc_recv_buf_used c \<ge> 0 \<or> tc_recv_tcp_pending c > 0)")
    case True
    then show ?thesis
      using assms False
      by (auto simp: free_socks_closed free_socks_open callbacks_off_def tc_handle_def tc_inv_defs)
  next
    case wait: False
    have "ty_from_socks s = ty_written s \<and> ty_acked s = length (ty_written s)"
      using assms(2,3) False wait by (auto simp: to_client_ok_def sides0_def Let_def split: if_splits)
    then show ?thesis
      using assms False wait
      by (auto simp: free_socks_closed free_socks_open callbacks_off_def tc_handle_def tc_inv_defs)
  qed
qed

text \<open>The connection is gone already.\<close>

lemma handle_freed_ok:
  assumes "to_socks_ok (s\<lparr>ty_client := c\<rparr>)" "to_client_ok (s\<lparr>ty_client := c\<rparr>)" "\<not> ty_pcb s" "\<not> ty_freed s"
    and "\<not> ty_cb_err s" "\<not> ty_cb_recv s" "\<not> ty_cb_sent s" "ty_socks s = (\<not> tc_socks_closed c)"
    and "ty_socks s \<Longrightarrow> ty_client_failed s"
  shows "\<exists>s'. tc_handle (client_handle_freed_client an c) s = Some s' \<and> tc_ok s'"
proof -
  let ?c = "c\<lparr>tc_client_closed := True\<rparr>"
  consider (wait) "tc_buf_used c > 0" "\<not> tc_socks_closed c" | (both) "tc_buf_used c = 0" "\<not> tc_socks_closed c" | (last) "tc_socks_closed c"
    by blast
  then show ?thesis
  proof cases
    case wait
    then have "tc_handle (client_handle_freed_client an c) s = Some (s\<lparr>ty_client := ?c\<rparr>)" by (simp add: handle_freed_eq tc_handle_def)
    moreover have "to_socks_ok (s\<lparr>ty_client := ?c\<rparr>)" using assms(1) by (simp add: to_socks_ok_def Let_def)
    moreover have "to_client_ok (s\<lparr>ty_client := ?c\<rparr>)" using assms(2,3) by (simp add: to_client_ok_def Let_def)
    moreover have "sides_ok (s\<lparr>ty_client := ?c\<rparr>)" using assms(3-9) wait by (simp add: sides_ok_def)
    ultimately show ?thesis by (simp add: tc_ok_def)
  next
    case both
    let ?s = "s\<lparr>ty_client := ?c\<lparr>tc_socks_closed := True\<rparr>, ty_socks := False, ty_send := None, ty_recv := False, ty_freed := True\<rparr>"
    have "tc_handle (client_handle_freed_client an c) s = Some ?s" using both assms(3,4,8) by (simp add: handle_freed_eq tc_handle_def)
    moreover have "to_socks_ok ?s" using assms(1) both by (simp add: to_socks_ok_def Let_def)
    moreover have "to_client_ok ?s" using assms(2,3) by (simp add: to_client_ok_def Let_def)
    moreover have "sides_ok ?s" using assms(3-8) by (simp add: sides_ok_def)
    ultimately show ?thesis by (simp add: tc_ok_def)
  next
    case last
    let ?s = "s\<lparr>ty_client := ?c, ty_freed := True\<rparr>"
    have "tc_handle (client_handle_freed_client an c) s = Some ?s" using last assms(3,4,8) by (simp add: handle_freed_eq tc_handle_def)
    moreover have "to_socks_ok ?s" using assms(1) by (simp add: to_socks_ok_def Let_def)
    moreover have "to_client_ok ?s" using assms(2,3) by (simp add: to_client_ok_def Let_def)
    moreover have "sides_ok ?s" using assms(3-8) last by (simp add: sides_ok_def)
    ultimately show ?thesis by (simp add: tc_ok_def)
  qed
qed

text \<open>The relay closes or aborts the connection.\<close>

definition pcb_gone :: "bool \<Rightarrow> tc_sys \<Rightarrow> tc_sys" where
  "pcb_gone f s = s\<lparr>ty_pcb := False, ty_cb_err := False, ty_cb_recv := False, ty_cb_sent := False, ty_client_failed := (ty_client_failed s \<or> f)\<rparr>"

lemma pcb_gone_ok:
  assumes "to_socks_ok (s\<lparr>ty_client := c\<rparr>)" "to_client_ok (s\<lparr>ty_client := c\<rparr>)" "sides0 (s\<lparr>ty_client := c\<rparr>)"
    and "f \<or> ty_client_failed s \<or> \<not> ty_socks s \<and> ty_from_socks s = ty_written s \<and> ty_acked s = length (ty_written s)"
  shows "\<exists>s'. tc_handle (client_handle_freed_client an c) (pcb_gone f s) = Some s' \<and> tc_ok s'"
proof (intro handle_freed_ok)
  show "to_socks_ok ((pcb_gone f s)\<lparr>ty_client := c\<rparr>)" using assms(1) by (simp add: pcb_gone_def to_socks_ok_def Let_def)
  show "to_client_ok ((pcb_gone f s)\<lparr>ty_client := c\<rparr>)"
    using assms(2,4) unfolding to_client_ok_def Let_def pcb_gone_def by auto
qed (use assms(3,4) in \<open>auto simp: pcb_gone_def sides0_def Let_def\<close>)

lemma free_client_ok:
  assumes "to_socks_ok (s\<lparr>ty_client := c\<rparr>)" "to_client_ok (s\<lparr>ty_client := c\<rparr>)" "sides0 (s\<lparr>ty_client := c\<rparr>)" "ty_pcb s"
    and "ty_client_failed s \<or> \<not> ty_socks s \<and> ty_from_socks s = ty_written s \<and> ty_acked s = length (ty_written s)"
  shows "\<exists>s'. tc_handle (client_free_client an c) s = Some s' \<and> tc_ok s'"
proof -
  have "tc_handle (client_free_client an c) s = tc_handle (client_handle_freed_client an c) (pcb_gone (\<not> an_close an) s)"
    using assms(4) by (cases s) (simp add: free_client_eq callbacks_off_def tc_handle_def pcb_gone_def)
  then show ?thesis using pcb_gone_ok [OF assms(1-3), of "\<not> an_close an" an] assms(5) by simp
qed

lemma abort_client_ok:
  assumes "to_socks_ok (s\<lparr>ty_client := c\<rparr>)" "to_client_ok ((pcb_gone True s)\<lparr>ty_client := c\<rparr>)" "sides0 (s\<lparr>ty_client := c\<rparr>)" "ty_pcb s"
  shows "\<exists>s'. tc_handle (client_abort_client an c) s = Some s' \<and> tc_ok s'"
proof -
  have "tc_handle (client_abort_client an c) s = tc_handle (client_handle_freed_client an c) (pcb_gone True s)"
    using assms(4) by (cases s) (simp add: client_abort_client_def split_def Let_def callbacks_off_def tc_handle_def pcb_gone_def)
  moreover have "to_socks_ok ((pcb_gone True s)\<lparr>ty_client := c\<rparr>)" using assms(1) by (simp add: pcb_gone_def to_socks_ok_def Let_def)
  moreover have "\<exists>s'. tc_handle (client_handle_freed_client an c) (pcb_gone True s) = Some s' \<and> tc_ok s'"
    using calculation(2) assms(2,3) by (intro handle_freed_ok) (simp_all add: pcb_gone_def sides0_def Let_def)
  ultimately show ?thesis by simp
qed

section \<open>Writing to the client\<close>

definition unsent :: "tcp_client \<Rightarrow> bytes" where
  "unsent c = get_at (nat (tc_recv_buf_sent c)) (nat (tc_recv_buf_used c - tc_recv_buf_sent c)) (tc_recv_buf c)"

lemma tc_perform_write:
  "ty_pcb s \<Longrightarrow> w \<noteq> [] \<Longrightarrow> tc_perform (Tc_tcp_write w # calls) s = tc_perform calls (s\<lparr>ty_written := ty_written s @ w\<rparr>)"
  by simp

lemma send_out_loop_eq:
  assumes "send_out_loop an c = (c', calls, failed)" "0 \<le> tc_recv_buf_sent c" "tc_recv_buf_sent c < tc_recv_buf_used c"
    and "tc_recv_buf_used c \<le> int (length (tc_recv_buf c))"
  shows "\<exists>n. 0 \<le> n \<and> n \<le> tc_recv_buf_used c - tc_recv_buf_sent c \<and>
    c' = c\<lparr>tc_recv_buf_sent := tc_recv_buf_sent c + n, tc_recv_tcp_pending := tc_recv_tcp_pending c + n\<rparr> \<and>
    (\<forall>s. ty_pcb s \<longrightarrow>
       tc_perform calls s = Some (s\<lparr>ty_written := ty_written s @ get_at (nat (tc_recv_buf_sent c)) (nat n) (tc_recv_buf c)\<rparr>))"
  using assms
proof (induction an c arbitrary: c' calls failed rule: send_out_loop.induct)
  case (1 c)
  then show ?case by (intro exI [of _ 0]) simp
next
  case (2 sndbuf err an c)
  let ?t = "bmin (tc_recv_buf_used c - tc_recv_buf_sent c) (int sndbuf)"
  let ?c = "c\<lparr>tc_recv_buf_sent := tc_recv_buf_sent c + ?t, tc_recv_tcp_pending := tc_recv_tcp_pending c + ?t\<rparr>"
  let ?w = "get_at (nat (tc_recv_buf_sent c)) (nat ?t) (tc_recv_buf c)"
  show ?case
  proof (cases "?t = 0 \<or> err \<noteq> ERR_OK")
    case True
    then show ?thesis using 2(2,4) by (intro exI [of _ 0]) (auto simp: Let_def split: if_splits)
  next
    case False
    have t: "0 < ?t" "?t \<le> tc_recv_buf_used c - tc_recv_buf_sent c" using False 2(4) by (auto simp: bmin_def)
    have w: "?w \<noteq> []" using t 2(3,5) by (auto simp: get_at_def)
    show ?thesis
    proof (cases "tc_recv_buf_sent ?c < tc_recv_buf_used ?c")
      case less: True
      obtain c1 calls1 f1 where r: "send_out_loop an ?c = (c1, calls1, f1)" by (metis prod_cases3)
      then have e: "c' = c1" "calls = Tc_tcp_write ?w # calls1" using 2(2) False less by (auto simp: Let_def)
      obtain n where n: "0 \<le> n" "n \<le> tc_recv_buf_used ?c - tc_recv_buf_sent ?c"
        "c1 = ?c\<lparr>tc_recv_buf_sent := tc_recv_buf_sent ?c + n, tc_recv_tcp_pending := tc_recv_tcp_pending ?c + n\<rparr>"
        "\<And>s. ty_pcb s \<Longrightarrow>
           tc_perform calls1 s = Some (s\<lparr>ty_written := ty_written s @ get_at (nat (tc_recv_buf_sent ?c)) (nat n) (tc_recv_buf ?c)\<rparr>)"
        using 2(1) [OF refl _ _ refl refl less r] False t 2(3,5) less by auto
      have "?w @ get_at (nat (tc_recv_buf_sent ?c)) (nat n) (tc_recv_buf ?c) =
          get_at (nat (tc_recv_buf_sent c)) (nat (?t + n)) (tc_recv_buf c)"
        using 2(3) t(1) n(1) by (simp add: get_at_append_split nat_add_distrib)
      then show ?thesis using n e w t by (intro exI [of _ "?t + n"]) (simp add: tc_perform_write)
    next
      case fin: False
      then show ?thesis using 2(2) False t w by (intro exI [of _ ?t]) (auto simp: Let_def)
    qed
  qed
qed

text \<open>The client with data to write: what holds when \<^verbatim>\<open>client_socks_recv_send_out\<close> is called, and what it leaves.\<close>

definition writing :: "tcp_client \<Rightarrow> tc_sys \<Rightarrow> bool" where
  "writing c s \<longleftrightarrow>
     ty_pcb s \<and> tc_socks_up c \<and> \<not> ty_recv s \<and> 0 \<le> tc_recv_buf_sent c \<and> tc_recv_buf_sent c < tc_recv_buf_used c \<and>
     tc_recv_buf_used c \<le> int (length (tc_recv_buf c)) \<and> ty_acked s \<le> length (ty_written s) \<and>
     tc_recv_tcp_pending c = int (length (ty_written s)) - int (ty_acked s) \<and> ty_from_socks s = ty_written s @ unsent c \<and>
     to_socks_ok (s\<lparr>ty_client := c\<rparr>) \<and> sides0 (s\<lparr>ty_client := c\<rparr>)"

definition same_but_writing :: "tcp_client \<Rightarrow> tcp_client \<Rightarrow> bool" where
  "same_but_writing c c' \<longleftrightarrow>
     tc_client_closed c' = tc_client_closed c \<and> tc_buf c' = tc_buf c \<and> tc_buf_used c' = tc_buf_used c \<and> tc_socks_up c' = tc_socks_up c \<and>
     tc_socks_closed c' = tc_socks_closed c \<and> tc_recv_buf c' = tc_recv_buf c"

lemma same_but_writing_ok:
  assumes "same_but_writing c c'"
  shows "to_socks_ok (s\<lparr>ty_client := c'\<rparr>) = to_socks_ok (s\<lparr>ty_client := c\<rparr>)"
    and "sides0 (s\<lparr>ty_client := c'\<rparr>) = sides0 (s\<lparr>ty_client := c\<rparr>)"
  using assms by (simp_all add: same_but_writing_def to_socks_ok_def sides0_def)

lemma written_ok:
  "to_socks_ok (s\<lparr>ty_written := w, ty_client := c\<rparr>) = to_socks_ok (s\<lparr>ty_client := c\<rparr>)"
  "sides0 (s\<lparr>ty_written := w, ty_client := c\<rparr>) = sides0 (s\<lparr>ty_client := c\<rparr>)"
  by (simp_all add: to_socks_ok_def sides0_def)

lemma get_at_split:
  "n \<le> m \<Longrightarrow> get_at off m b = get_at off n b @ get_at (off + n) (m - n) b"
  using get_at_append_split [of off n "m - n" b] by simp

lemma writing_aborted:
  assumes "writing c s" "c1 = c\<lparr>tc_recv_buf_sent := tc_recv_buf_sent c + n, tc_recv_tcp_pending := tc_recv_tcp_pending c + n\<rparr>"
    and "ty_from_socks s = (ty_written s @ w) @ rest" "client_abort_client an c1 = (c', calls)"
  shows "\<exists>s'. tc_handle (c', calls) (s\<lparr>ty_written := ty_written s @ w\<rparr>) = Some s' \<and> tc_ok s'"
proof -
  let ?s = "s\<lparr>ty_written := ty_written s @ w\<rparr>"
  have same: "same_but_writing c c1" by (simp add: assms(2) same_but_writing_def)
  have pre: "to_socks_ok (?s\<lparr>ty_client := c1\<rparr>)" "sides0 (?s\<lparr>ty_client := c1\<rparr>)" "ty_pcb ?s"
    using assms(1) unfolding same_but_writing_ok [OF same] written_ok by (simp_all add: writing_def)
  have "\<exists>rest. ty_from_socks s = ty_written s @ w @ rest" using assms(3) by auto
  moreover have "0 < length (tc_recv_buf c)" using assms(1) by (auto simp: writing_def)
  ultimately have "to_client_ok ((pcb_gone True ?s)\<lparr>ty_client := c1\<rparr>)"
    using assms(1,2) unfolding writing_def to_client_ok_def Let_def pcb_gone_def by simp
  then show ?thesis using pre abort_client_ok [of c1 ?s an] assms(4) by simp
qed

lemma send_out_ok:
  assumes w: "writing c s" and r: "client_socks_recv_send_out an c = (c', calls, aborted)"
  shows "if aborted then \<exists>s'. tc_handle (c', calls) s = Some s' \<and> tc_ok s'
    else \<exists>w. tc_handle (c', calls) s = Some (s\<lparr>ty_client := c', ty_written := ty_written s @ w\<rparr>) \<and> same_but_writing c c' \<and>
      tc_recv_tcp_pending c' = int (length (ty_written s @ w)) - int (ty_acked s) \<and> 0 < tc_recv_tcp_pending c' \<and>
      (if tc_recv_buf_used c' = - 1 then ty_from_socks s = ty_written s @ w
       else 0 \<le> tc_recv_buf_sent c' \<and> tc_recv_buf_sent c' < tc_recv_buf_used c' \<and> tc_recv_buf_used c' \<le> int (length (tc_recv_buf c')) \<and>
            tc_recv_waiting c' \<and> ty_from_socks s = (ty_written s @ w) @ unsent c')"
proof -
  obtain c1 writes failed where l: "send_out_loop (an_writes an) c = (c1, writes, failed)" by (metis prod_cases3)
  have c: "0 \<le> tc_recv_buf_sent c" "tc_recv_buf_sent c < tc_recv_buf_used c" "tc_recv_buf_used c \<le> int (length (tc_recv_buf c))"
    "ty_pcb s" "tc_recv_tcp_pending c = int (length (ty_written s)) - int (ty_acked s)" "ty_acked s \<le> length (ty_written s)"
    "ty_from_socks s = ty_written s @ unsent c"
    using w by (auto simp: writing_def)
  obtain n where n: "0 \<le> n" "n \<le> tc_recv_buf_used c - tc_recv_buf_sent c"
    "c1 = c\<lparr>tc_recv_buf_sent := tc_recv_buf_sent c + n, tc_recv_tcp_pending := tc_recv_tcp_pending c + n\<rparr>"
    "\<And>s. ty_pcb s \<Longrightarrow> tc_perform writes s = Some (s\<lparr>ty_written := ty_written s @ get_at (nat (tc_recv_buf_sent c)) (nat n) (tc_recv_buf c)\<rparr>)"
    using send_out_loop_eq [OF l c(1-3)] by blast
  define v where "v = get_at (nat (tc_recv_buf_sent c)) (nat n) (tc_recv_buf c)"
  have v: "unsent c = v @ unsent c1" "int (length v) = n"
    using get_at_split [of "nat n" "nat (tc_recv_buf_used c - tc_recv_buf_sent c)" "nat (tc_recv_buf_sent c)" "tc_recv_buf c"] n(1-3) c(1,3)
    by (auto simp: unsent_def v_def nat_add_distrib nat_diff_distrib' diff_diff_add)
  have perf: "tc_handle (x, writes @ rest) s = tc_handle (x, rest) (s\<lparr>ty_written := ty_written s @ v\<rparr>)" for rest x
    using n(4) [of "s\<lparr>ty_client := x\<rparr>"] c(4) by (cases s) (simp add: tc_handle_def tc_perform_append v_def)
  have out: "tc_handle (x, Tc_tcp_output # rest) (s\<lparr>ty_written := z\<rparr>) = tc_handle (x, rest) (s\<lparr>ty_written := z\<rparr>)" for rest x z
    using c(4) by (simp add: tc_handle_def)
  obtain ca cl where a: "client_abort_client an c1 = (ca, cl)" by fastforce
  have ab: "\<exists>s'. tc_handle (ca, writes @ cl) s = Some s' \<and> tc_ok s'" "\<exists>s'. tc_handle (ca, writes @ Tc_tcp_output # cl) s = Some s' \<and> tc_ok s'"
    using writing_aborted [OF w n(3) _ a, of v "unsent c1"] c(7) v(1) by (simp_all add: perf out)
  have ok: "tc_handle (x, writes @ [Tc_tcp_output]) s = Some (s\<lparr>ty_client := x, ty_written := ty_written s @ v\<rparr>)" for x
    unfolding perf out by (cases s) (simp add: tc_handle_def)
  have p: "tc_recv_tcp_pending c1 = int (length (ty_written s @ v)) - int (ty_acked s)" "0 \<le> tc_recv_tcp_pending c1"
    "tc_recv_buf_sent c1 = tc_recv_buf_sent c + n" "tc_recv_buf_used c1 = tc_recv_buf_used c" "tc_recv_buf c1 = tc_recv_buf c"
    using c(5,6) v(2) n(1,3) by simp_all
  have same: "same_but_writing c c1" using n(3) by (simp add: same_but_writing_def)
  consider (fail) "failed \<or> \<not> an_output an \<or> tc_recv_buf_sent c1 < tc_recv_buf_used c1 \<and> tc_recv_tcp_pending c1 = 0"
    | (wait) "\<not> failed" "an_output an" "tc_recv_buf_sent c1 < tc_recv_buf_used c1" "tc_recv_tcp_pending c1 \<noteq> 0"
    | (all) "\<not> failed" "an_output an" "\<not> tc_recv_buf_sent c1 < tc_recv_buf_used c1" by blast
  then show ?thesis
  proof cases
    case fail
    then have "(c', calls, aborted) \<in> {(ca, writes @ cl, True), (ca, writes @ Tc_tcp_output # cl, True)}"
      using r l a by (auto simp: client_socks_recv_send_out_def split: if_splits)
    then show ?thesis using ab by auto
  next
    case wait
    then have "c' = c1\<lparr>tc_recv_waiting := True\<rparr>" "calls = writes @ [Tc_tcp_output]" "\<not> aborted"
      using r l by (auto simp: client_socks_recv_send_out_def)
    moreover have "unsent (c1\<lparr>tc_recv_waiting := True\<rparr>) = unsent c1" by (simp add: unsent_def)
    moreover have "same_but_writing c (c1\<lparr>tc_recv_waiting := True\<rparr>)" using same by (simp add: same_but_writing_def)
    moreover have "0 < tc_recv_tcp_pending c1" "0 \<le> tc_recv_buf_sent c1" using wait(4) p(2,3) c(1) n(1) by simp_all
    moreover have "ty_from_socks s = (ty_written s @ v) @ unsent c1" using c(7) v(1) by simp
    ultimately show ?thesis using wait(3) p(1,4,5) c(3) ok [of c'] by auto
  next
    case all
    then have "c' = c1\<lparr>tc_recv_buf_used := - 1\<rparr>" "calls = writes @ [Tc_tcp_output]" "\<not> aborted"
      using r l by (auto simp: client_socks_recv_send_out_def)
    moreover have "unsent c1 = []" "0 < tc_recv_tcp_pending c1" using all p(3,4) n c(2,5,6) by (simp_all add: unsent_def)
    ultimately show ?thesis using ok [of c'] same p(1) c(7) v(1) by (simp add: same_but_writing_def)
  qed
qed

lemma written_state_ok:
  assumes "writing c s" "same_but_writing c c'" "tc_recv_tcp_pending c' = int (length (ty_written s @ w)) - int (ty_acked s)" "0 < tc_recv_tcp_pending c'"
    and "if tc_recv_buf_used c' = - 1 then ty_from_socks s = ty_written s @ w
       else 0 \<le> tc_recv_buf_sent c' \<and> tc_recv_buf_sent c' < tc_recv_buf_used c' \<and> tc_recv_buf_used c' \<le> int (length (tc_recv_buf c')) \<and>
            tc_recv_waiting c' \<and> ty_from_socks s = (ty_written s @ w) @ unsent c'"
    and "\<not> ty_socks s \<Longrightarrow> ty_socks_failed s"
  shows "tc_ok (s\<lparr>ty_client := c', ty_written := ty_written s @ w, ty_recv := (tc_recv_buf_used c' = - 1 \<and> ty_socks s)\<rparr>)" (is "tc_ok ?s")
proof -
  have w: "ty_pcb s" "tc_socks_up c" "ty_acked s \<le> length (ty_written s)" "to_socks_ok (s\<lparr>ty_client := c\<rparr>)" "sides0 (s\<lparr>ty_client := c\<rparr>)"
    "0 < length (tc_recv_buf c)" using assms(1) by (auto simp: writing_def)
  have "to_socks_ok ?s" using w(4) assms(2) by (simp add: to_socks_ok_def same_but_writing_def Let_def)
  moreover have "to_client_ok ?s"
    using w(1,2,3,6) assms(2-5) unfolding to_client_ok_def Let_def same_but_writing_def unsent_def
    by (cases "tc_recv_buf_used c' = - 1") simp_all
  moreover have "sides_ok ?s" using w(1,2,5) assms(2,4,6) unfolding sides_ok_def sides0_def Let_def same_but_writing_def by simp
  ultimately show ?thesis by (simp add: tc_ok_def)
qed

lemma tc_handle_append:
  "tc_handle (c, xs @ ys) s = Option.bind (tc_handle (c, xs) s) (tc_perform ys)"
  by (simp add: tc_handle_def tc_perform_append)

text \<open>Writing out, and receiving more where everything was written.\<close>

lemma send_out_then_receive:
  assumes w: "writing c s" and r: "client_socks_recv_send_out an c = (c', calls, aborted)" and f: "\<not> ty_socks s \<Longrightarrow> ty_socks_failed s"
  defines "again \<equiv> (if \<not> aborted \<and> tc_recv_buf_used c' = - 1 \<and> ty_socks s then client_socks_recv_initiate c' else [])"
  shows "\<exists>s'. tc_handle (c', calls @ again) s = Some s' \<and> tc_ok s' \<and> (\<not> aborted \<longrightarrow> same_but_writing c c')"
proof (cases aborted)
  case True
  then show ?thesis using send_out_ok [OF w r] by (simp add: again_def)
next
  case False
  obtain v where v: "tc_handle (c', calls) s = Some (s\<lparr>ty_client := c', ty_written := ty_written s @ v\<rparr>)" "same_but_writing c c'"
    "tc_recv_tcp_pending c' = int (length (ty_written s @ v)) - int (ty_acked s)" "0 < tc_recv_tcp_pending c'"
    "if tc_recv_buf_used c' = - 1 then ty_from_socks s = ty_written s @ v
       else 0 \<le> tc_recv_buf_sent c' \<and> tc_recv_buf_sent c' < tc_recv_buf_used c' \<and> tc_recv_buf_used c' \<le> int (length (tc_recv_buf c')) \<and>
            tc_recv_waiting c' \<and> ty_from_socks s = (ty_written s @ v) @ unsent c'"
    using send_out_ok [OF w r] unfolding if_not_P [OF False] by (elim exE conjE) (rule that)
  let ?s = "s\<lparr>ty_client := c', ty_written := ty_written s @ v, ty_recv := (tc_recv_buf_used c' = - 1 \<and> ty_socks s)\<rparr>"
  have u: "ty_pcb s" "tc_socks_up c'" "\<not> ty_recv s" "tc_recv_buf c' \<noteq> []" using w v(2) by (auto simp: writing_def same_but_writing_def)
  have "tc_handle (c', calls @ again) s = Some ?s"
    using v(1) u False by (cases s) (simp add: tc_handle_append again_def client_socks_recv_initiate_def)
  then show ?thesis using written_state_ok [OF w v(2-5) f] v(2) by simp
qed

lemma recv_done_ok:
  assumes "tc_ok s" "ty_recv s" "data \<noteq> []" "length data \<le> length (tc_recv_buf (ty_client s))"
  shows "\<exists>s'. tc_job_step (Job_Received data an) s = Some s' \<and> tc_ok s'"
proof -
  let ?c = "(ty_client s)\<lparr>tc_recv_buf := put_at 0 data (tc_recv_buf (ty_client s))\<rparr>"
  let ?s = "s\<lparr>ty_recv := False, ty_from_socks := ty_from_socks s @ data\<rparr>"
  have i: "to_socks_ok s" "to_client_ok s" "sides_ok s" using assms(1) by (simp_all add: tc_ok_def)
  have u: "ty_socks s" "tc_socks_up (ty_client s)" "tc_recv_buf_used (ty_client s) = - 1"
    using i(2) assms(2) by (auto simp: to_client_ok_def Let_def)
  have step: "tc_job_step (Job_Received data an) s = tc_handle (client_socks_recv_handler_done an (length data) ?c) ?s"
    using assms by simp
  show ?thesis
  proof (cases "tc_client_closed (ty_client s)")
    case True
    have e: "tc_job_step (Job_Received data an) s = Some (?s\<lparr>ty_client := ?c\<rparr>)"
      using True unfolding step by (simp add: client_socks_recv_handler_done_def tc_handle_def)
    have "ty_client_failed s" "\<not> ty_pcb s" using i(3) True u(1) by (auto simp: sides_ok_def Let_def)
    moreover have "tc_recv_buf (ty_client s) \<noteq> []" "ty_acked s \<le> length (ty_written s)"
      and r: "\<exists>rest. ty_from_socks s = ty_written s @ rest" using i(2) unfolding to_client_ok_def Let_def by blast+
    moreover have "\<exists>rest. ty_from_socks s @ data = ty_written s @ rest" using r by (metis append.assoc)
    ultimately have "to_client_ok (?s\<lparr>ty_client := ?c\<rparr>)"
      using u(2) assms(3,4) by (simp add: to_client_ok_def put_at_def)
    moreover have "to_socks_ok (?s\<lparr>ty_client := ?c\<rparr>)" using i(1) by (simp add: to_socks_ok_def Let_def)
    moreover have "sides_ok (?s\<lparr>ty_client := ?c\<rparr>)" using i(3) by (simp add: sides_ok_def Let_def)
    ultimately show ?thesis using e by (simp add: tc_ok_def)
  next
    case False
    let ?c1 = "?c\<lparr>tc_recv_buf_used := int (length data), tc_recv_buf_sent := 0, tc_recv_waiting := False\<rparr>"
    obtain c' calls aborted where r: "client_socks_recv_send_out an ?c1 = (c', calls, aborted)" by (metis prod_cases3)
    have p: "ty_pcb s" "\<not> ty_freed s" using i(3) False by (auto simp: sides_ok_def Let_def)
    have t: "ty_acked s \<le> length (ty_written s)" "ty_from_socks s = ty_written s"
      "tc_recv_tcp_pending (ty_client s) = int (length (ty_written s)) - int (ty_acked s)"
      using i(2) p(1) u(2,3) unfolding to_client_ok_def Let_def by simp_all
    have "to_socks_ok (?s\<lparr>ty_client := ?c1\<rparr>)" using i(1) by (simp add: to_socks_ok_def Let_def)
    moreover have "sides0 (?s\<lparr>ty_client := ?c1\<rparr>)" using sides_ok_open [OF i(3) p(2)] by (simp add: sides0_def Let_def)
    ultimately have w: "writing ?c1 ?s" using p(1) u(2) t assms(3,4) by (simp add: writing_def unsent_def)
    have "\<not> ty_socks ?s \<Longrightarrow> ty_socks_failed ?s" using u(1) by simp
    from send_out_then_receive [OF w r this] obtain s' where
      s': "tc_handle (c', calls @ (if \<not> aborted \<and> tc_recv_buf_used c' = - 1 \<and> ty_socks ?s then client_socks_recv_initiate c' else [])) ?s = Some s'"
      "tc_ok s'" by blast
    have "client_socks_recv_handler_done an (length data) ?c =
        (c', calls @ (if \<not> aborted \<and> tc_recv_buf_used c' = - 1 \<and> ty_socks ?s then client_socks_recv_initiate c' else []))"
      using False r u(1) by (simp add: client_socks_recv_handler_done_def)
    then show ?thesis using step s' by simp
  qed
qed

section \<open>Sending to SOCKS\<close>

lemma tc_okD: "tc_ok s \<Longrightarrow> to_socks_ok s" "tc_ok s \<Longrightarrow> to_client_ok s" "tc_ok s \<Longrightarrow> sides_ok s"
  by (simp_all add: tc_ok_def)

lemma to_socksD:
  assumes "to_socks_ok s"
  shows "tc_buf_used (ty_client s) \<le> length (tc_buf (ty_client s))"
    and "ty_from_client s = ty_to_socks s @ take (tc_buf_used (ty_client s)) (tc_buf (ty_client s))"
    and "ty_pcb s \<Longrightarrow> ty_recved s = length (ty_to_socks s)"
    and "ty_send s = Some m \<Longrightarrow> ty_socks s \<and> tc_socks_up (ty_client s) \<and> 0 < m \<and> m \<le> tc_buf_used (ty_client s)"
    and "ty_send s = None \<Longrightarrow> ty_socks s \<Longrightarrow> tc_socks_up (ty_client s) \<Longrightarrow> tc_buf_used (ty_client s) = 0"
  using assms by (auto simp: to_socks_ok_def Let_def)

lemma to_clientD:
  assumes "to_client_ok s"
  shows "tc_recv_buf (ty_client s) \<noteq> []" "ty_acked s \<le> length (ty_written s)"
    and "ty_recv s \<Longrightarrow> ty_socks s \<and> tc_socks_up (ty_client s) \<and> tc_recv_buf_used (ty_client s) = - 1"
    and "\<exists>rest. ty_from_socks s = ty_written s @ rest"
    and "\<not> tc_socks_up (ty_client s) \<Longrightarrow> ty_from_socks s = [] \<and> ty_written s = [] \<and> ty_acked s = 0"
    and "\<not> ty_pcb s \<Longrightarrow> \<not> ty_client_failed s \<Longrightarrow> ty_written s = ty_from_socks s \<and> ty_acked s = length (ty_written s)"
proof -
  show "tc_recv_buf (ty_client s) \<noteq> []" and a: "ty_acked s \<le> length (ty_written s)"
    and "ty_recv s \<Longrightarrow> ty_socks s \<and> tc_socks_up (ty_client s) \<and> tc_recv_buf_used (ty_client s) = - 1"
    and r: "\<exists>rest. ty_from_socks s = ty_written s @ rest"
    and "\<not> ty_pcb s \<Longrightarrow> \<not> ty_client_failed s \<Longrightarrow> ty_written s = ty_from_socks s \<and> ty_acked s = length (ty_written s)"
    using assms unfolding to_client_ok_def Let_def by blast+
  have "\<not> tc_socks_up (ty_client s) \<Longrightarrow> ty_from_socks s = []" using assms unfolding to_client_ok_def Let_def by blast
  then show "\<not> tc_socks_up (ty_client s) \<Longrightarrow> ty_from_socks s = [] \<and> ty_written s = [] \<and> ty_acked s = 0" using a r by auto
qed

text \<open>Fields that do not matter for a side.\<close>

lemma to_client_cong:
  assumes "tc_recv_buf c = tc_recv_buf (ty_client s)" "tc_recv_buf_used c = tc_recv_buf_used (ty_client s)"
    "tc_recv_buf_sent c = tc_recv_buf_sent (ty_client s)" "tc_recv_waiting c = tc_recv_waiting (ty_client s)"
    "tc_recv_tcp_pending c = tc_recv_tcp_pending (ty_client s)" "tc_socks_up c = tc_socks_up (ty_client s)"
  shows "to_client_ok (s\<lparr>ty_send := sd, ty_to_socks := ts, ty_recved := rc, ty_client := c\<rparr>) = to_client_ok s"
  using assms by (simp add: to_client_ok_def Let_def)

lemma sent_done_ok:
  assumes ok: "tc_ok s" and m: "ty_send s = Some m" "0 < n" "n \<le> m"
  shows "\<exists>s'. tc_job_step (Job_Sent n an) s = Some s' \<and> tc_ok s'"
proof -
  let ?c0 = "ty_client s"
  note t = to_socksD [OF tc_okD(1) [OF ok]] and sd = tc_okD(3) [OF ok]
  have u: "ty_socks s" "tc_socks_up ?c0" "n \<le> tc_buf_used ?c0" using t(4) [OF m(1)] m(3) by auto
  have nf: "\<not> ty_freed s" using sd u(1) by (auto simp: sides_ok_def Let_def)
  define rest where "rest = get_at n (tc_buf_used ?c0 - n) (tc_buf ?c0)"
  define c where "c = ?c0\<lparr>tc_buf := put_at 0 rest (tc_buf ?c0), tc_buf_used := tc_buf_used ?c0 - n\<rparr>"
  define s1 where "s1 = s\<lparr>ty_send := None, ty_to_socks := ty_to_socks s @ take n (tc_buf ?c0),
      ty_recved := (if ty_pcb s then ty_recved s + n else ty_recved s)\<rparr>"
  have lr: "length rest = tc_buf_used ?c0 - n" using t(1) u(3) by (simp add: rest_def)
  have eq: "take (tc_buf_used ?c0) (tc_buf ?c0) = take n (tc_buf ?c0) @ rest"
    using u(3) take_add [of n "tc_buf_used ?c0 - n" "tc_buf ?c0"] by (simp add: rest_def get_at_def)
  have c: "tc_buf_used c = tc_buf_used ?c0 - n" "take (tc_buf_used c) (tc_buf c) = rest" "length (tc_buf c) = length (tc_buf ?c0)"
    "tc_client_closed c = tc_client_closed ?c0" "tc_socks_closed c = tc_socks_closed ?c0" "tc_socks_up c"
    using lr t(1) u(2) by (simp_all add: c_def put_at_def)
  have from_client: "ty_from_client s = (ty_to_socks s @ take n (tc_buf ?c0)) @ take (tc_buf_used c) (tc_buf c)" using t(2) eq c(2) by simp
  have "tc_buf_used ?c0 - n \<le> length (tc_buf ?c0)" using t(1) by simp
  then have ts: "to_socks_ok (s1\<lparr>ty_send := (if tc_buf_used c > 0 then Some (tc_buf_used c) else None), ty_client := c\<rparr>)"
    using from_client t(1,3) u(1,3) c(1,3,6) by (simp add: to_socks_ok_def s1_def Let_def)
  have "s1\<lparr>ty_send := z, ty_client := c\<rparr> = s\<lparr>ty_send := z, ty_to_socks := ty_to_socks s @ take n (tc_buf ?c0),
      ty_recved := (if ty_pcb s then ty_recved s + n else ty_recved s), ty_client := c\<rparr>" for z
    by (cases s) (simp add: s1_def)
  then have tcl: "to_client_ok (s1\<lparr>ty_send := z, ty_client := c\<rparr>)" for z
    using tc_okD(2) [OF ok] by (simp add: to_client_cong c_def)
  have sd1: "sides0 (s1\<lparr>ty_send := z, ty_client := c\<rparr>)" for z
    using sides_ok_open [OF sd nf] by (simp add: s1_def c_def sides0_def Let_def)
  have conf: "tc_job_step (Job_Sent n an) s =
      tc_handle (if tc_buf_used c > 0 then (c, [Tc_Send (tc_buf_used c)])
        else if tc_client_closed c then client_free_socks an c else (c, [])) s1"
  proof -
    have "ty_recved s + n \<le> length (ty_from_client s)" if "ty_pcb s" using that t(1,2,3) u(3) by simp
    moreover have "ty_pcb s = (\<not> tc_client_closed ?c0)" using sd by (simp add: sides_ok_def Let_def)
    moreover have "s\<lparr>ty_send := None, ty_to_socks := ty_to_socks s @ take n (tc_buf ?c0), ty_client := x, ty_recved := ty_recved s + n\<rparr> =
        s\<lparr>ty_send := None, ty_to_socks := ty_to_socks s @ take n (tc_buf ?c0), ty_recved := ty_recved s + n, ty_client := x\<rparr>" for x
      by (cases s) simp
    moreover have "client_socks_send_handler_done an n ?c0 =
        (let r = (if tc_buf_used c > 0 then (c, [Tc_Send (tc_buf_used c)]) else if tc_client_closed c then client_free_socks an c else (c, []))
         in (fst r, (if tc_client_closed c then [] else [Tc_tcp_recved n]) @ snd r))"
      unfolding client_socks_send_handler_done_def Let_def rest_def [symmetric] c_def [symmetric] by (simp add: split_def)
    ultimately show ?thesis using m c(4) by (simp add: Let_def s1_def tc_handle_def)
  qed
  have s1: "sides_ok (s1\<lparr>ty_send := z, ty_client := c\<rparr>)" if "tc_buf_used c > 0 \<or> \<not> tc_client_closed c" for z
    using sd that u(1) c(1,4,5,6) by (auto simp: s1_def c_def sides_ok_def Let_def)
  show ?thesis
  proof (cases "tc_buf_used c > 0 \<or> \<not> tc_client_closed c")
    case True
    let ?s = "s1\<lparr>ty_send := (if tc_buf_used c > 0 then Some (tc_buf_used c) else None), ty_client := c\<rparr>"
    have "tc_job_step (Job_Sent n an) s = Some ?s"
      unfolding conf using True u(1) c(1,3,6) t(1) by (cases s) (auto simp: tc_handle_def s1_def)
    then show ?thesis using ts tcl s1 [OF True] by (simp add: tc_ok_def)
  next
    case False
    moreover have e: "s1\<lparr>ty_send := None, ty_client := c\<rparr> = s1\<lparr>ty_client := c\<rparr>" by (simp add: s1_def)
    moreover have "to_socks_ok (s1\<lparr>ty_client := c\<rparr>)" using ts False e by simp
    moreover have "ty_socks s1" using u(1) by (simp add: s1_def)
    ultimately have "\<exists>s'. tc_handle (client_free_socks an c) s1 = Some s' \<and> tc_ok s'"
      using tcl [of None] sd1 [of None] unfolding e by (intro free_socks_ok) simp_all
    then show ?thesis unfolding conf using False by simp
  qed
qed

section \<open>Events\<close>

lemma socks_down_ok:
  assumes ok: "tc_ok s" and "ty_socks s"
  shows "\<exists>s'. tc_handle (client_free_socks an (ty_client s)) (s\<lparr>ty_socks_failed := True\<rparr>) = Some s' \<and> tc_ok s'"
proof (rule free_socks_ok)
  let ?s = "s\<lparr>ty_socks_failed := True, ty_client := ty_client s\<rparr>"
  show "to_socks_ok ?s" using tc_okD(1) [OF ok] by (simp add: to_socks_ok_def Let_def)
  have "to_client_ok ?s = to_client_ok s" by (simp add: to_client_ok_def)
  then show "to_client_ok ?s" using tc_okD(2) [OF ok] by simp
  have "\<not> ty_freed s" using tc_okD(3) [OF ok] assms(2) by (auto simp: sides_ok_def Let_def)
  from sides_ok_open [OF tc_okD(3) [OF ok] this] show "sides0 ?s" by (simp add: sides0_def Let_def)
qed (use assms in simp_all)

lemma socks_up_ok:
  assumes ok: "tc_ok s" and "ty_socks s" "\<not> tc_socks_up (ty_client s)"
  shows "\<exists>s'. tc_handle (client_socks_handler an BSOCKSCLIENT_EVENT_UP (ty_client s)) s = Some s' \<and> tc_ok s'"
proof -
  let ?c = "(ty_client s)\<lparr>tc_recv_buf_used := - 1, tc_recv_tcp_pending := 0, tc_socks_up := True\<rparr>"
  let ?s = "s\<lparr>ty_client := ?c, ty_cb_sent := ty_pcb s, ty_send := (if tc_buf_used ?c > 0 then Some (tc_buf_used ?c) else None), ty_recv := ty_pcb s\<rparr>"
  note t = tc_okD(1) [OF ok] and u = tc_okD(2) [OF ok] and v = tc_okD(3) [OF ok]
  have sd: "ty_pcb s = (\<not> tc_client_closed (ty_client s))" "\<not> ty_cb_sent s" "\<not> tc_socks_closed (ty_client s)"
    using v assms(2,3) by (auto simp: sides_ok_def Let_def)
  have e: "ty_send s = None" "\<not> ty_recv s" "tc_buf_used (ty_client s) \<le> length (tc_buf (ty_client s))" "tc_recv_buf (ty_client s) \<noteq> []"
    "ty_from_socks s = []" "ty_written s = []" "ty_acked s = 0"
    using to_socksD(1,4) [OF t] to_clientD [OF u] assms(3) by (cases "ty_send s"; auto)+
  have "tc_handle (client_socks_handler an BSOCKSCLIENT_EVENT_UP (ty_client s)) s = Some ?s"
    using sd e(1-4) assms(2)
    by (cases s) (auto simp: client_socks_handler_def Let_def client_send_to_socks_def client_socks_recv_initiate_def tc_handle_def)
  moreover have "to_socks_ok ?s" using t assms(2) e(3) by (simp add: to_socks_ok_def Let_def)
  moreover have "to_client_ok ?s" using e assms(2) sd u by (simp add: to_client_ok_def Let_def)
  moreover have "sides_ok ?s" using v assms(2) sd by (simp add: sides_ok_def Let_def)
  ultimately show ?thesis by (simp add: tc_ok_def)
qed

lemma job_step_ok: "tc_ok s \<Longrightarrow> \<exists>s'. tc_job_step j s = Some s' \<and> tc_ok s'"
proof (cases j)
  case (Job_Socks e an)
  assume ok: "tc_ok s"
  have "s\<lparr>ty_socks_failed := ty_socks_failed s\<rparr> = s" by simp
  then show ?thesis
    using Job_Socks ok socks_down_ok [OF ok, of an] socks_up_ok [OF ok, of an]
    by (cases e) (auto simp: client_socks_handler_def)
next
  case (Job_Sent n an)
  assume ok: "tc_ok s"
  show ?thesis
  proof (cases "\<exists>m. ty_send s = Some m \<and> 0 < n \<and> n \<le> m")
    case True
    then show ?thesis unfolding Job_Sent using sent_done_ok [OF ok] by blast
  qed (use ok Job_Sent in \<open>auto split: option.splits\<close>)
next
  case (Job_Received data an)
  assume ok: "tc_ok s"
  show ?thesis
  proof (cases "ty_recv s \<and> data \<noteq> [] \<and> length data \<le> length (tc_recv_buf (ty_client s))")
    case True
    then show ?thesis unfolding Job_Received using recv_done_ok [OF ok] by blast
  qed (use ok Job_Received in auto)
qed

lemma jobs_ok: "tc_ok s \<Longrightarrow> \<exists>s'. tc_jobs js s = Some s' \<and> tc_ok s'"
proof (induction js arbitrary: s)
  case (Cons j js)
  then show ?case using job_step_ok [OF Cons.prems, of j] by fastforce
qed simp

lemma tc_do_keeps: "tc_do c s = Some s' \<Longrightarrow> ty_client s' = ty_client s \<and> (c \<noteq> Tc_pbuf_free \<longrightarrow> ty_pbufs s' = ty_pbufs s)"
  by (cases c) (auto split: if_splits)

lemma tc_perform_keeps:
  "tc_perform cs s = Some s' \<Longrightarrow> ty_client s' = ty_client s \<and> (Tc_pbuf_free \<notin> set cs \<longrightarrow> ty_pbufs s' = ty_pbufs s)"
proof (induction cs arbitrary: s)
  case (Cons c cs)
  then obtain s1 where "tc_do c s = Some s1" "tc_perform cs s1 = Some s'" by (auto split: bind_splits)
  then show ?case using tc_do_keeps [of c s s1] Cons.IH [of s1] by auto
qed simp

lemma tc_handle_client: "tc_handle r s = Some s' \<Longrightarrow> ty_client s' = fst r"
  using tc_perform_keeps [of "snd r" "s\<lparr>ty_client := fst r\<rparr>" s'] by (simp add: tc_handle_def)

lemma tc_handle_pbufs: "tc_handle r s = Some s' \<Longrightarrow> Tc_pbuf_free \<notin> set (snd r) \<Longrightarrow> ty_pbufs s' = ty_pbufs s"
  using tc_perform_keeps [of "snd r" "s\<lparr>ty_client := fst r\<rparr>" s'] by (simp add: tc_handle_def)

lemma no_pbuf_close:
  "Tc_pbuf_free \<notin> set (snd (client_handle_freed_client an c))"
  "Tc_pbuf_free \<notin> set (snd (client_free_socks an c))"
  "Tc_pbuf_free \<notin> set (snd (client_abort_client an c))"
  by (simp_all add: handle_freed_eq client_abort_client_def Let_def split_def callbacks_off_def)
     (cases "tc_client_closed c", simp_all add: free_socks_closed free_socks_open callbacks_off_def)

lemma no_pbuf_loop: "send_out_loop an c = (c', calls, f) \<Longrightarrow> Tc_pbuf_free \<notin> set calls"
  by (induction an c arbitrary: c' calls f rule: send_out_loop.induct) (fastforce simp: Let_def split: if_splits prod.splits)+

lemma no_pbuf_send_out: "client_socks_recv_send_out an c = (c', calls, ab) \<Longrightarrow> Tc_pbuf_free \<notin> set calls \<and> (ab \<longrightarrow> tc_client_closed c')"
proof -
  assume r: "client_socks_recv_send_out an c = (c', calls, ab)"
  obtain c1 writes f where l: "send_out_loop (an_writes an) c = (c1, writes, f)" by (metis prod_cases3)
  obtain ca cl where a: "client_abort_client an c1 = (ca, cl)" by fastforce
  have "Tc_pbuf_free \<notin> set cl" "tc_client_closed ca"
    using a no_pbuf_close(3) [of an c1] by (auto simp: client_abort_client_def Let_def split_def handle_freed_eq split: if_splits)
  then show ?thesis
    using r l a no_pbuf_loop [OF l] by (auto simp: client_socks_recv_send_out_def split: if_splits)
qed

lemma no_pbuf_job:
  "Tc_pbuf_free \<notin> set (snd (client_socks_handler an e c))"
  "Tc_pbuf_free \<notin> set (snd (client_socks_send_handler_done an n c))"
  "Tc_pbuf_free \<notin> set (snd (client_socks_recv_handler_done an n c))"
proof -
  show "Tc_pbuf_free \<notin> set (snd (client_socks_handler an e c))"
    using no_pbuf_close(2) by (cases e) (simp_all add: client_socks_handler_def Let_def client_send_to_socks_def client_socks_recv_initiate_def)
  show "Tc_pbuf_free \<notin> set (snd (client_socks_send_handler_done an n c))"
    using no_pbuf_close(2) by (simp add: client_socks_send_handler_done_def Let_def split_def)
  show "Tc_pbuf_free \<notin> set (snd (client_socks_recv_handler_done an n c))"
    using no_pbuf_send_out
    by (auto simp: client_socks_recv_handler_done_def Let_def client_socks_recv_initiate_def split: prod.splits if_splits)
qed

lemma job_pbufs: "tc_job_step j s = Some s' \<Longrightarrow> ty_pbufs s' = ty_pbufs s"
  by (cases j) (auto dest!: tc_handle_pbufs simp: no_pbuf_job split: if_splits option.splits)

lemma jobs_pbufs: "tc_jobs js s = Some s' \<Longrightarrow> ty_pbufs s' = ty_pbufs s"
proof (induction js arbitrary: s)
  case (Cons j js)
  then show ?case using job_pbufs by (auto split: bind_splits)
qed simp

text \<open>What a callback leaves behind: the invariant, and \<^verbatim>\<open>ERR_ABRT\<close> exactly when the connection is gone.\<close>

definition returned_ok :: "(tc_sys \<times> tcp_err) option \<Rightarrow> bool" where
  "returned_ok r = (case r of None \<Rightarrow> False | Some (s, err) \<Rightarrow> tc_ok s \<and> (err = ERR_ABRT) = (\<not> ty_pcb s))"

lemma tc_pcb: "tc_ok s \<Longrightarrow> ty_pcb s = (\<not> tc_client_closed (ty_client s))"
  by (auto simp: tc_ok_def sides_ok_def Let_def)

lemma callback_returns:
  assumes "\<exists>s'. tc_handle (c, calls) s = Some s' \<and> tc_ok s'" "(err = ERR_ABRT) = tc_client_closed c"
  shows "returned_ok (tc_callback (c, calls, Some err, f) jobs finish s)"
  using assms tc_handle_client [of "(c, calls)" s] by (auto simp: tc_callback_def returned_ok_def tc_pcb)

lemma callback_syncs:
  assumes "tc_handle (c, calls) s = Some s1" "tc_ok s1" "\<not> tc_client_closed c"
    and "\<And>s2. tc_ok s2 \<Longrightarrow> ty_pbufs s2 = ty_pbufs s1 \<Longrightarrow> sync \<or> s2 = s1 \<Longrightarrow>
      (case finish sync (ty_client s2) of (cs, err) \<Rightarrow> returned_ok (map_option (\<lambda>s. (s, err)) (tc_perform cs s2)))"
  shows "returned_ok (tc_callback (c, calls, None, sync) jobs finish s)"
proof (cases sync)
  case True
  obtain s2 where s2: "tc_jobs jobs s1 = Some s2" "tc_ok s2" using jobs_ok [OF assms(2)] by blast
  then show ?thesis using assms(1) assms(4) [of s2] jobs_pbufs [OF s2(1)] True by (auto simp: tc_callback_def)
next
  case False
  then show ?thesis using assms(1,2) assms(4) [of s1] by (auto simp: tc_callback_def)
qed

lemma pbuf_irrelevant: "tc_ok (s\<lparr>ty_pbufs := n\<rparr>) = tc_ok s"
  by (simp add: tc_ok_def to_socks_ok_def to_client_ok_def sides_ok_def)

lemma recv_finish:
  assumes "tc_ok s" "0 < ty_pbufs s" "\<not> sync \<Longrightarrow> \<not> tc_client_closed (ty_client s)"
  shows "case client_recv_func_2 sync (ty_client s) of (cs, err) \<Rightarrow> returned_ok (map_option (\<lambda>s. (s, err)) (tc_perform cs s))"
  using assms tc_pcb [OF assms(1)] by (auto simp: client_recv_func_2_def returned_ok_def pbuf_irrelevant)

lemma accept_data_ok:
  assumes ok: "tc_ok s" and "ty_pcb s" "ty_cb_recv s" "data \<noteq> []" "length data \<le> length (tc_buf (ty_client s)) - tc_buf_used (ty_client s)"
  defines "c \<equiv> (ty_client s)\<lparr>tc_buf := put_at (tc_buf_used (ty_client s)) data (tc_buf (ty_client s)),
                            tc_buf_used := tc_buf_used (ty_client s) + length data\<rparr>"
  defines "s0 \<equiv> s\<lparr>ty_from_client := ty_from_client s @ data, ty_pbufs := ty_pbufs s + 1\<rparr>"
  defines "first \<equiv> tc_buf_used (ty_client s) = 0 \<and> tc_socks_up (ty_client s)"
  shows "\<exists>s1. tc_handle (c, if first then client_send_to_socks c else []) s0 = Some s1 \<and> tc_ok s1 \<and> ty_pbufs s1 = ty_pbufs s + 1"
proof -
  let ?c0 = "ty_client s"
  note t = to_socksD [OF tc_okD(1) [OF ok]]
  have sk: "ty_socks s" using tc_okD(3) [OF ok] assms(2,3) by (auto simp: sides_ok_def Let_def)
  define s1 where "s1 = s0\<lparr>ty_client := c, ty_send := (if first then Some (tc_buf_used c) else ty_send s)\<rparr>"
  have c: "tc_buf_used c = tc_buf_used ?c0 + length data" "length (tc_buf c) = length (tc_buf ?c0)" "tc_socks_up c = tc_socks_up ?c0"
    "take (tc_buf_used c) (tc_buf c) = take (tc_buf_used ?c0) (tc_buf ?c0) @ data"
    using assms(5) t(1) by (simp_all add: c_def put_at_def)
  have n: "ty_send s = None" if first using that t(4) by (cases "ty_send s") (auto simp: first_def)
  have "tc_handle (c, if first then client_send_to_socks c else []) s0 = Some s1"
    using n sk c(1-3) assms(4,5) t(1) by (cases s) (auto simp: tc_handle_def client_send_to_socks_def s1_def s0_def first_def)
  moreover have "to_socks_ok s1"
    using t(1-3) t(4) t(5) [OF _ sk] sk c assms(4,5) n tc_okD(1) [OF ok]
    unfolding s1_def s0_def to_socks_ok_def Let_def first_def by (cases "ty_send s") auto
  moreover have "to_client_ok s1 = to_client_ok s" by (simp add: s1_def s0_def c_def to_client_ok_def Let_def)
  moreover have "sides_ok s1" using tc_okD(3) [OF ok] sk assms(2) by (simp add: s1_def s0_def c_def sides_ok_def Let_def)
  ultimately show ?thesis using tc_okD(2) [OF ok] by (simp add: tc_ok_def s1_def s0_def)
qed

lemma free_client_closes: "tc_client_closed (fst (client_free_client an c))"
  by (simp add: free_client_eq handle_freed_eq)

lemma recv_event_ok:
  assumes ok: "tc_ok s" and "ty_pcb s" "ty_cb_recv s" "p \<noteq> Some []"
  shows "returned_ok (tc_recv_event p an jobs s)"
proof (cases p)
  case None
  let ?s = "s\<lparr>ty_client_failed := True\<rparr>"
  have nf: "\<not> ty_freed s" using tc_okD(3) [OF ok] assms(2) by (auto simp: sides_ok_def Let_def)
  have "to_socks_ok (?s\<lparr>ty_client := ty_client s\<rparr>) = to_socks_ok s" "sides0 (?s\<lparr>ty_client := ty_client s\<rparr>) = sides0 s"
    by (simp_all add: to_socks_ok_def sides0_def)
  moreover have "to_client_ok (?s\<lparr>ty_client := ty_client s\<rparr>) = to_client_ok s"
    using assms(2) by (simp add: to_client_ok_def)
  ultimately have "\<exists>s'. tc_handle (client_free_client an (ty_client s)) ?s = Some s' \<and> tc_ok s'"
    using tc_okD(1,2) [OF ok] sides_ok_open [OF tc_okD(3) [OF ok] nf] assms(2) by (intro free_client_ok) simp_all
  moreover have "client_recv_func_1 an None (ty_client s) =
      (fst (client_free_client an (ty_client s)), snd (client_free_client an (ty_client s)), Some ERR_ABRT, False)"
    by (simp add: client_recv_func_1_def split_def Let_def)
  ultimately show ?thesis
    using callback_returns [of "fst (client_free_client an (ty_client s))" "snd (client_free_client an (ty_client s))" ?s ERR_ABRT] free_client_closes
    by (simp add: tc_recv_event_def None)
next
  case (Some data)
  have op: "\<not> tc_client_closed (ty_client s)" using tc_pcb [OF ok] assms(2) by simp
  show ?thesis
  proof (cases "length data > length (tc_buf (ty_client s)) - tc_buf_used (ty_client s)")
    case True
    then have "client_recv_func_1 an p (ty_client s) = (ty_client s, [], Some ERR_MEM, False)" by (simp add: client_recv_func_1_def Some)
    moreover have "tc_handle (ty_client s, []) s = Some s" by (simp add: tc_handle_def)
    ultimately show ?thesis using callback_returns [of "ty_client s" "[]" s ERR_MEM] ok op by (simp add: tc_recv_event_def Some)
  next
    case False
    let ?c = "(ty_client s)\<lparr>tc_buf := put_at (tc_buf_used (ty_client s)) data (tc_buf (ty_client s)),
                            tc_buf_used := tc_buf_used (ty_client s) + length data\<rparr>"
    let ?first = "tc_buf_used (ty_client s) = 0 \<and> tc_socks_up (ty_client s)"
    let ?s0 = "s\<lparr>ty_from_client := ty_from_client s @ data, ty_pbufs := ty_pbufs s + 1\<rparr>"
    obtain s1 where s1: "tc_handle (?c, if ?first then client_send_to_socks ?c else []) ?s0 = Some s1" "tc_ok s1" "ty_pbufs s1 = ty_pbufs s + 1"
      using accept_data_ok [OF ok assms(2,3), of data] False assms(4) Some by auto
    have "client_recv_func_1 an p (ty_client s) = (?c, if ?first then client_send_to_socks ?c else [], None, ?first)"
      using False by (simp add: client_recv_func_1_def Some Let_def)
    moreover have "returned_ok (tc_callback (?c, if ?first then client_send_to_socks ?c else [], None, ?first) jobs client_recv_func_2 ?s0)"
    proof (rule callback_syncs [OF s1(1,2)])
      fix s2
      assume "tc_ok s2" "ty_pbufs s2 = ty_pbufs s1" "?first \<or> s2 = s1"
      moreover have "ty_client s1 = ?c" using tc_handle_client [OF s1(1)] by simp
      ultimately show "case client_recv_func_2 ?first (ty_client s2) of (cs, err) \<Rightarrow> returned_ok (map_option (\<lambda>s. (s, err)) (tc_perform cs s2))"
        using s1(3) op by (intro recv_finish) auto
    qed (use op in simp)
    ultimately show ?thesis by (simp add: tc_recv_event_def Some)
  qed
qed

lemma to_client_up:
  assumes "to_client_ok s" "ty_pcb s" "tc_socks_up (ty_client s)"
  shows "tc_recv_tcp_pending (ty_client s) = int (length (ty_written s)) - int (ty_acked s)"
    and "tc_recv_buf_used (ty_client s) = - 1 \<Longrightarrow> ty_from_socks s = ty_written s \<and> ty_recv s = ty_socks s"
    and "tc_recv_buf_used (ty_client s) \<noteq> - 1 \<Longrightarrow> 0 \<le> tc_recv_buf_sent (ty_client s) \<and>
      tc_recv_buf_sent (ty_client s) < tc_recv_buf_used (ty_client s) \<and> tc_recv_buf_used (ty_client s) \<le> int (length (tc_recv_buf (ty_client s))) \<and>
      ty_from_socks s = ty_written s @ unsent (ty_client s)"
  using assms unfolding to_client_ok_def Let_def unsent_def by (metis (no_types, lifting))+

lemma sent_finish:
  "tc_ok s \<Longrightarrow> (\<not> sync \<Longrightarrow> \<not> tc_client_closed (ty_client s)) \<Longrightarrow>
     case client_sent_func_2 sync (ty_client s) of (cs, err) \<Rightarrow> returned_ok (map_option (\<lambda>s. (s, err)) (tc_perform cs s))"
  by (auto simp: client_sent_func_2_def returned_ok_def tc_pcb)

lemma send_out_returns:
  assumes w: "writing c s" and r: "client_socks_recv_send_out an c = (c', calls, aborted)" and f: "\<not> ty_socks s \<Longrightarrow> ty_socks_failed s"
    and c: "\<not> tc_client_closed c" "ty_socks s = (\<not> tc_socks_closed c)"
  shows "returned_ok (tc_callback
    (if aborted then (c', calls, Some ERR_ABRT, False)
     else if tc_recv_buf_used c' = - 1 \<and> \<not> tc_socks_closed c' then (c', calls @ client_socks_recv_initiate c', None, True)
     else (c', calls, Some ERR_OK, False)) jobs client_sent_func_2 s)"
proof -
  let ?again = "if \<not> aborted \<and> tc_recv_buf_used c' = - 1 \<and> ty_socks s then client_socks_recv_initiate c' else []"
  obtain s1 where s1: "tc_handle (c', calls @ ?again) s = Some s1" "tc_ok s1" "\<not> aborted \<Longrightarrow> same_but_writing c c'"
    using send_out_then_receive [OF w r f] by blast
  show ?thesis
  proof (cases aborted)
    case True
    then show ?thesis using s1(1,2) no_pbuf_send_out [OF r] by (auto intro!: callback_returns)
  next
    case na: False
    have c': "\<not> tc_client_closed c'" "ty_socks s = (\<not> tc_socks_closed c')"
      using s1(3) [OF na] c by (simp_all add: same_but_writing_def)
    show ?thesis
    proof (cases "tc_recv_buf_used c' = - 1 \<and> \<not> tc_socks_closed c'")
      case True
      then have "tc_handle (c', calls @ client_socks_recv_initiate c') s = Some s1" using s1(1) na c'(2) by simp
      then have "returned_ok (tc_callback (c', calls @ client_socks_recv_initiate c', None, True) jobs client_sent_func_2 s)"
        using s1(2) c'(1) by (intro callback_syncs sent_finish) auto
      then show ?thesis using True na by simp
    next
      case False
      then have "tc_handle (c', calls) s = Some s1" using s1(1) na c'(2) by (simp split: if_splits)
      then have "returned_ok (tc_callback (c', calls, Some ERR_OK, False) jobs client_sent_func_2 s)"
        using s1(2) c'(1) by (intro callback_returns) auto
      then show ?thesis using False na by auto
    qed
  qed
qed

lemma sent_event_ok:
  assumes ok: "tc_ok s" and "ty_pcb s" "ty_cb_sent s" "0 < len" "ty_acked s + len \<le> length (ty_written s)"
  shows "returned_ok (tc_sent_event len an jobs s)"
proof -
  let ?s = "s\<lparr>ty_acked := ty_acked s + len\<rparr>" and ?c = "(ty_client s)\<lparr>tc_recv_tcp_pending := tc_recv_tcp_pending (ty_client s) - int len\<rparr>"
  have sd: "tc_socks_up ?c" "\<not> tc_client_closed ?c" "ty_socks s = (\<not> tc_socks_closed ?c)" "\<not> ty_freed s" "\<not> ty_socks s \<Longrightarrow> ty_socks_failed s"
    using tc_okD(3) [OF ok] assms(2,3) by (auto simp: sides_ok_def Let_def)
  have cl: "to_client_ok s" "ty_pcb s" "tc_socks_up (ty_client s)" using tc_okD(2) [OF ok] assms(2) sd(1) by simp_all
  note u = to_client_up [OF cl] and b = to_clientD(1,4) [OF cl(1)]
  have ts: "to_socks_ok (?s\<lparr>ty_client := x\<rparr>)" "sides0 (?s\<lparr>ty_client := x\<rparr>)" if x: "same_but_writing (ty_client s) x" for x
  proof -
    have "to_socks_ok (?s\<lparr>ty_client := x\<rparr>) = to_socks_ok s" "sides0 (?s\<lparr>ty_client := x\<rparr>) = sides0 s"
      using x by (simp_all add: to_socks_ok_def sides0_def Let_def same_but_writing_def)
    then show "to_socks_ok (?s\<lparr>ty_client := x\<rparr>)" "sides0 (?s\<lparr>ty_client := x\<rparr>)"
      using tc_okD(1) [OF ok] sides_ok_open [OF tc_okD(3) [OF ok] sd(4)] by simp_all
  qed
  have same: "same_but_writing (ty_client s) ?c" by (simp add: same_but_writing_def)
  show ?thesis
  proof (cases "tc_recv_buf_used ?c > 0")
    case True
    let ?c1 = "?c\<lparr>tc_recv_waiting := False\<rparr>"
    obtain c' calls aborted where r: "client_socks_recv_send_out an ?c1 = (c', calls, aborted)" by (metis prod_cases3)
    have "unsent ?c1 = unsent (ty_client s)" by (simp add: unsent_def)
    moreover have "\<not> ty_recv s" using to_clientD(3) [OF cl(1)] True by auto
    ultimately have w: "writing ?c1 ?s" using u True sd(1) assms(2,5) ts [of ?c1] by (simp add: writing_def same_but_writing_def)
    have f: "\<not> ty_socks ?s \<Longrightarrow> ty_socks_failed ?s" using sd(5) by simp
    have "client_sent_func_1 an len (ty_client s) =
        (if aborted then (c', calls, Some ERR_ABRT, False)
         else if tc_recv_buf_used c' = - 1 \<and> \<not> tc_socks_closed c' then (c', calls @ client_socks_recv_initiate c', None, True)
         else (c', calls, Some ERR_OK, False))"
      using True r by (simp add: client_sent_func_1_def Let_def)
    then show ?thesis using send_out_returns [OF w r f, of jobs] sd(2,3) by (simp add: tc_sent_event_def)
  next
    case False
    then have m1: "tc_recv_buf_used (ty_client s) = - 1" using u(3) by fastforce
    have rv: "ty_recv s = ty_socks s" "ty_from_socks s = ty_written s" using u(2) [OF m1] by auto
    have tcl: "to_client_ok (?s\<lparr>ty_client := ?c\<rparr>)"
      using b u(1) m1 rv sd(1) assms(2,5) by (simp add: to_client_ok_def)
    show ?thesis
    proof (cases "tc_socks_closed ?c \<and> tc_recv_tcp_pending ?c = 0")
      case True
      then have "\<exists>s'. tc_handle (client_free_client an ?c) ?s = Some s' \<and> tc_ok s'"
        using ts [OF same] tcl assms(2) sd(3) rv(2) u(1) by (intro free_client_ok) simp_all
      then have "returned_ok (tc_callback (fst (client_free_client an ?c), snd (client_free_client an ?c), Some ERR_ABRT, False) jobs client_sent_func_2 ?s)"
        using free_client_closes by (intro callback_returns) simp_all
      then show ?thesis using True False by (simp add: tc_sent_event_def client_sent_func_1_def Let_def split_def)
    next
      case more_: False
      have "sides_ok (?s\<lparr>ty_client := ?c\<rparr>)"
        using tc_okD(3) [OF ok] more_ u(1) assms(2,5) sd by (auto simp: sides_ok_def Let_def)
      then have "tc_handle (?c, []) ?s = Some (?s\<lparr>ty_client := ?c\<rparr>)" "tc_ok (?s\<lparr>ty_client := ?c\<rparr>)"
        using ts(1) [OF same] tcl by (simp_all add: tc_handle_def tc_ok_def)
      then have "returned_ok (tc_callback (?c, [], Some ERR_OK, False) jobs client_sent_func_2 ?s)"
        using sd(2) by (intro callback_returns) auto
      then show ?thesis using more_ False by (auto simp: tc_sent_event_def client_sent_func_1_def Let_def)
    qed
  qed
qed

lemma murder_ok:
  assumes ok: "tc_ok s" and "\<not> ty_freed s"
  shows "\<exists>s'. tc_handle (client_murder (ty_client s)) (s\<lparr>ty_client_failed := True, ty_socks_failed := True\<rparr>) = Some s' \<and> tc_ok s'"
proof -
  let ?s = "s\<lparr>ty_client_failed := True, ty_socks_failed := True, ty_pcb := False, ty_cb_err := False, ty_cb_recv := False, ty_cb_sent := False,
      ty_socks := False, ty_send := None, ty_recv := False, ty_freed := True,
      ty_client := (ty_client s)\<lparr>tc_client_closed := True, tc_socks_closed := True\<rparr>\<rparr>"
  have sd: "sides0 s" by (rule sides_ok_open [OF tc_okD(3) [OF ok] assms(2)])
  have fl: "ty_client s\<lparr>tc_client_closed := True\<rparr> = ty_client s" if "tc_client_closed (ty_client s)" using that by (cases "ty_client s") simp
  have sl: "x\<lparr>tc_socks_closed := True\<rparr> = x" if "tc_socks_closed x" for x :: tcp_client using that by (cases x) simp
  have "ty_send s = None" "\<not> ty_recv s" if "\<not> ty_socks s"
    using that to_socksD(4) [OF tc_okD(1) [OF ok]] to_clientD(3) [OF tc_okD(2) [OF ok]] by (cases "ty_send s"; auto)+
  then have "tc_handle (client_murder (ty_client s)) (s\<lparr>ty_client_failed := True, ty_socks_failed := True\<rparr>) = Some ?s"
    using sd assms(2) fl sl
    by (cases s; cases "tc_client_closed (ty_client s)"; cases "tc_socks_closed (ty_client s)")
       (simp_all add: client_murder_def client_dealloc_def callbacks_off_def tc_handle_def sides0_def Let_def)
  moreover have "to_socks_ok ?s" using tc_okD(1) [OF ok] by (simp add: to_socks_ok_def Let_def)
  moreover have "to_client_ok ?s" using to_clientD [OF tc_okD(2) [OF ok]] by (auto simp: to_client_ok_def Let_def)
  moreover have "sides_ok ?s" by (simp add: sides_ok_def)
  ultimately show ?thesis by (simp add: tc_ok_def)
qed

lemma tc_step_ok: "tc_ok s \<Longrightarrow> \<exists>s'. tc_step e s = Some s' \<and> tc_ok s'"
proof (cases e)
  case (Ev_tcp_recv p an jobs)
  assume ok: "tc_ok s"
  have "\<exists>s'. map_option fst (tc_recv_event p an jobs s) = Some s' \<and> tc_ok s'" if "ty_pcb s" "ty_cb_recv s" "p \<noteq> Some []"
    using recv_event_ok [OF ok that, of an jobs] by (auto simp: returned_ok_def split: option.splits)
  then show ?thesis using ok unfolding Ev_tcp_recv by simp
next
  case (Ev_tcp_sent len an jobs)
  assume ok: "tc_ok s"
  have "\<exists>s'. map_option fst (tc_sent_event len an jobs s) = Some s' \<and> tc_ok s'" if "ty_pcb s" "ty_cb_sent s" "0 < len" "ty_acked s + len \<le> length (ty_written s)"
    using sent_event_ok [OF ok that, of an jobs] by (auto simp: returned_ok_def split: option.splits)
  then show ?thesis using ok unfolding Ev_tcp_sent by simp
next
  case (Ev_tcp_err an)
  assume ok: "tc_ok s"
  have "\<exists>s'. tc_handle (client_err_func an (ty_client s)) (pcb_gone True s) = Some s' \<and> tc_ok s'" if "ty_pcb s"
  proof -
    have "\<not> ty_freed s" using tc_okD(3) [OF ok] that by (auto simp: sides_ok_def Let_def)
    from sides_ok_open [OF tc_okD(3) [OF ok] this] show ?thesis
      unfolding client_err_func_def using tc_okD(1,2) [OF ok] by (intro pcb_gone_ok) simp_all
  qed
  then show ?thesis using ok unfolding Ev_tcp_err by (simp add: pcb_gone_def)
next
  case (Ev_job j)
  assume "tc_ok s"
  then show ?thesis unfolding Ev_job using job_step_ok by simp
next
  case Ev_murder
  assume "tc_ok s"
  then show ?thesis unfolding Ev_murder using murder_ok by simp
qed

lemma tc_run_ok: "tc_ok s \<Longrightarrow> \<exists>s'. tc_run es s = Some s' \<and> tc_ok s'"
proof (induction es arbitrary: s)
  case (Cons e es)
  then show ?case using tc_step_ok [OF Cons.prems, of e] by fastforce
qed simp

lemma tc_start_ok: "tc_recv_buf c \<noteq> [] \<Longrightarrow> tc_ok (tc_start (tc_accepted c))"
  by (simp add: tc_start_def tc_accepted_def tc_ok_def to_socks_ok_def to_client_ok_def sides_ok_def)

section \<open>Properties of every run\<close>

lemma tc_reach:
  assumes "tc_recv_buf c \<noteq> []"
  obtains s where "tc_run es (tc_start (tc_accepted c)) = Some s" "to_socks_ok s" "to_client_ok s" "sides_ok s" "tc_ok s"
  using tc_run_ok [OF tc_start_ok [OF assms], of es] by (auto simp: tc_ok_def)

text \<open>
  C3: Whatever lwIP and the SOCKS client do, in any order, and whichever jobs run inside of a
  callback, the client makes only legal calls and relays both directions exactly: the bytes
  taken from the local connection are the bytes sent through the SOCKS connection followed by
  the bytes buffered, and the bytes written to the local connection are an initial part of the
  bytes received. Neither direction stalls: buffered bytes are being sent, and when nothing is
  being received the connection is waiting for an acknowledgement. A side that the relay closes
  in order has been given everything: all bytes sent, and all bytes written and acknowledged.
\<close>

theorem tc_relay_exact:
  assumes "tc_recv_buf c \<noteq> []"
  shows "\<exists>s. tc_run es (tc_start (tc_accepted c)) = Some s \<and>
    ty_from_client s = ty_to_socks s @ take (tc_buf_used (ty_client s)) (tc_buf (ty_client s)) \<and>
    take (length (ty_written s)) (ty_from_socks s) = ty_written s \<and>
    (ty_socks s \<and> tc_socks_up (ty_client s) \<longrightarrow> (ty_send s = None) = (ty_from_client s = ty_to_socks s)) \<and>
    (ty_pcb s \<and> ty_socks s \<and> tc_socks_up (ty_client s) \<and> \<not> ty_recv s \<longrightarrow> ty_acked s < length (ty_written s)) \<and>
    (\<not> ty_socks s \<and> \<not> ty_socks_failed s \<longrightarrow> ty_to_socks s = ty_from_client s) \<and>
    (\<not> ty_pcb s \<and> \<not> ty_client_failed s \<longrightarrow> ty_written s = ty_from_socks s \<and> ty_acked s = length (ty_written s))"
proof (rule tc_reach [OF assms])
  fix s
  assume run: "tc_run es (tc_start (tc_accepted c)) = Some s" and ok: "to_socks_ok s" "to_client_ok s"
  have 1: "ty_from_client s = ty_to_socks s @ take (tc_buf_used (ty_client s)) (tc_buf (ty_client s))"
    by (rule to_socksD(2) [OF ok(1)])
  have 2: "take (length (ty_written s)) (ty_from_socks s) = ty_written s"
    using to_clientD(4) [OF ok(2)] by auto
  have 3: "(ty_send s = None) = (ty_from_client s = ty_to_socks s)" if "ty_socks s \<and> tc_socks_up (ty_client s)"
    using to_socksD(1,4,5) [OF ok(1)] 1 that by (cases "ty_send s") auto
  have 4: "ty_acked s < length (ty_written s)" if "ty_pcb s \<and> ty_socks s \<and> tc_socks_up (ty_client s) \<and> \<not> ty_recv s"
  proof -
    have "tc_recv_tcp_pending (ty_client s) = int (length (ty_written s)) - int (ty_acked s)" "0 < tc_recv_tcp_pending (ty_client s)"
      using ok(2) that by (simp_all add: to_client_ok_def Let_def split: if_splits)
    then show ?thesis by linarith
  qed
  have 5: "ty_to_socks s = ty_from_client s" if "\<not> ty_socks s \<and> \<not> ty_socks_failed s"
  proof -
    have "tc_buf_used (ty_client s) = 0" using ok(1) that unfolding to_socks_ok_def Let_def by blast
    then show ?thesis using 1 by simp
  qed
  have 6: "ty_written s = ty_from_socks s \<and> ty_acked s = length (ty_written s)" if "\<not> ty_pcb s \<and> \<not> ty_client_failed s"
    using to_clientD(6) [OF ok(2)] that by blast
  show ?thesis by (intro exI [of _ s] conjI impI) (fact run 1 2 3 4 5 | rule conjunct1 [OF 6] conjunct2 [OF 6], assumption)+
qed

lemma recv_func_room:
  assumes "to_socks_ok s" "ty_pcb s"
    and "length data \<le> length (tc_buf (ty_client s)) - (length (ty_from_client s) - ty_recved s)"
  shows "fst (snd (snd (client_recv_func_1 an (Some data) (ty_client s)))) = None"
  using assms by (auto simp: client_recv_func_1_def to_socks_ok_def Let_def min_absorb2)

lemma recv_event_not_full:
  assumes "fst (snd (snd (client_recv_func_1 an (Some data) (ty_client s)))) = None" "tc_recv_event (Some data) an jobs s = Some (s', err)"
  shows "err \<noteq> ERR_MEM"
proof -
  obtain c calls f where "client_recv_func_1 an (Some data) (ty_client s) = (c, calls, None, f)"
    using assms(1) by (cases "client_recv_func_1 an (Some data) (ty_client s)") auto
  moreover have "snd (client_recv_func_2 f x) \<noteq> ERR_MEM" for x by (simp add: client_recv_func_2_def)
  ultimately show ?thesis
    using assms(2) by (auto simp: tc_recv_event_def tc_callback_def Let_def case_prod_beta split: option.splits)
qed

text \<open>
  C35: The contract with lwIP. In every reachable state the client is freed exactly when both
  sides are closed; a receive or sent callback runs to its end and returns \<^verbatim>\<open>ERR_ABRT\<close> exactly when
  the connection is gone, also when jobs run inside of it close it; and as long as lwIP keeps
  within the window, the data not yet confirmed by \<^verbatim>\<open>tcp_recved\<close> and the new data not exceeding the
  buffer, \<^verbatim>\<open>ERR_MEM\<close> is never returned.
\<close>

theorem tc_callback_contract:
  assumes "tc_recv_buf c \<noteq> []"
  shows "\<exists>s. tc_run es (tc_start (tc_accepted c)) = Some s \<and>
    ty_freed s = (\<not> ty_pcb s \<and> \<not> ty_socks s) \<and>
    (\<forall>p an jobs. ty_pcb s \<and> ty_cb_recv s \<and> p \<noteq> Some [] \<longrightarrow>
       (\<exists>s' err. tc_recv_event p an jobs s = Some (s', err) \<and> (err = ERR_ABRT) = (\<not> ty_pcb s') \<and>
          (\<forall>data. p = Some data \<and> length data \<le> length (tc_buf (ty_client s)) - (length (ty_from_client s) - ty_recved s) \<longrightarrow>
             err \<noteq> ERR_MEM))) \<and>
    (\<forall>len an jobs. ty_pcb s \<and> ty_cb_sent s \<and> 0 < len \<and> ty_acked s + len \<le> length (ty_written s) \<longrightarrow>
       (\<exists>s' err. tc_sent_event len an jobs s = Some (s', err) \<and> (err = ERR_ABRT) = (\<not> ty_pcb s')))"
proof (rule tc_reach [OF assms])
  fix s
  assume run: "tc_run es (tc_start (tc_accepted c)) = Some s" and ok: "to_socks_ok s" "sides_ok s" "tc_ok s"
  have 1: "ty_freed s = (\<not> ty_pcb s \<and> \<not> ty_socks s)"
    using ok(2) by (auto simp: sides_ok_def Let_def)
  have 2: "\<exists>s' err. tc_recv_event p an jobs s = Some (s', err) \<and> (err = ERR_ABRT) = (\<not> ty_pcb s') \<and>
      (\<forall>data. p = Some data \<and> length data \<le> length (tc_buf (ty_client s)) - (length (ty_from_client s) - ty_recved s) \<longrightarrow>
         err \<noteq> ERR_MEM)"
    if h: "ty_pcb s \<and> ty_cb_recv s \<and> p \<noteq> Some []" for p an jobs
  proof -
    obtain s' err where r: "tc_recv_event p an jobs s = Some (s', err)" "(err = ERR_ABRT) = (\<not> ty_pcb s')"
      using recv_event_ok [OF ok(3), of p an jobs] h unfolding returned_ok_def by (cases "tc_recv_event p an jobs s") auto
    have "err \<noteq> ERR_MEM" if "p = Some data \<and> length data \<le> length (tc_buf (ty_client s)) - (length (ty_from_client s) - ty_recved s)" for data
      using recv_event_not_full [OF recv_func_room [OF ok(1)], of data an jobs s' err] r(1) that h by simp
    with r show ?thesis by (intro exI [of _ s'] exI [of _ err]) auto
  qed
  have 3: "\<exists>s' err. tc_sent_event len an jobs s = Some (s', err) \<and> (err = ERR_ABRT) = (\<not> ty_pcb s')"
    if "ty_pcb s \<and> ty_cb_sent s \<and> 0 < len \<and> ty_acked s + len \<le> length (ty_written s)" for len an jobs
    using sent_event_ok [OF ok(3), of len an jobs] that unfolding returned_ok_def by (cases "tc_sent_event len an jobs s") auto
  show ?thesis by (rule exI [of _ s]) (rule conjI [OF run conjI [OF 1 conjI]]; intro allI impI; rule 2 3; assumption)
qed

text \<open>A run for the witnesses: the SOCKS connection comes up, both directions carry data, and an error follows.\<close>

definition tc_memory :: tcp_client where
  "tc_memory = \<lparr>tc_client_closed = True, tc_buf = [0, 0], tc_buf_used = 7, tc_socks_up = True, tc_socks_closed = True,
     tc_recv_buf = [0, 0], tc_recv_buf_used = 5, tc_recv_buf_sent = 9, tc_recv_waiting = True, tc_recv_tcp_pending = 3\<rparr>"

lemma tc_memory_buf: "tc_recv_buf tc_memory \<noteq> []"
  by (simp add: tc_memory_def)

definition an_good :: tcp_answers where
  "an_good = \<lparr>an_close = True, an_writes = [(5, ERR_OK)], an_output = True\<rparr>"

definition tc_example :: "tc_event list" where
  "tc_example = [Ev_tcp_recv (Some [7, 8]) an_good [], Ev_job (Job_Socks BSOCKSCLIENT_EVENT_UP an_good), Ev_job (Job_Sent 2 an_good),
     Ev_job (Job_Received [1, 2] an_good)]"

lemmas tc_eval = tc_start_def tc_accepted_def tc_memory_def an_good_def tc_handle_def tc_recv_event_def tc_callback_def
  client_recv_func_1_def client_recv_func_2_def client_send_to_socks_def client_socks_handler_def client_socks_send_handler_done_def
  client_socks_recv_initiate_def client_socks_recv_handler_done_def client_socks_recv_send_out_def free_socks_open callbacks_off_def
  put_at_def get_at_def bmin_def

theorem tc_relay_exact_witness:
  "\<exists>s. tc_run tc_example (tc_start (tc_accepted tc_memory)) = Some s \<and> ty_to_socks s = [7, 8] \<and>
     ty_from_client s = ty_to_socks s @ take (tc_buf_used (ty_client s)) (tc_buf (ty_client s)) \<and> ty_written s = [1, 2] \<and>
     take (length (ty_written s)) (ty_from_socks s) = ty_written s"
proof -
  have "map_option (\<lambda>s. (ty_to_socks s, ty_written s)) (tc_run tc_example (tc_start (tc_accepted tc_memory))) = Some ([7, 8], [1, 2])"
    by (simp add: tc_example_def tc_eval)
  then have "ty_to_socks s = [7, 8] \<and> ty_written s = [1, 2]"
    if "tc_run tc_example (tc_start (tc_accepted tc_memory)) = Some s" for s unfolding that by simp
  then show ?thesis using tc_relay_exact [OF tc_memory_buf, of tc_example] by (elim exE conjE) (intro exI conjI; blast)
qed

theorem tc_callback_contract_witness:
  "\<exists>s s'. tc_run tc_example (tc_start (tc_accepted tc_memory)) = Some s \<and> ty_pcb s \<and>
     tc_recv_event (Some [9]) an_good [Job_Socks BSOCKSCLIENT_EVENT_ERROR an_good] s = Some (s', ERR_OK) \<and> ty_pcb s'"
proof -
  let ?e = "tc_recv_event (Some [9]) an_good [Job_Socks BSOCKSCLIENT_EVENT_ERROR an_good]"
  have "map_option (\<lambda>s. (ty_pcb s, ty_cb_recv s, map_option snd (?e s))) (tc_run tc_example (tc_start (tc_accepted tc_memory))) =
      Some (True, True, Some ERR_OK)"
    by (simp add: tc_example_def tc_eval)
  then obtain s where s: "tc_run tc_example (tc_start (tc_accepted tc_memory)) = Some s" "ty_pcb s" "ty_cb_recv s" "map_option snd (?e s) = Some ERR_OK"
    by (cases "tc_run tc_example (tc_start (tc_accepted tc_memory))") simp_all
  have "\<exists>s' err. ?e s = Some (s', err) \<and> (err = ERR_ABRT) = (\<not> ty_pcb s')"
  proof (rule exE [OF tc_callback_contract [OF tc_memory_buf, of tc_example]], elim conjE)
    fix t
    assume "tc_run tc_example (tc_start (tc_accepted tc_memory)) = Some t"
      and c: "\<forall>p an jobs. ty_pcb t \<and> ty_cb_recv t \<and> p \<noteq> Some [] \<longrightarrow>
        (\<exists>s' err. tc_recv_event p an jobs t = Some (s', err) \<and> (err = ERR_ABRT) = (\<not> ty_pcb s') \<and>
          (\<forall>data. p = Some data \<and> length data \<le> length (tc_buf (ty_client t)) - (length (ty_from_client t) - ty_recved t) \<longrightarrow>
             err \<noteq> ERR_MEM))"
    then have "t = s" using s(1) by simp
    then show ?thesis using c s(2,3) by blast
  qed
  then obtain s' err where "?e s = Some (s', err)" "(err = ERR_ABRT) = (\<not> ty_pcb s')" by (elim exE conjE)
  then show ?thesis using s by (intro exI [of _ s] exI [of _ s']) simp
qed


end
