(* ===== verification/Udp_Gw_Client.thy ===== *)
theory Udp_Gw_Client
  imports Addr Bsize Packet_Proto Net_Proto
begin

text \<open>
  The client of the UDP gateway: \<^verbatim>\<open>udpgw_client/UdpGwClient.c\<close> with \<^verbatim>\<open>protocol/udpgw_proto.h\<close>. A pair of addresses is a connection with an
  identifier of 16 bits; when all connections are taken the least recently used one is
  reused. Connections are objects in memory, referred to by address from two search trees
  and a list; a tree is the list of its nodes, and a lookup finds the node whose key compares
  equal. The answers of \<^verbatim>\<open>malloc\<close>, of \<^verbatim>\<open>PacketProtoFlow_Init\<close> and of \<^verbatim>\<open>BufferWriter_StartPacket\<close> are
  arguments. A function returns the client and the calls it makes.
\<close>

unbundle bit_operations_syntax

section \<open>Protocol\<close>

definition UDPGW_CLIENT_FLAG_KEEPALIVE :: u8 where "UDPGW_CLIENT_FLAG_KEEPALIVE = push_bit 0 1"
definition UDPGW_CLIENT_FLAG_REBIND :: u8 where "UDPGW_CLIENT_FLAG_REBIND = push_bit 1 1"
definition UDPGW_CLIENT_FLAG_DNS :: u8 where "UDPGW_CLIENT_FLAG_DNS = push_bit 2 1"
definition UDPGW_CLIENT_FLAG_IPV6 :: u8 where "UDPGW_CLIENT_FLAG_IPV6 = push_bit 3 1"

text \<open>The packed structures in memory: \<^verbatim>\<open>udpgw_header\<close> has 3, \<^verbatim>\<open>udpgw_addr_ipv4\<close> 6 and \<^verbatim>\<open>udpgw_addr_ipv6\<close> 18
  bytes; \<^verbatim>\<open>socks_udp_header\<close>, which the Android build uses for the MTU, has 4.\<close>

definition udpgw_header :: "u8 \<Rightarrow> u16 \<Rightarrow> bytes" where
  "udpgw_header flags conid = flags # mem16 conid"

definition udpgw_addr_ipv4 :: "u32 \<Rightarrow> u16 \<Rightarrow> bytes" where
  "udpgw_addr_ipv4 addr_ip addr_port = mem32 addr_ip @ mem16 addr_port"

definition udpgw_addr_ipv6 :: "bytes \<Rightarrow> u16 \<Rightarrow> bytes" where
  "udpgw_addr_ipv6 addr_ip addr_port = addr_ip @ mem16 addr_port"

definition udpgw_compute_mtu :: "int \<Rightarrow> int" where
  "udpgw_compute_mtu dgram_mtu =
     (let bs = bsize_add (bsize_fromsize 4)
                 (bsize_add (bsize_max (bsize_fromsize 6) (bsize_fromsize 18)) (bsize_fromint dgram_mtu)) :: 64 bsize_t
      in case bsize_toint bs of None \<Rightarrow> - 1 | Some s \<Rightarrow> s)"

section \<open>State\<close>

record UdpGwClient_conaddr =
  ca_local_addr :: BAddr
  ca_remote_addr :: BAddr

record UdpGwClient_connection =
  cn_conaddr :: UdpGwClient_conaddr
  cn_first_flags :: u8
  cn_first_data :: bytes
  cn_conid :: u16

record UdpGwClient =
  ug_udp_mtu :: int
  ug_max_connections :: int
  ug_udpgw_mtu :: int
  ug_pp_mtu :: int
  ug_mem :: "nat \<Rightarrow> UdpGwClient_connection"
  ug_tree_by_conaddr :: "nat list"
  ug_tree_by_conid :: "nat list"
  ug_connections_list :: "nat list"
  ug_num_connections :: int
  ug_next_conid :: int
  ug_keepalive_packet :: bytes
  ug_keepalive_sending :: bool
  ug_have_server :: bool

datatype ug_call =
    Ug_Recv_Done
  | Ug_handler_received BAddr BAddr bytes
  | Ug_handler_servererror
  | Ug_Keepalive_Send bytes
  | Ug_FirstJob_Set nat
  | Ug_FirstJob_Free nat
  | Ug_Qflow_Init nat
  | Ug_Qflow_Free nat
  | Ug_Ppflow_Init nat
  | Ug_Ppflow_Free nat
  | Ug_Write nat bytes
  | Ug_Connect
  | Ug_Disconnect
  | Ug_Prepare_Free
  | Ug_Free

section \<open>Connections\<close>

definition uint16_comparator :: "u16 \<Rightarrow> u16 \<Rightarrow> int" where
  "uint16_comparator v1 v2 = B_COMPARE v1 v2"

definition conaddr_comparator :: "UdpGwClient_conaddr \<Rightarrow> UdpGwClient_conaddr \<Rightarrow> int" where
  "conaddr_comparator v1 v2 =
     (let r = BAddr_CompareOrder (ca_remote_addr v1) (ca_remote_addr v2) in
      if r \<noteq> 0 then r else BAddr_CompareOrder (ca_local_addr v1) (ca_local_addr v2))"

definition find_connection_by_conaddr :: "UdpGwClient_conaddr \<Rightarrow> UdpGwClient \<Rightarrow> nat option" where
  "find_connection_by_conaddr conaddr ug =
     find (\<lambda>p. conaddr_comparator conaddr (cn_conaddr (ug_mem ug p)) = 0) (ug_tree_by_conaddr ug)"

definition find_connection_by_conid :: "u16 \<Rightarrow> UdpGwClient \<Rightarrow> nat option" where
  "find_connection_by_conid conid ug =
     find (\<lambda>p. uint16_comparator conid (cn_conid (ug_mem ug p)) = 0) (ug_tree_by_conid ug)"

partial_function (option) find_unused_conid :: "UdpGwClient \<Rightarrow> (UdpGwClient \<times> u16) option" where
  "find_unused_conid ug =
     (if find_connection_by_conid (word_of_int (ug_next_conid ug)) ug = None
      then Some (ug, word_of_int (ug_next_conid ug))
      else if ug_next_conid ug = ug_max_connections ug - 1 then find_unused_conid (ug\<lparr>ug_next_conid := 0\<rparr>)
      else find_unused_conid (ug\<lparr>ug_next_conid := ug_next_conid ug + 1\<rparr>))"

text \<open>\<^verbatim>\<open>BAVL_Insert\<close> on the two trees: a node is not inserted when one with an equal key is there.\<close>

definition insert_by_conaddr :: "nat \<Rightarrow> UdpGwClient \<Rightarrow> UdpGwClient" where
  "insert_by_conaddr p ug =
     (if find_connection_by_conaddr (cn_conaddr (ug_mem ug p)) ug = None
      then ug\<lparr>ug_tree_by_conaddr := p # ug_tree_by_conaddr ug\<rparr> else ug)"

definition insert_by_conid :: "nat \<Rightarrow> UdpGwClient \<Rightarrow> UdpGwClient" where
  "insert_by_conid p ug =
     (if find_connection_by_conid (cn_conid (ug_mem ug p)) ug = None
      then ug\<lparr>ug_tree_by_conid := p # ug_tree_by_conid ug\<rparr> else ug)"

text \<open>\<^verbatim>\<open>alloc\<close> is the address \<^verbatim>\<open>malloc\<close> returns. The result is None when the search for an identifier
  does not end.\<close>

definition connection_init ::
    "nat option \<Rightarrow> bool \<Rightarrow> UdpGwClient_conaddr \<Rightarrow> u8 \<Rightarrow> bytes \<Rightarrow> UdpGwClient \<Rightarrow> (UdpGwClient \<times> ug_call list) option" where
  "connection_init alloc ppflow_init conaddr flags data ug =
     (case alloc of
        None \<Rightarrow> Some (ug, [])
      | Some con \<Rightarrow>
          (case find_unused_conid ug of
             None \<Rightarrow> None
           | Some (ug, conid) \<Rightarrow>
               let ug = ug\<lparr>ug_mem := (ug_mem ug)(con :=
                     \<lparr>cn_conaddr = conaddr, cn_first_flags = flags, cn_first_data = data, cn_conid = conid\<rparr>)\<rparr>
               in if \<not> ppflow_init then Some (ug, [Ug_FirstJob_Set con, Ug_Qflow_Init con, Ug_Qflow_Free con, Ug_FirstJob_Free con])
               else
                 let ug = insert_by_conaddr con ug;
                     ug = insert_by_conid con ug;
                     ug = ug\<lparr>ug_connections_list := ug_connections_list ug @ [con]\<rparr>;
                     ug = ug\<lparr>ug_num_connections := ug_num_connections ug + 1\<rparr>
                 in Some (ug, [Ug_FirstJob_Set con, Ug_Qflow_Init con, Ug_Ppflow_Init con])))"

definition connection_free :: "nat \<Rightarrow> UdpGwClient \<Rightarrow> UdpGwClient \<times> ug_call list" where
  "connection_free con ug =
     (ug\<lparr>ug_num_connections := ug_num_connections ug - 1,
        ug_connections_list := remove1 con (ug_connections_list ug),
        ug_tree_by_conid := remove1 con (ug_tree_by_conid ug),
        ug_tree_by_conaddr := remove1 con (ug_tree_by_conaddr ug)\<rparr>,
      [Ug_Ppflow_Free con, Ug_Qflow_Free con, Ug_FirstJob_Free con])"

text \<open>\<^verbatim>\<open>start\<close> is whether the buffer of the connection has space for a packet.\<close>

definition connection_send :: "bool \<Rightarrow> nat \<Rightarrow> u8 \<Rightarrow> bytes \<Rightarrow> UdpGwClient \<Rightarrow> ug_call list" where
  "connection_send start con flags data ug =
     (if \<not> start then [] else
      let remote = ca_remote_addr (cn_conaddr (ug_mem ug con));
          flags = (case remote of BAddr_IPv6 _ _ \<Rightarrow> flags OR UDPGW_CLIENT_FLAG_IPV6 | _ \<Rightarrow> flags);
          header = udpgw_header (ltoh8 flags) (ltoh16 (cn_conid (ug_mem ug con)));
          addr = (case remote of
                    BAddr_IPv4 ip port \<Rightarrow> udpgw_addr_ipv4 ip port
                  | BAddr_IPv6 ip port \<Rightarrow> udpgw_addr_ipv6 ip port
                  | _ \<Rightarrow> [])
      in [Ug_Write con (header @ addr @ data)])"

definition connection_first_job_handler :: "bool \<Rightarrow> nat \<Rightarrow> UdpGwClient \<Rightarrow> ug_call list" where
  "connection_first_job_handler start con ug =
     connection_send start con (UDPGW_CLIENT_FLAG_REBIND OR cn_first_flags (ug_mem ug con)) (cn_first_data (ug_mem ug con)) ug"

definition reuse_connection :: "UdpGwClient_conaddr \<Rightarrow> UdpGwClient \<Rightarrow> UdpGwClient \<times> nat" where
  "reuse_connection conaddr ug =
     (let con = hd (ug_connections_list ug);
          ug = ug\<lparr>ug_tree_by_conaddr := remove1 con (ug_tree_by_conaddr ug)\<rparr>;
          ug = ug\<lparr>ug_mem := (ug_mem ug)(con := (ug_mem ug con)\<lparr>cn_conaddr := conaddr\<rparr>)\<rparr>
      in (insert_by_conaddr con ug, con))"

definition list_to_end :: "nat \<Rightarrow> UdpGwClient \<Rightarrow> UdpGwClient" where
  "list_to_end con ug = ug\<lparr>ug_connections_list := remove1 con (ug_connections_list ug) @ [con]\<rparr>"

definition UdpGwClient_SubmitPacket ::
    "nat option \<Rightarrow> bool \<Rightarrow> bool \<Rightarrow> BAddr \<Rightarrow> BAddr \<Rightarrow> bool \<Rightarrow> bytes \<Rightarrow> UdpGwClient \<Rightarrow> (UdpGwClient \<times> ug_call list) option" where
  "UdpGwClient_SubmitPacket alloc ppflow_init start local_addr remote_addr is_dns data ug =
     (let conaddr = \<lparr>ca_local_addr = local_addr, ca_remote_addr = remote_addr\<rparr>;
          con = find_connection_by_conaddr conaddr ug;
          flags = (if is_dns then UDPGW_CLIENT_FLAG_DNS else 0);
          (ug, con, flags) =
            (if con = None \<and> ug_num_connections ug = ug_max_connections ug
             then let (ug, c) = reuse_connection conaddr ug in (ug, Some c, flags OR UDPGW_CLIENT_FLAG_REBIND)
             else (ug, con, flags))
      in case con of
           None \<Rightarrow> connection_init alloc ppflow_init conaddr flags data ug
         | Some c \<Rightarrow> let ug = list_to_end c ug in Some (ug, connection_send start c flags data ug))"

section \<open>The server\<close>

definition decoder_handler_error :: "ug_call list" where
  "decoder_handler_error = [Ug_handler_servererror]"

definition recv_interface_handler_send :: "bytes \<Rightarrow> UdpGwClient \<Rightarrow> UdpGwClient \<times> ug_call list" where
  "recv_interface_handler_send data ug =
     (let drop_packet = (ug, [Ug_Recv_Done]) in
      if length data < 3 then drop_packet else
      let flags = ltoh8 (data ! 0);
          conid = ltoh16 (badvpn_read_le16 (drop 1 data));
          data = drop 3 data;
          ipv6 = (flags AND UDPGW_CLIENT_FLAG_IPV6 \<noteq> 0);
          addr_len = (if ipv6 then 18 else 6)
      in if length data < addr_len then drop_packet else
      let remote_addr =
            (if ipv6 then BAddr_IPv6 (take 16 data) (badvpn_read_le16 (drop 16 data))
             else BAddr_IPv4 (badvpn_read_le32 data) (badvpn_read_le16 (drop 4 data)));
          data = drop addr_len data
      in if int (length data) > ug_udp_mtu ug then drop_packet else
      case find_connection_by_conid conid ug of
        None \<Rightarrow> drop_packet
      | Some con \<Rightarrow>
          let conaddr = cn_conaddr (ug_mem ug con) in
          if BAddr_CompareOrder (ca_remote_addr conaddr) remote_addr \<noteq> 0 then drop_packet
          else (list_to_end con ug, [Ug_Recv_Done, Ug_handler_received (ca_local_addr conaddr) (ca_remote_addr conaddr) data]))"

definition send_monitor_handler :: "UdpGwClient \<Rightarrow> UdpGwClient \<times> ug_call list" where
  "send_monitor_handler ug =
     (if ug_keepalive_sending ug then (ug, [])
      else (ug\<lparr>ug_keepalive_sending := True\<rparr>, [Ug_Keepalive_Send (ug_keepalive_packet ug)]))"

definition keepalive_if_handler_done :: "UdpGwClient \<Rightarrow> UdpGwClient" where
  "keepalive_if_handler_done ug = ug\<lparr>ug_keepalive_sending := False\<rparr>"

text \<open>\<^verbatim>\<open>decoder_init\<close> is whether \<^verbatim>\<open>PacketProtoDecoder_Init\<close> succeeds.\<close>

definition UdpGwClient_ConnectServer :: "bool \<Rightarrow> UdpGwClient \<Rightarrow> (UdpGwClient \<times> ug_call list) option" where
  "UdpGwClient_ConnectServer decoder_init ug =
     (if \<not> decoder_init then None else Some (ug\<lparr>ug_have_server := True\<rparr>, [Ug_Connect]))"

definition free_server :: "ug_call list" where
  "free_server = [Ug_Disconnect]"

definition UdpGwClient_DisconnectServer :: "UdpGwClient \<Rightarrow> UdpGwClient \<times> ug_call list" where
  "UdpGwClient_DisconnectServer ug = (ug\<lparr>ug_have_server := False\<rparr>, free_server)"

text \<open>\<^verbatim>\<open>queue_init\<close> is whether \<^verbatim>\<open>PacketPassFairQueue_Init\<close> succeeds. The keepalive packet is a framed
  header.\<close>

definition UINT16_MAX :: int where "UINT16_MAX = 65535"

definition UdpGwClient_Init :: "bool \<Rightarrow> int \<Rightarrow> int \<Rightarrow> UdpGwClient option" where
  "UdpGwClient_Init queue_init udp_mtu max_connections =
     (if \<not> queue_init then None else
      let udpgw_mtu = udpgw_compute_mtu udp_mtu in
      Some \<lparr>ug_udp_mtu = udp_mtu,
        ug_max_connections = (if max_connections > UINT16_MAX + 1 then UINT16_MAX + 1 else max_connections),
        ug_udpgw_mtu = udpgw_mtu, ug_pp_mtu = udpgw_mtu + 2,
        ug_mem = (\<lambda>_. \<lparr>cn_conaddr = \<lparr>ca_local_addr = BAddr_None, ca_remote_addr = BAddr_None\<rparr>, cn_first_flags = 0, cn_first_data = [], cn_conid = 0\<rparr>),
        ug_tree_by_conaddr = [], ug_tree_by_conid = [], ug_connections_list = [], ug_num_connections = 0, ug_next_conid = 0,
        ug_keepalive_packet = packetproto_header 3 @ udpgw_header UDPGW_CLIENT_FLAG_KEEPALIVE 0,
        ug_keepalive_sending = False, ug_have_server = False\<rparr>)"

text \<open>The loop over the connections of \<^verbatim>\<open>UdpGwClient_Free\<close>; every turn takes the first connection off the list.\<close>

function free_connections_loop :: "UdpGwClient \<Rightarrow> UdpGwClient \<times> ug_call list" where
  "free_connections_loop ug =
     (case ug_connections_list ug of
        [] \<Rightarrow> (ug, [])
      | con # _ \<Rightarrow>
          let (ug, calls) = connection_free con ug; (ug, rest) = free_connections_loop ug in (ug, calls @ rest))"
  by pat_completeness auto
termination
  by (relation "measure (\<lambda>ug. length (ug_connections_list ug))") (auto simp: connection_free_def)

definition UdpGwClient_Free :: "UdpGwClient \<Rightarrow> ug_call list" where
  "UdpGwClient_Free ug =
     (let (ug, calls) = free_connections_loop ug
      in Ug_Prepare_Free # calls @ (if ug_have_server ug then free_server else []) @ [Ug_Free])"

section \<open>The client between the device, its flows and the server\<close>

text \<open>
  \<^verbatim>\<open>uy_flows\<close> are the connections with a queue flow and a packet flow, \<^verbatim>\<open>uy_half\<close> one whose packet
  flow is not there yet. A job that was set is the next job to run, so the first job of a new
  connection runs right after the packet was submitted. A call on a flow that is not there, a
  second first job, a write beyond the MTU and a second keepalive make a run undefined.
\<close>

record ug_sys =
  uy_client :: UdpGwClient
  uy_flows :: "nat list"
  uy_half :: "nat option"
  uy_first :: "nat option"
  uy_keepalive :: bool
  uy_server :: bool
  uy_sent :: "bytes list"
  uy_delivered :: "(BAddr \<times> BAddr \<times> bytes) list"

fun ug_do :: "ug_call \<Rightarrow> ug_sys \<Rightarrow> ug_sys option" where
  "ug_do Ug_Recv_Done s = (if uy_server s then Some s else None)"
| "ug_do (Ug_handler_received l r data) s = Some (s\<lparr>uy_delivered := uy_delivered s @ [(l, r, data)]\<rparr>)"
| "ug_do Ug_handler_servererror s = Some s"
| "ug_do (Ug_Keepalive_Send data) s = (if uy_keepalive s then None else Some (s\<lparr>uy_keepalive := True\<rparr>))"
| "ug_do (Ug_FirstJob_Set p) s = (if uy_first s = None then Some (s\<lparr>uy_first := Some p\<rparr>) else None)"
| "ug_do (Ug_FirstJob_Free p) s = Some (s\<lparr>uy_first := (if uy_first s = Some p then None else uy_first s)\<rparr>)"
| "ug_do (Ug_Qflow_Init p) s = (if p \<in> set (uy_flows s) \<or> uy_half s \<noteq> None then None else Some (s\<lparr>uy_half := Some p\<rparr>))"
| "ug_do (Ug_Qflow_Free p) s = (if uy_half s = Some p then Some (s\<lparr>uy_half := None\<rparr>) else None)"
| "ug_do (Ug_Ppflow_Init p) s = (if uy_half s = Some p then Some (s\<lparr>uy_half := None, uy_flows := p # uy_flows s\<rparr>) else None)"
| "ug_do (Ug_Ppflow_Free p) s =
     (if p \<in> set (uy_flows s) \<and> uy_half s = None then Some (s\<lparr>uy_flows := remove1 p (uy_flows s), uy_half := Some p\<rparr>) else None)"
| "ug_do (Ug_Write p data) s =
     (if p \<in> set (uy_flows s) \<and> int (length data) \<le> ug_udpgw_mtu (uy_client s) then Some (s\<lparr>uy_sent := uy_sent s @ [data]\<rparr>) else None)"
| "ug_do Ug_Connect s = (if uy_server s then None else Some (s\<lparr>uy_server := True\<rparr>))"
| "ug_do Ug_Disconnect s = (if uy_server s then Some (s\<lparr>uy_server := False\<rparr>) else None)"
| "ug_do Ug_Prepare_Free s = Some s"
| "ug_do Ug_Free s = (if uy_flows s = [] \<and> uy_half s = None \<and> \<not> uy_server s then Some s else None)"

fun ug_perform :: "ug_call list \<Rightarrow> ug_sys \<Rightarrow> ug_sys option" where
  "ug_perform [] s = Some s"
| "ug_perform (c # cs) s = Option.bind (ug_do c s) (ug_perform cs)"

definition ug_handle :: "UdpGwClient \<times> ug_call list \<Rightarrow> ug_sys \<Rightarrow> ug_sys option" where
  "ug_handle r s = ug_perform (snd r) (s\<lparr>uy_client := fst r\<rparr>)"

definition first_job :: "bool \<Rightarrow> ug_sys \<Rightarrow> ug_sys option" where
  "first_job start s =
     (case uy_first s of None \<Rightarrow> Some s
      | Some p \<Rightarrow> ug_perform (connection_first_job_handler start p (uy_client s)) (s\<lparr>uy_first := None\<rparr>))"

definition addr_ok :: "BAddr \<Rightarrow> bool" where
  "addr_ok a = (case a of BAddr_IPv4 _ _ \<Rightarrow> True | BAddr_IPv6 ip _ \<Rightarrow> length ip = 16 | _ \<Rightarrow> False)"

datatype ug_event =
    Ev_Submit "nat option" bool bool BAddr BAddr bool bytes
  | Ev_Reply bytes
  | Ev_Inactive
  | Ev_Keepalive_Done
  | Ev_ConnectServer bool
  | Ev_DisconnectServer
  | Ev_Decoder_Error

fun ug_step :: "ug_event \<Rightarrow> ug_sys \<Rightarrow> ug_sys option" where
  "ug_step (Ev_Submit alloc ppflow_init start l r is_dns data) s =
     (if addr_ok l \<and> addr_ok r \<and> int (length data) \<le> ug_udp_mtu (uy_client s) \<and> (\<forall>p \<in> set_option alloc. p \<notin> set (uy_flows s)) then
        (case UdpGwClient_SubmitPacket alloc ppflow_init start l r is_dns data (uy_client s) of
           None \<Rightarrow> None
         | Some res \<Rightarrow> Option.bind (ug_handle res s) (first_job start))
      else Some s)"
| "ug_step (Ev_Reply data) s =
     (if uy_server s \<and> int (length data) \<le> ug_udpgw_mtu (uy_client s) then ug_handle (recv_interface_handler_send data (uy_client s)) s else Some s)"
| "ug_step Ev_Inactive s = ug_handle (send_monitor_handler (uy_client s)) s"
| "ug_step Ev_Keepalive_Done s =
     (if uy_keepalive s then Some (s\<lparr>uy_keepalive := False, uy_client := keepalive_if_handler_done (uy_client s)\<rparr>) else Some s)"
| "ug_step (Ev_ConnectServer decoder_init) s =
     (if ug_have_server (uy_client s) then Some s
      else case UdpGwClient_ConnectServer decoder_init (uy_client s) of None \<Rightarrow> Some s | Some res \<Rightarrow> ug_handle res s)"
| "ug_step Ev_DisconnectServer s =
     (if ug_have_server (uy_client s) then ug_handle (UdpGwClient_DisconnectServer (uy_client s)) s else Some s)"
| "ug_step Ev_Decoder_Error s = (if uy_server s then ug_perform decoder_handler_error s else Some s)"

fun ug_run :: "ug_event list \<Rightarrow> ug_sys \<Rightarrow> ug_sys option" where
  "ug_run [] s = Some s"
| "ug_run (e # es) s = Option.bind (ug_step e s) (ug_run es)"

definition ug_start :: "UdpGwClient \<Rightarrow> ug_sys" where
  "ug_start ug = \<lparr>uy_client = ug, uy_flows = [], uy_half = None, uy_first = None, uy_keepalive = False, uy_server = False,
     uy_sent = [], uy_delivered = []\<rparr>"

section \<open>What it promises\<close>

text \<open>The message for a remote address: the header, the address and the data.\<close>

definition is_ipv6 :: "BAddr \<Rightarrow> bool" where
  "is_ipv6 a = (case a of BAddr_IPv6 _ _ \<Rightarrow> True | _ \<Rightarrow> False)"

definition addr_bytes :: "BAddr \<Rightarrow> bytes" where
  "addr_bytes a = (case a of BAddr_IPv4 ip port \<Rightarrow> mem32 ip @ mem16 port | BAddr_IPv6 ip port \<Rightarrow> ip @ mem16 port | _ \<Rightarrow> [])"

definition udpgw_message :: "u8 \<Rightarrow> u16 \<Rightarrow> BAddr \<Rightarrow> bytes \<Rightarrow> bytes" where
  "udpgw_message flags conid remote data =
     (if is_ipv6 remote then flags OR UDPGW_CLIENT_FLAG_IPV6 else flags) # mem16 conid @ addr_bytes remote @ data"

text \<open>The specification: a table of the pairs of addresses with their identifiers, the least recently
  used first, the messages sent to the server and the packets given to the user.\<close>

record gateway =
  gw_table :: "(UdpGwClient_conaddr \<times> u16) list"
  gw_sent :: "bytes list"
  gw_delivered :: "(BAddr \<times> BAddr \<times> bytes) list"

definition to_end :: "'a \<Rightarrow> 'a list \<Rightarrow> 'a list" where
  "to_end x xs = remove1 x xs @ [x]"

definition dns_flag :: "bool \<Rightarrow> u8" where
  "dns_flag is_dns = (if is_dns then UDPGW_CLIENT_FLAG_DNS else 0)"

definition gw_send :: "bool \<Rightarrow> bytes \<Rightarrow> gateway \<Rightarrow> gateway" where
  "gw_send start m g = (if start then g\<lparr>gw_sent := gw_sent g @ [m]\<rparr> else g)"

text \<open>A packet of the server for an entry of the table.\<close>

definition reply_for :: "int \<Rightarrow> bytes \<Rightarrow> UdpGwClient_conaddr \<Rightarrow> u16 \<Rightarrow> bytes \<Rightarrow> bool" where
  "reply_for mtu m ca conid data \<longleftrightarrow>
     (\<exists>flags. m = flags # mem16 conid @ addr_bytes (ca_remote_addr ca) @ data \<and>
        (flags AND UDPGW_CLIENT_FLAG_IPV6 \<noteq> 0) = is_ipv6 (ca_remote_addr ca)) \<and> int (length data) \<le> mtu"

inductive gw_step :: "int \<Rightarrow> int \<Rightarrow> ug_event \<Rightarrow> gateway \<Rightarrow> gateway \<Rightarrow> bool" for mtu :: int and num :: int where
  known: "(\<lparr>ca_local_addr = l, ca_remote_addr = r\<rparr>, c) \<in> set (gw_table g) \<Longrightarrow>
    gw_step mtu num (Ev_Submit alloc pp start l r is_dns data) g
      (gw_send start (udpgw_message (dns_flag is_dns) c r data)
        (g\<lparr>gw_table := to_end (\<lparr>ca_local_addr = l, ca_remote_addr = r\<rparr>, c) (gw_table g)\<rparr>))"
| reuse: "\<lparr>ca_local_addr = l, ca_remote_addr = r\<rparr> \<notin> fst ` set (gw_table g) \<Longrightarrow> int (length (gw_table g)) = num \<Longrightarrow>
    gw_table g = (old, c) # rest \<Longrightarrow>
    gw_step mtu num (Ev_Submit alloc pp start l r is_dns data) g
      (gw_send start (udpgw_message (dns_flag is_dns OR UDPGW_CLIENT_FLAG_REBIND) c r data)
        (g\<lparr>gw_table := rest @ [(\<lparr>ca_local_addr = l, ca_remote_addr = r\<rparr>, c)]\<rparr>))"
| create: "\<lparr>ca_local_addr = l, ca_remote_addr = r\<rparr> \<notin> fst ` set (gw_table g) \<Longrightarrow> int (length (gw_table g)) < num \<Longrightarrow>
    c \<notin> snd ` set (gw_table g) \<Longrightarrow> uint c < num \<Longrightarrow>
    gw_step mtu num (Ev_Submit (Some p) True start l r is_dns data) g
      (gw_send start (udpgw_message (UDPGW_CLIENT_FLAG_REBIND OR dns_flag is_dns) c r data)
        (g\<lparr>gw_table := gw_table g @ [(\<lparr>ca_local_addr = l, ca_remote_addr = r\<rparr>, c)]\<rparr>))"
| no_memory: "\<lparr>ca_local_addr = l, ca_remote_addr = r\<rparr> \<notin> fst ` set (gw_table g) \<Longrightarrow> int (length (gw_table g)) < num \<Longrightarrow>
    alloc = None \<or> \<not> pp \<Longrightarrow> gw_step mtu num (Ev_Submit alloc pp start l r is_dns data) g g"
| reply: "(ca, c) \<in> set (gw_table g) \<Longrightarrow> reply_for mtu m ca c data \<Longrightarrow>
    gw_step mtu num (Ev_Reply m) g
      (g\<lparr>gw_table := to_end (ca, c) (gw_table g), gw_delivered := gw_delivered g @ [(ca_local_addr ca, ca_remote_addr ca, data)]\<rparr>)"
| no_reply: "(\<forall>(ca, c) \<in> set (gw_table g). \<forall>data. \<not> reply_for mtu m ca c data) \<Longrightarrow> gw_step mtu num (Ev_Reply m) g g"
| other: "(case e of Ev_Submit _ _ _ _ _ _ _ \<Rightarrow> False | Ev_Reply _ \<Rightarrow> False | _ \<Rightarrow> True) \<Longrightarrow> gw_step mtu num e g g"

text \<open>An event the environment does not offer is skipped.\<close>

definition offered :: "ug_event \<Rightarrow> ug_sys \<Rightarrow> bool" where
  "offered e s =
     (case e of
        Ev_Submit alloc _ _ l r _ data \<Rightarrow>
          addr_ok l \<and> addr_ok r \<and> int (length data) \<le> ug_udp_mtu (uy_client s) \<and> (\<forall>p \<in> set_option alloc. p \<notin> set (uy_flows s))
      | Ev_Reply data \<Rightarrow> uy_server s \<and> int (length data) \<le> ug_udpgw_mtu (uy_client s)
      | _ \<Rightarrow> True)"

definition ug_table :: "UdpGwClient \<Rightarrow> (UdpGwClient_conaddr \<times> u16) list" where
  "ug_table ug = map (\<lambda>p. (cn_conaddr (ug_mem ug p), cn_conid (ug_mem ug p))) (ug_connections_list ug)"

definition ug_abs :: "ug_sys \<Rightarrow> gateway" where
  "ug_abs s = \<lparr>gw_table = ug_table (uy_client s), gw_sent = uy_sent s, gw_delivered = uy_delivered s\<rparr>"

section \<open>The invariant\<close>

definition conaddr_ok :: "UdpGwClient_conaddr \<Rightarrow> bool" where
  "conaddr_ok ca \<longleftrightarrow> addr_ok (ca_local_addr ca) \<and> addr_ok (ca_remote_addr ca)"

definition conns_ok :: "int \<Rightarrow> (nat \<Rightarrow> UdpGwClient_connection) \<Rightarrow> nat list \<Rightarrow> bool" where
  "conns_ok num mem ps \<longleftrightarrow>
     distinct ps \<and> (\<forall>p \<in> set ps. conaddr_ok (cn_conaddr (mem p)) \<and> uint (cn_conid (mem p)) < num) \<and>
     inj_on (\<lambda>p. cn_conaddr (mem p)) (set ps) \<and> inj_on (\<lambda>p. cn_conid (mem p)) (set ps)"

definition sizes_ok :: "UdpGwClient \<Rightarrow> bool" where
  "sizes_ok ug \<longleftrightarrow> 0 < ug_max_connections ug \<and> ug_max_connections ug \<le> 65536 \<and> 0 \<le> ug_next_conid ug \<and>
     ug_next_conid ug < ug_max_connections ug \<and> ug_udp_mtu ug + 21 \<le> ug_udpgw_mtu ug"

definition tree_of :: "nat list \<Rightarrow> nat list \<Rightarrow> bool" where
  "tree_of t ps \<longleftrightarrow> distinct t \<and> set t = set ps"

definition ug_ok :: "UdpGwClient \<Rightarrow> bool" where
  "ug_ok ug \<longleftrightarrow> conns_ok (ug_max_connections ug) (ug_mem ug) (ug_connections_list ug) \<and>
     tree_of (ug_tree_by_conaddr ug) (ug_connections_list ug) \<and> tree_of (ug_tree_by_conid ug) (ug_connections_list ug) \<and>
     ug_num_connections ug = int (length (ug_connections_list ug)) \<and> ug_num_connections ug \<le> ug_max_connections ug \<and> sizes_ok ug"

definition uy_ok :: "ug_sys \<Rightarrow> bool" where
  "uy_ok s \<longleftrightarrow> ug_ok (uy_client s) \<and> tree_of (uy_flows s) (ug_connections_list (uy_client s)) \<and> uy_half s = None \<and> uy_first s = None \<and>
     uy_keepalive s = ug_keepalive_sending (uy_client s) \<and> uy_server s = ug_have_server (uy_client s)"

lemma ug_okD:
  assumes "ug_ok ug"
  shows "conns_ok (ug_max_connections ug) (ug_mem ug) (ug_connections_list ug)"
    and "tree_of (ug_tree_by_conaddr ug) (ug_connections_list ug)" "tree_of (ug_tree_by_conid ug) (ug_connections_list ug)"
    and "ug_num_connections ug = int (length (ug_connections_list ug))" "ug_num_connections ug \<le> ug_max_connections ug" "sizes_ok ug"
  using assms by (simp_all add: ug_ok_def)

section \<open>Lookups\<close>

lemma compare_addr: "addr_ok a \<Longrightarrow> addr_ok b \<Longrightarrow> BAddr_CompareOrder a b = 0 \<longleftrightarrow> a = b"
  using BAddr_CompareOrder_key [of a b] BAddr_key_inject [of a b]
  by (auto simp: addr_ok_def BAddr_ip_def B_COMPARE_def split: BAddr.splits if_splits)

lemma compare_conaddr: "conaddr_ok ca \<Longrightarrow> conaddr_ok cb \<Longrightarrow> conaddr_comparator ca cb = 0 \<longleftrightarrow> ca = cb"
  by (cases ca; cases cb) (auto simp: conaddr_comparator_def conaddr_ok_def compare_addr Let_def)

lemma compare_conid: "uint16_comparator c d = 0 \<longleftrightarrow> c = d"
  by (auto simp: uint16_comparator_def B_COMPARE_def)

lemma find_unique:
  assumes "inj_on f (set ps)" "tree_of t ps"
    and "\<And>p. p \<in> set ps \<Longrightarrow> P p \<longleftrightarrow> f p = k"
  shows "find P t = Some p \<longleftrightarrow> p \<in> set ps \<and> f p = k" "find P t = None \<longleftrightarrow> k \<notin> f ` set ps"
proof -
  have t: "set t = set ps" using assms(2) by (simp add: tree_of_def)
  show none: "find P t = None \<longleftrightarrow> k \<notin> f ` set ps" using assms(3) t by (auto simp: find_None_iff)
  show "find P t = Some p \<longleftrightarrow> p \<in> set ps \<and> f p = k"
  proof
    assume "find P t = Some p"
    then have "p \<in> set t" "P p" by (auto simp: find_Some_iff)
    then show "p \<in> set ps \<and> f p = k" using assms(3) t by auto
  next
    assume p: "p \<in> set ps \<and> f p = k"
    then obtain q where q: "find P t = Some q" using none by (cases "find P t") auto
    then have "q \<in> set t" "P q" by (auto simp: find_Some_iff)
    then show "find P t = Some p" using p q assms(1,3) t by (auto dest: inj_onD)
  qed
qed

lemma find_conaddr:
  assumes "conns_ok n (ug_mem ug) ps" "tree_of (ug_tree_by_conaddr ug) ps" "conaddr_ok ca"
  shows "find_connection_by_conaddr ca ug = Some p \<longleftrightarrow> p \<in> set ps \<and> cn_conaddr (ug_mem ug p) = ca"
    "find_connection_by_conaddr ca ug = None \<longleftrightarrow> ca \<notin> (\<lambda>p. cn_conaddr (ug_mem ug p)) ` set ps"
proof -
  have "inj_on (\<lambda>p. cn_conaddr (ug_mem ug p)) (set ps)"
    "\<And>p. p \<in> set ps \<Longrightarrow> conaddr_comparator ca (cn_conaddr (ug_mem ug p)) = 0 \<longleftrightarrow> cn_conaddr (ug_mem ug p) = ca"
    using assms(1,3) by (auto simp: conns_ok_def compare_conaddr)
  from find_unique [OF this(1) assms(2) this(2)]
  show "find_connection_by_conaddr ca ug = Some p \<longleftrightarrow> p \<in> set ps \<and> cn_conaddr (ug_mem ug p) = ca"
    "find_connection_by_conaddr ca ug = None \<longleftrightarrow> ca \<notin> (\<lambda>p. cn_conaddr (ug_mem ug p)) ` set ps"
    unfolding find_connection_by_conaddr_def by simp_all
qed

lemma find_conid:
  assumes "conns_ok n (ug_mem ug) ps" "tree_of (ug_tree_by_conid ug) ps"
  shows "find_connection_by_conid c ug = Some p \<longleftrightarrow> p \<in> set ps \<and> cn_conid (ug_mem ug p) = c"
    "find_connection_by_conid c ug = None \<longleftrightarrow> c \<notin> (\<lambda>p. cn_conid (ug_mem ug p)) ` set ps"
proof -
  have "inj_on (\<lambda>p. cn_conid (ug_mem ug p)) (set ps)"
    "\<And>p. p \<in> set ps \<Longrightarrow> uint16_comparator c (cn_conid (ug_mem ug p)) = 0 \<longleftrightarrow> cn_conid (ug_mem ug p) = c"
    using assms(1) by (auto simp: conns_ok_def compare_conid)
  from find_unique [OF this(1) assms(2) this(2)]
  show "find_connection_by_conid c ug = Some p \<longleftrightarrow> p \<in> set ps \<and> cn_conid (ug_mem ug p) = c"
    "find_connection_by_conid c ug = None \<longleftrightarrow> c \<notin> (\<lambda>p. cn_conid (ug_mem ug p)) ` set ps"
    unfolding find_connection_by_conid_def by simp_all
qed

section \<open>The search for an identifier ends\<close>

text \<open>The identifiers the search looks at, one after the other.\<close>

lemma next_conid_step:
  assumes "0 \<le> n" "n < num"
  shows "(if n = num - 1 then 0 else n + 1) = (n + 1) mod (num :: int)"
  using assms by (auto simp: mod_pos_pos_trivial)

lemma search_reaches:
  assumes "0 \<le> ug_next_conid ug" "ug_next_conid ug < ug_max_connections ug"
    and "find_connection_by_conid (word_of_int ((ug_next_conid ug + int k) mod ug_max_connections ug)) ug = None"
  shows "\<exists>n. find_unused_conid ug = Some (ug\<lparr>ug_next_conid := n\<rparr>, word_of_int n) \<and> 0 \<le> n \<and> n < ug_max_connections ug \<and>
    find_connection_by_conid (word_of_int n) ug = None"
  using assms
proof (induction k arbitrary: ug)
  case 0
  then have "find_connection_by_conid (word_of_int (ug_next_conid ug)) ug = None" by (simp add: mod_pos_pos_trivial)
  with 0(1,2) show ?case by (intro exI [of _ "ug_next_conid ug"]) (simp add: find_unused_conid.simps)
next
  case (Suc k)
  show ?case
  proof (cases "find_connection_by_conid (word_of_int (ug_next_conid ug)) ug = None")
    case True
    with Suc.prems(1,2) show ?thesis by (intro exI [of _ "ug_next_conid ug"]) (simp add: find_unused_conid.simps)
  next
    case False
    let ?ug = "ug\<lparr>ug_next_conid := (ug_next_conid ug + 1) mod ug_max_connections ug\<rparr>"
    have f: "find_connection_by_conid c ?ug = find_connection_by_conid c ug" for c by (simp add: find_connection_by_conid_def)
    have "find_unused_conid ug = find_unused_conid ?ug"
      using False next_conid_step [OF Suc.prems(1,2)] by (subst find_unused_conid.simps) (auto split: if_splits)
    moreover have "((ug_next_conid ug + 1) mod ug_max_connections ug + int k) mod ug_max_connections ug =
        (ug_next_conid ug + int (Suc k)) mod ug_max_connections ug"
      by (subst mod_add_left_eq) (simp add: ac_simps)
    then have "\<exists>n. find_unused_conid ?ug = Some (?ug\<lparr>ug_next_conid := n\<rparr>, word_of_int n) \<and> 0 \<le> n \<and> n < ug_max_connections ?ug \<and>
        find_connection_by_conid (word_of_int n) ?ug = None"
      using Suc.prems by (intro Suc.IH) (simp_all add: f)
    ultimately show ?thesis by (simp add: f)
  qed
qed

lemma unused_conid_exists:
  assumes "conns_ok num mem ps" "int (length ps) < num" "num \<le> 65536"
  shows "\<exists>n. 0 \<le> n \<and> n < num \<and> word_of_int n \<notin> (\<lambda>p. cn_conid (mem p)) ` set ps"
proof (rule ccontr)
  assume none: "\<not> ?thesis"
  have inj: "inj_on (word_of_int :: int \<Rightarrow> u16) {0..<num}"
    using assms(3) by (intro inj_onI) (auto simp: word_of_int_eq_iff take_bit_int_eq_self)
  have "word_of_int ` {0..<num} \<subseteq> (\<lambda>p. cn_conid (mem p)) ` set ps" using none by auto
  then have "card ((word_of_int :: int \<Rightarrow> u16) ` {0..<num}) \<le> card ((\<lambda>p. cn_conid (mem p)) ` set ps)" by (intro card_mono) auto
  then have "card {0..<num} \<le> card (set ps)"
    using card_image [OF inj] card_image_le [of "set ps" "\<lambda>p. cn_conid (mem p)"] by simp
  also have "\<dots> \<le> length ps" by (rule card_length)
  finally show False using assms(2) by simp
qed

lemma find_unused_ok:
  assumes "ug_ok ug" "ug_num_connections ug < ug_max_connections ug"
  obtains n where "find_unused_conid ug = Some (ug\<lparr>ug_next_conid := n\<rparr>, word_of_int n)" "0 \<le> n" "n < ug_max_connections ug"
    "word_of_int n \<notin> (\<lambda>p. cn_conid (ug_mem ug p)) ` set (ug_connections_list ug)"
proof -
  note ok = ug_okD [OF assms(1)]
  have sz: "0 \<le> ug_next_conid ug" "ug_next_conid ug < ug_max_connections ug" "ug_max_connections ug \<le> 65536"
    using ok(6) by (simp_all add: sizes_ok_def)
  obtain n where n: "0 \<le> n" "n < ug_max_connections ug" "word_of_int n \<notin> (\<lambda>p. cn_conid (ug_mem ug p)) ` set (ug_connections_list ug)"
    using unused_conid_exists [OF ok(1) _ sz(3)] assms(2) ok(4) by auto
  define k where "k = nat ((n - ug_next_conid ug) mod ug_max_connections ug)"
  have "(ug_next_conid ug + int k) mod ug_max_connections ug = n"
    using n(1,2) sz by (simp add: k_def mod_add_right_eq mod_pos_pos_trivial)
  then have "find_connection_by_conid (word_of_int ((ug_next_conid ug + int k) mod ug_max_connections ug)) ug = None"
    using find_conid(2) [OF ok(1,3)] n(3) by simp
  from search_reaches [OF sz(1,2) this] that show thesis using find_conid(2) [OF ok(1,3)] by blast
qed

section \<open>Submitting a packet\<close>

lemma remove1_map: "inj_on f (insert p (set ps)) \<Longrightarrow> remove1 (f p) (map f ps) = map f (remove1 p ps)"
  by (induction ps) (auto simp: inj_on_def)

lemma tree_of_simps:
  "tree_of t ps \<Longrightarrow> p \<in> set ps \<Longrightarrow> distinct ps \<Longrightarrow> tree_of t (remove1 p ps @ [p])"
  "tree_of t ps \<Longrightarrow> p \<notin> set ps \<Longrightarrow> tree_of (p # t) (ps @ [p])"
  "tree_of t (p # ps) \<Longrightarrow> p \<notin> set ps \<Longrightarrow> tree_of (remove1 p t) ps"
  "tree_of t (p # ps) \<Longrightarrow> tree_of t (ps @ [p])"
  by (auto simp: tree_of_def)

lemma conns_ok_perm: "conns_ok n mem ps \<Longrightarrow> distinct qs \<Longrightarrow> set qs = set ps \<Longrightarrow> conns_ok n mem qs"
  by (simp add: conns_ok_def)

lemma inj_on_upd: "p \<notin> set ps \<Longrightarrow> inj_on (\<lambda>q. f ((mem(p := x)) q)) (set ps) = inj_on (\<lambda>q. f (mem q)) (set ps)"
  by (rule inj_on_cong) auto

lemma conns_ok_upd:
  assumes "p \<notin> set ps"
  shows "conns_ok n (mem(p := x)) ps = conns_ok n mem ps"
proof -
  have "q \<noteq> p" if "q \<in> set ps" for q using assms that by auto
  then show ?thesis unfolding conns_ok_def inj_on_upd [OF assms] by auto
qed

lemma conns_ok_snoc:
  assumes "conns_ok n mem ps" "p \<notin> set ps" "conaddr_ok (cn_conaddr x)" "uint (cn_conid x) < n"
    and "cn_conaddr x \<notin> (\<lambda>p. cn_conaddr (mem p)) ` set ps" "cn_conid x \<notin> (\<lambda>p. cn_conid (mem p)) ` set ps"
  shows "conns_ok n (mem(p := x)) (ps @ [p])"
proof -
  have "conns_ok n (mem(p := x)) ps" using assms(1) by (simp only: conns_ok_upd [OF assms(2)])
  moreover have "(\<lambda>q. cn_conaddr ((mem(p := x)) q)) ` set ps = (\<lambda>q. cn_conaddr (mem q)) ` set ps"
    "(\<lambda>q. cn_conid ((mem(p := x)) q)) ` set ps = (\<lambda>q. cn_conid (mem q)) ` set ps"
    by (rule image_cong; use assms(2) in auto)+
  ultimately show ?thesis using assms(2-6) unfolding conns_ok_def by (simp del: fun_upd_apply add: fun_upd_same)
qed

lemma conns_ok_tl:
  assumes "conns_ok n mem (p # ps)"
  shows "conns_ok n mem ps" "p \<notin> set ps" "cn_conid (mem p) \<notin> (\<lambda>p. cn_conid (mem p)) ` set ps" "uint (cn_conid (mem p)) < n"
  using assms by (auto simp: conns_ok_def inj_on_def)

lemma list_to_end_ok:
  assumes "ug_ok ug" "p \<in> set (ug_connections_list ug)"
  shows "ug_ok (list_to_end p ug)"
    and "ug_table (list_to_end p ug) = to_end (cn_conaddr (ug_mem ug p), cn_conid (ug_mem ug p)) (ug_table ug)"
proof -
  note ok = ug_okD [OF assms(1)]
  have d: "distinct (ug_connections_list ug)" using ok(1) by (simp add: conns_ok_def)
  have "conns_ok (ug_max_connections ug) (ug_mem ug) (remove1 p (ug_connections_list ug) @ [p])"
    by (rule conns_ok_perm [OF ok(1)]) (use d assms(2) in auto)
  moreover have "length (remove1 p (ug_connections_list ug) @ [p]) = length (ug_connections_list ug)"
    using assms(2) length_pos_if_in_set [OF assms(2)] by (simp add: length_remove1)
  ultimately show "ug_ok (list_to_end p ug)"
    using ok(2-6) tree_of_simps(1) [OF ok(2) assms(2) d] tree_of_simps(1) [OF ok(3) assms(2) d]
    by (simp add: ug_ok_def list_to_end_def sizes_ok_def)
  have "inj_on (\<lambda>p. (cn_conaddr (ug_mem ug p), cn_conid (ug_mem ug p))) (insert p (set (ug_connections_list ug)))"
    using ok(1) assms(2) by (auto simp: conns_ok_def inj_on_def)
  from remove1_map [OF this]
  show "ug_table (list_to_end p ug) = to_end (cn_conaddr (ug_mem ug p), cn_conid (ug_mem ug p)) (ug_table ug)"
    by (simp add: ug_table_def list_to_end_def to_end_def)
qed

lemma connection_send_eq:
  "addr_ok (ca_remote_addr (cn_conaddr (ug_mem ug p))) \<Longrightarrow>
   connection_send start p flags data ug =
     (if start then [Ug_Write p (udpgw_message flags (cn_conid (ug_mem ug p)) (ca_remote_addr (cn_conaddr (ug_mem ug p))) data)] else [])"
  by (auto simp: connection_send_def udpgw_message_def udpgw_header_def udpgw_addr_ipv4_def udpgw_addr_ipv6_def addr_bytes_def is_ipv6_def
      addr_ok_def ltoh8_def ltoh16_def htol8_def htol16_def Let_def split: BAddr.splits)

lemma length_message: "addr_ok remote \<Longrightarrow> length (udpgw_message flags conid remote data) \<le> 21 + length data"
  by (auto simp: udpgw_message_def addr_bytes_def addr_ok_def split: BAddr.splits)

lemma write_ok:
  assumes "addr_ok r" "p \<in> set (uy_flows s)" "sizes_ok (uy_client s)" "int (length data) \<le> ug_udp_mtu (uy_client s)"
  shows "ug_perform (if start then [Ug_Write p (udpgw_message flags c r data)] else []) s =
    Some (if start then s\<lparr>uy_sent := uy_sent s @ [udpgw_message flags c r data]\<rparr> else s)"
proof -
  have "int (length (udpgw_message flags c r data)) \<le> ug_udpgw_mtu (uy_client s)"
    using length_message [OF assms(1), of flags c data] assms(3,4) by (simp add: sizes_ok_def)
  then show ?thesis using assms(2) by simp
qed

lemma reuse_ok:
  assumes "ug_ok ug" "ug_connections_list ug = p # rest" "conaddr_ok ca" "ca \<notin> (\<lambda>p. cn_conaddr (ug_mem ug p)) ` set (ug_connections_list ug)"
  obtains ug' where "reuse_connection ca ug = (ug', p)" "ug_ok ug'" "ug_connections_list ug' = p # rest"
    "ug_mem ug' = (ug_mem ug)(p := (ug_mem ug p)\<lparr>cn_conaddr := ca\<rparr>)" "ug_udp_mtu ug' = ug_udp_mtu ug"
    "ug_max_connections ug' = ug_max_connections ug" "ug_keepalive_sending ug' = ug_keepalive_sending ug" "ug_have_server ug' = ug_have_server ug"
proof -
  note ok = ug_okD [OF assms(1), unfolded assms(2)]
  note tl = conns_ok_tl [OF ok(1)]
  let ?mem = "(ug_mem ug)(p := (ug_mem ug p)\<lparr>cn_conaddr := ca\<rparr>)"
  let ?ug = "ug\<lparr>ug_tree_by_conaddr := remove1 p (ug_tree_by_conaddr ug), ug_mem := ?mem\<rparr>"
  have rest: "conns_ok (ug_max_connections ug) ?mem rest"
    using tl(1) by (simp only: conns_ok_upd [OF tl(2)])
  have t: "tree_of (remove1 p (ug_tree_by_conaddr ug)) rest" by (rule tree_of_simps(3) [OF ok(2) tl(2)])
  have "(\<lambda>q. cn_conaddr (?mem q)) ` set rest = (\<lambda>q. cn_conaddr (ug_mem ug q)) ` set rest"
    by (rule image_cong) (use tl(2) in auto)
  then have "ca \<notin> (\<lambda>q. cn_conaddr (?mem q)) ` set rest" using assms(2,4) by auto
  then have none: "find_connection_by_conaddr ca ?ug = None"
    using find_conaddr(2) [of _ ?ug rest ca] rest t assms(3) by auto
  let ?ug' = "?ug\<lparr>ug_tree_by_conaddr := p # remove1 p (ug_tree_by_conaddr ug)\<rparr>"
  have r: "reuse_connection ca ug = (?ug', p)"
    using none by (simp add: reuse_connection_def insert_by_conaddr_def assms(2) Let_def)
  have "conns_ok (ug_max_connections ug) ?mem (rest @ [p])"
    using tl assms(2,3,4) by (intro conns_ok_snoc) auto
  then have "conns_ok (ug_max_connections ug) ?mem (p # rest)"
    using tl(1,2) by (elim conns_ok_perm) (auto simp: conns_ok_def)
  moreover have "tree_of (p # remove1 p (ug_tree_by_conaddr ug)) (p # rest)" using t tl(2) by (simp add: tree_of_def)
  ultimately have "ug_ok ?ug'" using ok(3-6) assms(2) by (simp add: ug_ok_def sizes_ok_def)
  with r show thesis using that [of ?ug'] assms(2) by simp
qed


lemma ug_abs_entry:
  "p \<in> set (ug_connections_list (uy_client s)) \<Longrightarrow>
     (cn_conaddr (ug_mem (uy_client s) p), cn_conid (ug_mem (uy_client s) p)) \<in> set (gw_table (ug_abs s))"
  by (auto simp: ug_abs_def ug_table_def)

lemma ug_abs_keys: "fst ` set (gw_table (ug_abs s)) = (\<lambda>p. cn_conaddr (ug_mem (uy_client s) p)) ` set (ug_connections_list (uy_client s))"
  "snd ` set (gw_table (ug_abs s)) = (\<lambda>p. cn_conid (ug_mem (uy_client s) p)) ` set (ug_connections_list (uy_client s))"
  "length (gw_table (ug_abs s)) = length (ug_connections_list (uy_client s))"
  by (auto simp: ug_abs_def ug_table_def image_image)

lemma uy_okD:
  assumes "uy_ok s"
  shows "ug_ok (uy_client s)" "tree_of (uy_flows s) (ug_connections_list (uy_client s))" "uy_half s = None" "uy_first s = None"
    "uy_keepalive s = ug_keepalive_sending (uy_client s)" "uy_server s = ug_have_server (uy_client s)"
  using assms by (simp_all add: uy_ok_def)

definition sent_state :: "bool \<Rightarrow> bytes \<Rightarrow> UdpGwClient \<Rightarrow> ug_sys \<Rightarrow> ug_sys" where
  "sent_state start m ug s = (if start then s\<lparr>uy_client := ug, uy_sent := uy_sent s @ [m]\<rparr> else s\<lparr>uy_client := ug\<rparr>)"

lemma sent_state_abs: "ug_abs (sent_state start m ug s) = gw_send start m ((ug_abs s)\<lparr>gw_table := ug_table ug\<rparr>)"
  by (simp add: sent_state_def ug_abs_def gw_send_def)

lemma sent_state_sel [simp]:
  "uy_client (sent_state start m ug s) = ug" "uy_flows (sent_state start m ug s) = uy_flows s" "uy_half (sent_state start m ug s) = uy_half s"
  "uy_first (sent_state start m ug s) = uy_first s" "uy_keepalive (sent_state start m ug s) = uy_keepalive s"
  "uy_server (sent_state start m ug s) = uy_server s"
  by (simp_all add: sent_state_def)

lemma handle_send:
  assumes "ug_ok ug" "p \<in> set (ug_connections_list ug)" "p \<in> set (uy_flows s)" "int (length data) \<le> ug_udp_mtu ug"
  shows "ug_handle (ug, connection_send start p flags data ug) s =
    Some (sent_state start (udpgw_message flags (cn_conid (ug_mem ug p)) (ca_remote_addr (cn_conaddr (ug_mem ug p))) data) ug s)"
proof -
  have a: "addr_ok (ca_remote_addr (cn_conaddr (ug_mem ug p)))"
    using ug_okD(1) [OF assms(1)] assms(2) by (simp add: conns_ok_def conaddr_ok_def)
  have "ug_perform (connection_send start p flags data ug) (s\<lparr>uy_client := ug\<rparr>) =
      Some (sent_state start (udpgw_message flags (cn_conid (ug_mem ug p)) (ca_remote_addr (cn_conaddr (ug_mem ug p))) data) ug s)"
    unfolding connection_send_eq [OF a]
    using write_ok [OF a, of p "s\<lparr>uy_client := ug\<rparr>" data] assms(3,4) ug_okD(6) [OF assms(1)] by (simp add: sent_state_def)
  then show ?thesis by (simp add: ug_handle_def)
qed

definition step_good :: "ug_event \<Rightarrow> ug_sys \<Rightarrow> ug_sys option \<Rightarrow> bool" where
  "step_good e s r =
     (case r of None \<Rightarrow> False
      | Some s' \<Rightarrow> uy_ok s' \<and> gw_step (ug_udp_mtu (uy_client s)) (ug_max_connections (uy_client s)) e (ug_abs s) (ug_abs s') \<and>
          ug_udp_mtu (uy_client s') = ug_udp_mtu (uy_client s) \<and> ug_max_connections (uy_client s') = ug_max_connections (uy_client s))"


text \<open>Sending on a connection of a client that is about to replace the one of \<^verbatim>\<open>s\<close>.\<close>

lemma send_on:
  fixes start :: bool and flags :: u8
  assumes ok: "uy_ok s" and ug: "ug_ok ug" "ug_connections_list ug = ug_connections_list (uy_client s)"
    "ug_udp_mtu ug = ug_udp_mtu (uy_client s)" "ug_keepalive_sending ug = ug_keepalive_sending (uy_client s)"
    "ug_have_server ug = ug_have_server (uy_client s)"
    and p: "p \<in> set (ug_connections_list ug)" and d: "int (length data) \<le> ug_udp_mtu ug"
  defines "s' \<equiv> sent_state start (udpgw_message flags (cn_conid (ug_mem ug p)) (ca_remote_addr (cn_conaddr (ug_mem ug p))) data) (list_to_end p ug) s"
  shows "Option.bind (ug_handle (list_to_end p ug, connection_send start p flags data (list_to_end p ug)) s) (first_job start) = Some s'"
    and "uy_ok s'"
proof -
  note u = uy_okD [OF ok]
  let ?ug' = "list_to_end p ug"
  note ug' = list_to_end_ok(1) [OF ug(1) p]
  have sel: "ug_mem ?ug' = ug_mem ug" "set (ug_connections_list ?ug') = set (ug_connections_list ug)" "ug_udp_mtu ?ug' = ug_udp_mtu ug"
    "ug_keepalive_sending ?ug' = ug_keepalive_sending ug" "ug_have_server ?ug' = ug_have_server ug"
    using p ug_okD(1) [OF ug(1)] by (auto simp: list_to_end_def conns_ok_def)
  have "ug_handle (?ug', connection_send start p flags data ?ug') s = Some s'"
    unfolding s'_def using handle_send [OF ug', of p s data start flags] p u(2) d sel ug(2) by (simp add: tree_of_def)
  then show "Option.bind (ug_handle (?ug', connection_send start p flags data ?ug') s) (first_job start) = Some s'"
    using u(4) by (simp add: first_job_def s'_def)
  have "tree_of (uy_flows s) (ug_connections_list ?ug')" using u(2) sel(2) ug(2) by (simp add: tree_of_def)
  then show "uy_ok s'" unfolding s'_def using ug' u sel ug by (simp add: uy_ok_def)
qed

lemma list_to_end_sel [simp]:
  "ug_udp_mtu (list_to_end p ug) = ug_udp_mtu ug" "ug_max_connections (list_to_end p ug) = ug_max_connections ug"
  by (simp_all add: list_to_end_def)

lemma submit_known:
  assumes ok: "uy_ok s" and o: "offered (Ev_Submit alloc pp start l r is_dns data) s"
    and f: "find_connection_by_conaddr \<lparr>ca_local_addr = l, ca_remote_addr = r\<rparr> (uy_client s) = Some p"
  shows "step_good (Ev_Submit alloc pp start l r is_dns data) s (ug_step (Ev_Submit alloc pp start l r is_dns data) s)"
proof -
  let ?ug = "uy_client s" and ?ca = "\<lparr>ca_local_addr = l, ca_remote_addr = r\<rparr>"
  note u = uy_okD(1) [OF ok]
  have p: "p \<in> set (ug_connections_list ?ug)" "cn_conaddr (ug_mem ?ug p) = ?ca"
    using f find_conaddr(1) [OF ug_okD(1,2) [OF u], of ?ca p] o by (auto simp: conaddr_ok_def offered_def)
  have d: "int (length data) \<le> ug_udp_mtu ?ug" using o by (simp add: offered_def)
  have "UdpGwClient_SubmitPacket alloc pp start l r is_dns data ?ug =
      Some (list_to_end p ?ug, connection_send start p (dns_flag is_dns) data (list_to_end p ?ug))"
    by (simp add: UdpGwClient_SubmitPacket_def f dns_flag_def Let_def)
  note send = this send_on [OF ok u refl refl refl refl p(1) d, of start "dns_flag is_dns"]
  show ?thesis
    using o send gw_step.known [of l r "cn_conid (ug_mem ?ug p)" "ug_abs s"] ug_abs_entry [OF p(1)] p(2) list_to_end_ok(2) [OF u p(1)]
    by (simp add: step_good_def sent_state_abs offered_def) (simp add: ug_abs_def)
qed

lemma submit_reuse:
  assumes ok: "uy_ok s" and o: "offered (Ev_Submit alloc pp start l r is_dns data) s"
    and f: "find_connection_by_conaddr \<lparr>ca_local_addr = l, ca_remote_addr = r\<rparr> (uy_client s) = None"
    and full: "ug_num_connections (uy_client s) = ug_max_connections (uy_client s)"
  shows "step_good (Ev_Submit alloc pp start l r is_dns data) s (ug_step (Ev_Submit alloc pp start l r is_dns data) s)"
proof -
  let ?ug = "uy_client s" and ?ca = "\<lparr>ca_local_addr = l, ca_remote_addr = r\<rparr>"
  note u = uy_okD(1) [OF ok] and k = ug_okD [OF uy_okD(1) [OF ok]]
  have ca: "conaddr_ok ?ca" "?ca \<notin> (\<lambda>p. cn_conaddr (ug_mem ?ug p)) ` set (ug_connections_list ?ug)"
    using f find_conaddr(2) [OF k(1,2), of ?ca] o by (auto simp: conaddr_ok_def offered_def)
  obtain p rest where l: "ug_connections_list ?ug = p # rest" using full k(4,6) by (cases "ug_connections_list ?ug") (auto simp: sizes_ok_def)
  obtain ug where ug: "reuse_connection ?ca ?ug = (ug, p)" "ug_ok ug" "ug_connections_list ug = p # rest"
    "ug_mem ug = (ug_mem ?ug)(p := (ug_mem ?ug p)\<lparr>cn_conaddr := ?ca\<rparr>)" "ug_udp_mtu ug = ug_udp_mtu ?ug"
    "ug_max_connections ug = ug_max_connections ?ug" "ug_keepalive_sending ug = ug_keepalive_sending ?ug" "ug_have_server ug = ug_have_server ?ug"
    using reuse_ok [OF u l ca] by blast
  have p: "p \<in> set (ug_connections_list ug)" "p \<notin> set rest" using ug(3) conns_ok_tl(2) [OF k(1) [unfolded l]] by simp_all
  have d: "int (length data) \<le> ug_udp_mtu ug" using o ug(5) by (simp add: offered_def)
  let ?flags = "dns_flag is_dns OR UDPGW_CLIENT_FLAG_REBIND"
  have "UdpGwClient_SubmitPacket alloc pp start l r is_dns data ?ug =
      Some (list_to_end p ug, connection_send start p ?flags data (list_to_end p ug))"
    by (simp add: UdpGwClient_SubmitPacket_def f full ug(1) dns_flag_def Let_def)
  note send = this send_on [OF ok ug(2) _ ug(5,7,8) p(1) d, of start ?flags]
  have t: "ug_table (list_to_end p ug) = tl (gw_table (ug_abs s)) @ [(?ca, cn_conid (ug_mem ?ug p))]"
    using p(2) by (auto simp: ug_table_def list_to_end_def ug(3,4) ug_abs_def l)
  have "gw_step (ug_udp_mtu ?ug) (ug_max_connections ?ug) (Ev_Submit alloc pp start l r is_dns data) (ug_abs s)
      (gw_send start (udpgw_message ?flags (cn_conid (ug_mem ?ug p)) r data)
        ((ug_abs s)\<lparr>gw_table := tl (gw_table (ug_abs s)) @ [(?ca, cn_conid (ug_mem ?ug p))]\<rparr>))"
    by (rule gw_step.reuse [of l r "ug_abs s" _ "cn_conaddr (ug_mem ?ug p)"])
      (use ca(2) full k(4) in \<open>simp_all add: ug_abs_keys\<close>, simp add: ug_abs_def ug_table_def l)
  then show ?thesis using o send ug l by (simp add: step_good_def sent_state_abs t offered_def)
qed


text \<open>The identifier is chosen and the object written; it is not in the trees and the list yet.\<close>

lemma fresh_ok:
  assumes "ug_ok ug" "q \<notin> set (ug_connections_list ug)" "0 \<le> n" "n < ug_max_connections ug"
  shows "ug_ok (ug\<lparr>ug_next_conid := n, ug_mem := (ug_mem ug)(q := x)\<rparr>)"
    "ug_table (ug\<lparr>ug_next_conid := n, ug_mem := (ug_mem ug)(q := x)\<rparr>) = ug_table ug"
proof -
  show "ug_ok (ug\<lparr>ug_next_conid := n, ug_mem := (ug_mem ug)(q := x)\<rparr>)"
    using ug_okD [OF assms(1)] assms(3,4) conns_ok_upd [OF assms(2)] by (simp add: ug_ok_def sizes_ok_def del: fun_upd_apply)
  show "ug_table (ug\<lparr>ug_next_conid := n, ug_mem := (ug_mem ug)(q := x)\<rparr>) = ug_table ug"
    using assms(2) by (auto simp: ug_table_def)
qed

definition new_client :: "nat \<Rightarrow> int \<Rightarrow> UdpGwClient_connection \<Rightarrow> UdpGwClient \<Rightarrow> UdpGwClient" where
  "new_client q n x ug = ug\<lparr>ug_next_conid := n, ug_mem := (ug_mem ug)(q := x), ug_tree_by_conaddr := q # ug_tree_by_conaddr ug,
     ug_tree_by_conid := q # ug_tree_by_conid ug, ug_connections_list := ug_connections_list ug @ [q],
     ug_num_connections := ug_num_connections ug + 1\<rparr>"

lemma new_client_ok:
  assumes ok: "ug_ok ug" and q: "q \<notin> set (ug_connections_list ug)" and n: "0 \<le> n" "n < ug_max_connections ug"
    and x: "conaddr_ok (cn_conaddr x)" "cn_conid x = word_of_int n" "cn_conaddr x \<notin> (\<lambda>p. cn_conaddr (ug_mem ug p)) ` set (ug_connections_list ug)"
      "word_of_int n \<notin> (\<lambda>p. cn_conid (ug_mem ug p)) ` set (ug_connections_list ug)"
    and room: "ug_num_connections ug < ug_max_connections ug"
  shows "ug_ok (new_client q n x ug)" "ug_table (new_client q n x ug) = ug_table ug @ [(cn_conaddr x, cn_conid x)]"
    "uint (word_of_int n :: u16) = n"
proof -
  note k = ug_okD [OF ok]
  show u: "uint (word_of_int n :: u16) = n" using n k(6) by (simp add: sizes_ok_def uint_word_of_int)
  have "conns_ok (ug_max_connections ug) ((ug_mem ug)(q := x)) (ug_connections_list ug @ [q])"
    using x n u by (intro conns_ok_snoc k(1) q) simp_all
  then show "ug_ok (new_client q n x ug)"
    using k(2-6) n room tree_of_simps(2) [OF _ q] by (simp add: new_client_def ug_ok_def sizes_ok_def del: fun_upd_apply)
  show "ug_table (new_client q n x ug) = ug_table ug @ [(cn_conaddr x, cn_conid x)]"
    using q by (auto simp: new_client_def ug_table_def)
qed

lemma connection_init_ok:
  assumes ok: "ug_ok ug" and q: "q \<notin> set (ug_connections_list ug)" and ca: "conaddr_ok ca" "ca \<notin> (\<lambda>p. cn_conaddr (ug_mem ug p)) ` set (ug_connections_list ug)"
    and room: "ug_num_connections ug < ug_max_connections ug"
  obtains n x where "connection_init (Some q) pp ca flags data ug =
      Some (if pp then (new_client q n x ug, [Ug_FirstJob_Set q, Ug_Qflow_Init q, Ug_Ppflow_Init q])
        else (ug\<lparr>ug_next_conid := n, ug_mem := (ug_mem ug)(q := x)\<rparr>, [Ug_FirstJob_Set q, Ug_Qflow_Init q, Ug_Qflow_Free q, Ug_FirstJob_Free q]))"
    "x = \<lparr>cn_conaddr = ca, cn_first_flags = flags, cn_first_data = data, cn_conid = word_of_int n\<rparr>"
    "0 \<le> n" "n < ug_max_connections ug" "word_of_int n \<notin> (\<lambda>p. cn_conid (ug_mem ug p)) ` set (ug_connections_list ug)"
proof -
  obtain n where n: "find_unused_conid ug = Some (ug\<lparr>ug_next_conid := n\<rparr>, word_of_int n)" "0 \<le> n" "n < ug_max_connections ug"
    "word_of_int n \<notin> (\<lambda>p. cn_conid (ug_mem ug p)) ` set (ug_connections_list ug)"
    by (rule find_unused_ok [OF ok room])
  let ?x = "\<lparr>cn_conaddr = ca, cn_first_flags = flags, cn_first_data = data, cn_conid = word_of_int n\<rparr>"
  let ?ug = "ug\<lparr>ug_next_conid := n, ug_mem := (ug_mem ug)(q := ?x)\<rparr>"
  note k = ug_okD [OF ok] and k' = ug_okD [OF fresh_ok(1) [OF ok q n(2,3), of ?x]]
  have img: "(\<lambda>p. cn_conaddr (ug_mem ?ug p)) ` set (ug_connections_list ug) = (\<lambda>p. cn_conaddr (ug_mem ug p)) ` set (ug_connections_list ug)"
    "(\<lambda>p. cn_conid (ug_mem ?ug p)) ` set (ug_connections_list ug) = (\<lambda>p. cn_conid (ug_mem ug p)) ` set (ug_connections_list ug)"
    by (rule image_cong; use q in auto)+
  have a: "insert_by_conaddr q ?ug = ?ug\<lparr>ug_tree_by_conaddr := q # ug_tree_by_conaddr ug\<rparr>"
    using find_conaddr(2) [OF k'(1,2) ca(1)] ca(2) img(1) by (simp add: insert_by_conaddr_def)
  have "tree_of (ug_tree_by_conid ug) (ug_connections_list ug)" by (rule k(3))
  then have "find_connection_by_conid (word_of_int n) (?ug\<lparr>ug_tree_by_conaddr := q # ug_tree_by_conaddr ug\<rparr>) = None"
    using find_conid(2) [of _ "?ug\<lparr>ug_tree_by_conaddr := q # ug_tree_by_conaddr ug\<rparr>" "ug_connections_list ug"] k'(1) n(4) img(2) by simp
  then have b: "insert_by_conid q (?ug\<lparr>ug_tree_by_conaddr := q # ug_tree_by_conaddr ug\<rparr>) =
      ?ug\<lparr>ug_tree_by_conaddr := q # ug_tree_by_conaddr ug, ug_tree_by_conid := q # ug_tree_by_conid ug\<rparr>"
    by (simp add: insert_by_conid_def)
  show thesis using n a b by (intro that [of n ?x]) (simp_all add: connection_init_def new_client_def Let_def)
qed


lemma submit_no_memory:
  assumes ok: "uy_ok s" and o: "offered (Ev_Submit alloc pp start l r is_dns data) s"
    and f: "find_connection_by_conaddr \<lparr>ca_local_addr = l, ca_remote_addr = r\<rparr> (uy_client s) = None"
    and room: "ug_num_connections (uy_client s) \<noteq> ug_max_connections (uy_client s)" and m: "alloc = None \<or> \<not> pp"
  shows "step_good (Ev_Submit alloc pp start l r is_dns data) s (ug_step (Ev_Submit alloc pp start l r is_dns data) s)"
proof -
  let ?ug = "uy_client s" and ?ca = "\<lparr>ca_local_addr = l, ca_remote_addr = r\<rparr>"
  note u = uy_okD [OF ok] and k = ug_okD [OF uy_okD(1) [OF ok]]
  have ca: "conaddr_ok ?ca" "?ca \<notin> (\<lambda>p. cn_conaddr (ug_mem ?ug p)) ` set (ug_connections_list ?ug)"
    using f find_conaddr(2) [OF k(1,2), of ?ca] o by (auto simp: conaddr_ok_def offered_def)
  have lt: "ug_num_connections ?ug < ug_max_connections ?ug" using room k(5) by simp
  have gw: "gw_step (ug_udp_mtu ?ug) (ug_max_connections ?ug) (Ev_Submit alloc pp start l r is_dns data) (ug_abs s) (ug_abs s)"
    by (rule gw_step.no_memory) (use ca(2) lt k(4) m in \<open>simp_all add: ug_abs_keys\<close>)
  have sub: "UdpGwClient_SubmitPacket alloc pp start l r is_dns data ?ug = connection_init alloc pp ?ca (dns_flag is_dns) data ?ug"
    by (simp add: UdpGwClient_SubmitPacket_def f room dns_flag_def Let_def)
  show ?thesis
  proof (cases alloc)
    case None
    then show ?thesis using ok o gw sub u(4) by (simp add: step_good_def offered_def connection_init_def ug_handle_def first_job_def)
  next
    case (Some q)
    then have q: "q \<notin> set (ug_connections_list ?ug)" using o u(2) by (simp add: offered_def tree_of_def)
    obtain n x where ci: "connection_init (Some q) pp ?ca (dns_flag is_dns) data ?ug =
        Some (if pp then (new_client q n x ?ug, [Ug_FirstJob_Set q, Ug_Qflow_Init q, Ug_Ppflow_Init q])
          else (?ug\<lparr>ug_next_conid := n, ug_mem := (ug_mem ?ug)(q := x)\<rparr>, [Ug_FirstJob_Set q, Ug_Qflow_Init q, Ug_Qflow_Free q, Ug_FirstJob_Free q]))"
      and n: "0 \<le> n" "n < ug_max_connections ?ug"
      by (rule connection_init_ok [OF u(1) q ca lt])
    let ?s = "s\<lparr>uy_client := ?ug\<lparr>ug_next_conid := n, ug_mem := (ug_mem ?ug)(q := x)\<rparr>\<rparr>"
    note fr = fresh_ok [OF u(1) q n, of x]
    have "\<not> pp" using m Some by simp
    then have "ug_step (Ev_Submit alloc pp start l r is_dns data) s = Some ?s"
      using o sub ci Some u(2-4) q by (simp add: offered_def ug_handle_def first_job_def tree_of_def)
    moreover have "ug_abs ?s = ug_abs s" using fr(2) by (simp add: ug_abs_def)
    moreover have "uy_ok ?s" using fr(1) u by (simp add: uy_ok_def)
    ultimately show ?thesis using gw by (simp add: step_good_def)
  qed
qed

lemma submit_create:
  assumes ok: "uy_ok s" and o: "offered (Ev_Submit (Some q) True start l r is_dns data) s"
    and f: "find_connection_by_conaddr \<lparr>ca_local_addr = l, ca_remote_addr = r\<rparr> (uy_client s) = None"
    and room: "ug_num_connections (uy_client s) \<noteq> ug_max_connections (uy_client s)"
  shows "step_good (Ev_Submit (Some q) True start l r is_dns data) s (ug_step (Ev_Submit (Some q) True start l r is_dns data) s)"
proof -
  let ?ug = "uy_client s" and ?ca = "\<lparr>ca_local_addr = l, ca_remote_addr = r\<rparr>" and ?e = "Ev_Submit (Some q) True start l r is_dns data"
  note u = uy_okD [OF ok] and k = ug_okD [OF uy_okD(1) [OF ok]]
  have ca: "conaddr_ok ?ca" "?ca \<notin> (\<lambda>p. cn_conaddr (ug_mem ?ug p)) ` set (ug_connections_list ?ug)"
    using f find_conaddr(2) [OF k(1,2), of ?ca] o by (auto simp: conaddr_ok_def offered_def)
  have lt: "ug_num_connections ?ug < ug_max_connections ?ug" using room k(5) by simp
  have q: "q \<notin> set (ug_connections_list ?ug)" using o u(2) by (simp add: offered_def tree_of_def)
  obtain n x where ci: "connection_init (Some q) True ?ca (dns_flag is_dns) data ?ug =
      Some (if True then (new_client q n x ?ug, [Ug_FirstJob_Set q, Ug_Qflow_Init q, Ug_Ppflow_Init q])
        else (?ug\<lparr>ug_next_conid := n, ug_mem := (ug_mem ?ug)(q := x)\<rparr>, [Ug_FirstJob_Set q, Ug_Qflow_Init q, Ug_Qflow_Free q, Ug_FirstJob_Free q]))"
    and x: "x = \<lparr>cn_conaddr = ?ca, cn_first_flags = dns_flag is_dns, cn_first_data = data, cn_conid = word_of_int n\<rparr>"
    and n: "0 \<le> n" "n < ug_max_connections ?ug" "word_of_int n \<notin> (\<lambda>p. cn_conid (ug_mem ?ug p)) ` set (ug_connections_list ?ug)"
    by (rule connection_init_ok [OF u(1) q ca lt])
  let ?ug' = "new_client q n x ?ug"
  note nc = new_client_ok [OF u(1) q n(1,2), of x]
  have new: "ug_ok ?ug'" "ug_table ?ug' = ug_table ?ug @ [(?ca, word_of_int n)]" "uint (word_of_int n :: u16) = n"
    using nc ca n(3) lt x by simp_all
  have sel: "ug_connections_list ?ug' = ug_connections_list ?ug @ [q]" "ug_mem ?ug' q = x" "ug_udp_mtu ?ug' = ug_udp_mtu ?ug"
    "ug_max_connections ?ug' = ug_max_connections ?ug" "ug_keepalive_sending ?ug' = ug_keepalive_sending ?ug" "ug_have_server ?ug' = ug_have_server ?ug"
    by (simp_all add: new_client_def)
  let ?t = "s\<lparr>uy_flows := q # uy_flows s, uy_client := ?ug'\<rparr>"
  let ?m = "udpgw_message (UDPGW_CLIENT_FLAG_REBIND OR dns_flag is_dns) (word_of_int n) r data"
  have "UdpGwClient_SubmitPacket (Some q) True start l r is_dns data ?ug = Some (?ug', [Ug_FirstJob_Set q, Ug_Qflow_Init q, Ug_Ppflow_Init q])"
    using ci by (simp add: UdpGwClient_SubmitPacket_def f room dns_flag_def Let_def)
  then have "ug_step ?e s = first_job start (?t\<lparr>uy_first := Some q\<rparr>)"
    using o u(2-4) q by (cases s) (simp add: offered_def ug_handle_def tree_of_def)
  also have "\<dots> = ug_handle (?ug', connection_send start q (UDPGW_CLIENT_FLAG_REBIND OR dns_flag is_dns) data ?ug') ?t"
    using u(4) sel(2) x by (cases s) (simp add: first_job_def connection_first_job_handler_def ug_handle_def)
  also have "\<dots> = Some (sent_state start ?m ?ug' ?t)"
    using handle_send [OF new(1), of q ?t data] sel o by (simp add: x offered_def)
  finally have step: "ug_step ?e s = Some (sent_state start ?m ?ug' ?t)" .
  have "uy_ok (sent_state start ?m ?ug' ?t)" using new(1) u sel tree_of_simps(2) [OF u(2) q] by (simp add: uy_ok_def)
  moreover have "gw_step (ug_udp_mtu ?ug) (ug_max_connections ?ug) ?e (ug_abs s) (ug_abs (sent_state start ?m ?ug' ?t))"
    using gw_step.create [of l r "ug_abs s" "ug_max_connections ?ug" "word_of_int n"] ca(2) lt n(2,3) k(4) new(2,3)
    by (simp add: ug_abs_keys sent_state_abs) (simp add: ug_abs_def)
  ultimately show ?thesis using step sel by (simp add: step_good_def)
qed

lemma submit_ok:
  assumes "uy_ok s" "offered (Ev_Submit alloc pp start l r is_dns data) s"
  shows "step_good (Ev_Submit alloc pp start l r is_dns data) s (ug_step (Ev_Submit alloc pp start l r is_dns data) s)"
proof (cases "find_connection_by_conaddr \<lparr>ca_local_addr = l, ca_remote_addr = r\<rparr> (uy_client s)")
  case None
  show ?thesis
  proof (cases "ug_num_connections (uy_client s) = ug_max_connections (uy_client s)")
    case True
    then show ?thesis by (rule submit_reuse [OF assms None])
  next
    case False
    show ?thesis
    proof (cases "alloc = None \<or> \<not> pp")
      case True
      then show ?thesis by (rule submit_no_memory [OF assms None False])
    next
      case created: False
      then obtain q where "alloc = Some q" "pp = True" by auto
      with assms(2) show ?thesis using submit_create [OF assms(1) _ None False, of q start is_dns data] by (simp only:)
    qed
  qed
qed (rule submit_known [OF assms])

section \<open>A packet of the server\<close>

text \<open>The identifier, the remote address and the data of a message.\<close>

definition parse_reply :: "bytes \<Rightarrow> (u16 \<times> BAddr \<times> bytes) option" where
  "parse_reply m =
     (if length m < 3 then None
      else if (m ! 0) AND UDPGW_CLIENT_FLAG_IPV6 \<noteq> 0
      then (if length m < 21 then None
        else Some (badvpn_read_le16 (drop 1 m), BAddr_IPv6 (take 16 (drop 3 m)) (badvpn_read_le16 (drop 19 m)), drop 21 m))
      else if length m < 9 then None
      else Some (badvpn_read_le16 (drop 1 m), BAddr_IPv4 (badvpn_read_le32 (drop 3 m)) (badvpn_read_le16 (drop 7 m)), drop 9 m))"

lemma recv_parse:
  "recv_interface_handler_send m ug =
     (case parse_reply m of
        None \<Rightarrow> (ug, [Ug_Recv_Done])
      | Some (conid, remote, data) \<Rightarrow>
          if int (length data) > ug_udp_mtu ug then (ug, [Ug_Recv_Done])
          else case find_connection_by_conid conid ug of
            None \<Rightarrow> (ug, [Ug_Recv_Done])
          | Some con \<Rightarrow>
              if BAddr_CompareOrder (ca_remote_addr (cn_conaddr (ug_mem ug con))) remote \<noteq> 0 then (ug, [Ug_Recv_Done])
              else (list_to_end con ug, [Ug_Recv_Done, Ug_handler_received (ca_local_addr (cn_conaddr (ug_mem ug con)))
                     (ca_remote_addr (cn_conaddr (ug_mem ug con))) data]))"
  by (auto simp: recv_interface_handler_send_def parse_reply_def Let_def ltoh8_def ltoh16_def htol8_def htol16_def split: option.splits)

lemma split_16: "2 \<le> length m \<Longrightarrow> mem16 (badvpn_read_le16 m) @ drop 2 m = m"
  by (simp add: mem16_load)

lemma split_32: "4 \<le> length m \<Longrightarrow> mem32 (badvpn_read_le32 m) @ drop 4 m = m"
  by (simp add: mem32_load)

lemma parse_reply_iff:
  assumes "addr_ok r"
  shows "parse_reply m = Some (c, r, data) \<longleftrightarrow>
    (\<exists>flags. m = flags # mem16 c @ addr_bytes r @ data \<and> (flags AND UDPGW_CLIENT_FLAG_IPV6 \<noteq> 0) = is_ipv6 r)"
proof
  assume l: "parse_reply m = Some (c, r, data)"
  then obtain f m' where m: "m = f # m'" "2 \<le> length m'" by (cases m) (auto simp: parse_reply_def split: if_splits)
  have c: "m' = mem16 c @ drop 2 m'" using l m split_16 [of m'] by (auto simp: parse_reply_def split: if_splits)
  have "drop 2 m' = addr_bytes r @ data \<and> (f AND UDPGW_CLIENT_FLAG_IPV6 \<noteq> 0) = is_ipv6 r"
  proof (cases "f AND UDPGW_CLIENT_FLAG_IPV6 = 0")
    case True
    then show ?thesis using l m split_32 [of "drop 2 m'"] split_16 [of "drop 6 m'"]
      by (auto simp: parse_reply_def addr_bytes_def is_ipv6_def split: if_splits)
  next
    case False
    then show ?thesis using l m split_16 [of "drop 18 m'"] append_take_drop_id [of 16 "drop 2 m'"]
      by (auto simp: parse_reply_def addr_bytes_def is_ipv6_def split: if_splits)
  qed
  with m(1) c show "\<exists>flags. m = flags # mem16 c @ addr_bytes r @ data \<and> (flags AND UDPGW_CLIENT_FLAG_IPV6 \<noteq> 0) = is_ipv6 r" by auto
next
  assume "\<exists>flags. m = flags # mem16 c @ addr_bytes r @ data \<and> (flags AND UDPGW_CLIENT_FLAG_IPV6 \<noteq> 0) = is_ipv6 r"
  then obtain f where m: "m = f # mem16 c @ addr_bytes r @ data" "(f AND UDPGW_CLIENT_FLAG_IPV6 \<noteq> 0) = is_ipv6 r" by blast
  with assms show "parse_reply m = Some (c, r, data)"
    by (cases r) (auto simp: parse_reply_def addr_ok_def addr_bytes_def is_ipv6_def load_mem16 load_mem32)
qed

lemma parse_reply_addr: "parse_reply m = Some (c, r, data) \<Longrightarrow> addr_ok r"
  by (auto simp: parse_reply_def addr_ok_def split: if_splits)

lemma reply_for_iff:
  "conaddr_ok ca \<Longrightarrow> reply_for mtu m ca c data \<longleftrightarrow> parse_reply m = Some (c, ca_remote_addr ca, data) \<and> int (length data) \<le> mtu"
  using parse_reply_iff [of "ca_remote_addr ca" m c data] by (simp add: reply_for_def conaddr_ok_def)


lemma reply_delivered:
  assumes ok: "uy_ok s" and o: "offered (Ev_Reply m) s" and p: "p \<in> set (ug_connections_list (uy_client s))"
    and r: "reply_for (ug_udp_mtu (uy_client s)) m (cn_conaddr (ug_mem (uy_client s) p)) (cn_conid (ug_mem (uy_client s) p)) data"
  shows "step_good (Ev_Reply m) s (ug_step (Ev_Reply m) s)"
    and "ug_step (Ev_Reply m) s = Some (s\<lparr>uy_client := list_to_end p (uy_client s), uy_delivered := uy_delivered s @
      [(ca_local_addr (cn_conaddr (ug_mem (uy_client s) p)), ca_remote_addr (cn_conaddr (ug_mem (uy_client s) p)), data)]\<rparr>)"
proof -
  let ?ug = "uy_client s"
  let ?ca = "cn_conaddr (ug_mem ?ug p)" and ?ug' = "list_to_end p ?ug"
  note u = uy_okD [OF ok] and k = ug_okD [OF uy_okD(1) [OF ok]]
  have con: "conaddr_ok ?ca" using k(1) p by (simp add: conns_ok_def)
  have f: "find_connection_by_conid (cn_conid (ug_mem ?ug p)) ?ug = Some p" using find_conid(1) [OF k(1,3)] p by simp
  have "BAddr_CompareOrder (ca_remote_addr ?ca) (ca_remote_addr ?ca) = 0" using compare_addr con by (simp add: conaddr_ok_def)
  then have "recv_interface_handler_send m ?ug = (?ug', [Ug_Recv_Done, Ug_handler_received (ca_local_addr ?ca) (ca_remote_addr ?ca) data])"
    using r f by (simp add: recv_parse reply_for_iff con)
  then show step: "ug_step (Ev_Reply m) s =
      Some (s\<lparr>uy_client := ?ug', uy_delivered := uy_delivered s @ [(ca_local_addr ?ca, ca_remote_addr ?ca, data)]\<rparr>)"
    using o by (simp add: offered_def ug_handle_def)
  note l = list_to_end_ok [OF u(1) p]
  have "tree_of (uy_flows s) (ug_connections_list ?ug')" using u(2) p k(1) by (auto simp: tree_of_def list_to_end_def conns_ok_def)
  moreover have "ug_keepalive_sending ?ug' = ug_keepalive_sending ?ug" "ug_have_server ?ug' = ug_have_server ?ug" by (simp_all add: list_to_end_def)
  moreover have "gw_step (ug_udp_mtu ?ug) (ug_max_connections ?ug) (Ev_Reply m) (ug_abs s)
      ((ug_abs s)\<lparr>gw_table := ug_table ?ug', gw_delivered := uy_delivered s @ [(ca_local_addr ?ca, ca_remote_addr ?ca, data)]\<rparr>)"
    using gw_step.reply [OF ug_abs_entry [OF p] r, of "ug_max_connections ?ug"] by (simp add: l(2)) (simp add: ug_abs_def)
  ultimately show "step_good (Ev_Reply m) s (ug_step (Ev_Reply m) s)"
    unfolding step using u l by (simp add: step_good_def uy_ok_def) (simp add: ug_abs_def)
qed

lemma reply_dropped:
  assumes ok: "uy_ok s" and o: "offered (Ev_Reply m) s"
    and none: "\<not> (\<exists>p \<in> set (ug_connections_list (uy_client s)). \<exists>data.
      reply_for (ug_udp_mtu (uy_client s)) m (cn_conaddr (ug_mem (uy_client s) p)) (cn_conid (ug_mem (uy_client s) p)) data)"
  shows "step_good (Ev_Reply m) s (ug_step (Ev_Reply m) s)"
proof -
  let ?ug = "uy_client s"
  note k = ug_okD [OF uy_okD(1) [OF ok]]
  have con: "conaddr_ok (cn_conaddr (ug_mem ?ug p))" if "p \<in> set (ug_connections_list ?ug)" for p
    using k(1) that by (simp add: conns_ok_def)
  have "recv_interface_handler_send m ?ug = (?ug, [Ug_Recv_Done])"
  proof (rule ccontr)
    assume "\<not> ?thesis"
    then obtain c r data p where m: "parse_reply m = Some (c, r, data)" "int (length data) \<le> ug_udp_mtu ?ug"
      "find_connection_by_conid c ?ug = Some p" "BAddr_CompareOrder (ca_remote_addr (cn_conaddr (ug_mem ?ug p))) r = 0"
      by (auto simp: recv_parse split: option.splits if_splits)
    have p: "p \<in> set (ug_connections_list ?ug)" "cn_conid (ug_mem ?ug p) = c" using find_conid(1) [OF k(1,3)] m(3) by auto
    have "ca_remote_addr (cn_conaddr (ug_mem ?ug p)) = r"
      using m(4) compare_addr parse_reply_addr [OF m(1)] con [OF p(1)] by (simp add: conaddr_ok_def)
    then have "reply_for (ug_udp_mtu ?ug) m (cn_conaddr (ug_mem ?ug p)) (cn_conid (ug_mem ?ug p)) data"
      using m(1,2) p by (simp add: reply_for_iff con)
    with p(1) none show False by blast
  qed
  then have step: "ug_step (Ev_Reply m) s = Some s" using o by (simp add: offered_def ug_handle_def)
  have "gw_step (ug_udp_mtu ?ug) (ug_max_connections ?ug) (Ev_Reply m) (ug_abs s) (ug_abs s)"
    by (rule gw_step.no_reply) (use none in \<open>auto simp: ug_abs_def ug_table_def\<close>)
  then show ?thesis unfolding step using ok by (simp add: step_good_def)
qed

lemma other_ok:
  assumes ok: "uy_ok s" and o: "case e of Ev_Submit _ _ _ _ _ _ _ \<Rightarrow> False | Ev_Reply _ \<Rightarrow> False | _ \<Rightarrow> True"
  shows "step_good e s (ug_step e s)"
proof -
  have g: "gw_step (ug_udp_mtu (uy_client s)) (ug_max_connections (uy_client s)) e (ug_abs s) (ug_abs s)" by (rule gw_step.other [OF o])
  note u = uy_okD [OF ok]
  have "ug_ok (ug\<lparr>ug_keepalive_sending := b\<rparr>) = ug_ok ug" "ug_ok (ug\<lparr>ug_have_server := b\<rparr>) = ug_ok ug"
    "ug_table (ug\<lparr>ug_keepalive_sending := b\<rparr>) = ug_table ug" "ug_table (ug\<lparr>ug_have_server := b\<rparr>) = ug_table ug" for b ug
    by (simp_all add: ug_ok_def sizes_ok_def ug_table_def)
  note upd = this
  show ?thesis
    using o g u
    by (cases e) (auto simp: step_good_def uy_ok_def ug_abs_def upd ug_handle_def send_monitor_handler_def keepalive_if_handler_done_def
        UdpGwClient_ConnectServer_def UdpGwClient_DisconnectServer_def free_server_def decoder_handler_error_def)
qed


section \<open>Runs\<close>

lemma ug_step_ok:
  assumes "uy_ok s" "offered e s"
  shows "step_good e s (ug_step e s)"
proof (cases e)
  case (Ev_Submit alloc pp start l r is_dns data)
  then show ?thesis using submit_ok assms by blast
next
  case (Ev_Reply m)
  then show ?thesis using reply_delivered(1) [OF assms(1)] reply_dropped [OF assms(1)] assms(2) by blast
qed (use other_ok [OF assms(1), of e] in simp_all)

lemma ug_step_skip: "\<not> offered e s \<Longrightarrow> ug_step e s = Some s"
  by (cases e) (auto simp: offered_def)

text \<open>The events a run takes, and a run of the specification.\<close>

fun taken :: "ug_event list \<Rightarrow> ug_sys \<Rightarrow> ug_event list" where
  "taken [] s = []"
| "taken (e # es) s =
     (case ug_step e s of None \<Rightarrow> [] | Some s' \<Rightarrow> if offered e s then e # taken es s' else taken es s')"

inductive gw_run :: "int \<Rightarrow> int \<Rightarrow> ug_event list \<Rightarrow> gateway \<Rightarrow> gateway \<Rightarrow> bool" for mtu :: int and num :: int where
  gw_nil: "gw_run mtu num [] g g"
| gw_cons: "gw_step mtu num e g g' \<Longrightarrow> gw_run mtu num es g' g'' \<Longrightarrow> gw_run mtu num (e # es) g g''"

lemma ug_run_ok:
  assumes "uy_ok s"
  shows "\<exists>s'. ug_run es s = Some s' \<and> uy_ok s' \<and> ug_udp_mtu (uy_client s') = ug_udp_mtu (uy_client s) \<and>
    ug_max_connections (uy_client s') = ug_max_connections (uy_client s) \<and>
    gw_run (ug_udp_mtu (uy_client s)) (ug_max_connections (uy_client s)) (taken es s) (ug_abs s) (ug_abs s')"
  using assms
proof (induction es arbitrary: s)
  case Nil
  then show ?case by (simp add: gw_nil)
next
  case (Cons e es)
  show ?case
  proof (cases "offered e s")
    case True
    from ug_step_ok [OF Cons.prems this] obtain s' where s': "ug_step e s = Some s'" "uy_ok s'"
      "gw_step (ug_udp_mtu (uy_client s)) (ug_max_connections (uy_client s)) e (ug_abs s) (ug_abs s')"
      "ug_udp_mtu (uy_client s') = ug_udp_mtu (uy_client s)" "ug_max_connections (uy_client s') = ug_max_connections (uy_client s)"
      by (auto simp: step_good_def split: option.splits)
    from Cons.IH [OF s'(2)] s' True show ?thesis by (auto intro: gw_cons)
  next
    case False
    with Cons.IH [OF Cons.prems] ug_step_skip [OF False] show ?thesis by simp
  qed
qed

lemma ug_run_append: "ug_run (es @ fs) s = Option.bind (ug_run es s) (ug_run fs)"
  by (induction es arbitrary: s) (auto simp: bind_eq_None_conv split: bind_splits)

section \<open>Start and end\<close>

text \<open>A client that \<^verbatim>\<open>UdpGwClient_Init\<close> made with arguments its assertions allow.\<close>

definition ug_init_ok :: "int \<Rightarrow> int \<Rightarrow> UdpGwClient \<Rightarrow> bool" where
  "ug_init_ok udp_mtu max_connections ug \<longleftrightarrow> UdpGwClient_Init True udp_mtu max_connections = Some ug \<and>
     0 < max_connections \<and> 0 \<le> udp_mtu \<and> udp_mtu \<le> INT_MAX \<and> 0 \<le> udpgw_compute_mtu udp_mtu"

lemma compute_mtu: "0 \<le> d \<Longrightarrow> d \<le> INT_MAX \<Longrightarrow> udpgw_compute_mtu d = (if d + 22 \<le> INT_MAX then d + 22 else - 1)"
  by (auto simp: udpgw_compute_mtu_def bsize_toint_exact bsize_nat_add bsize_nat_max bsize_nat_fromint exact_def INT_MAX_def)

lemma ug_start_ok:
  assumes "ug_init_ok udp_mtu n ug"
  shows "uy_ok (ug_start ug)" "ug_abs (ug_start ug) = \<lparr>gw_table = [], gw_sent = [], gw_delivered = []\<rparr>"
    "ug_udp_mtu ug = udp_mtu" "ug_max_connections ug = min n 65536"
  using assms compute_mtu [of udp_mtu]
  by (auto simp: ug_init_ok_def UdpGwClient_Init_def Let_def ug_start_def uy_ok_def ug_ok_def conns_ok_def tree_of_def sizes_ok_def ug_abs_def
      ug_table_def UINT16_MAX_def split: if_splits)

lemma connection_free_ok:
  assumes "ug_ok ug" "ug_connections_list ug = p # ps" "uy_half s = None" "uy_first s = None" "tree_of (uy_flows s) (p # ps)"
  shows "ug_ok (fst (connection_free p ug))" "ug_connections_list (fst (connection_free p ug)) = ps"
    "ug_perform (snd (connection_free p ug)) s = Some (s\<lparr>uy_flows := remove1 p (uy_flows s)\<rparr>)" "tree_of (remove1 p (uy_flows s)) ps"
proof -
  note k = ug_okD [OF assms(1), unfolded assms(2)]
  note tl = conns_ok_tl [OF k(1)]
  show "ug_ok (fst (connection_free p ug))"
    using tl k(4-6) tree_of_simps(3) [OF k(2) tl(2)] tree_of_simps(3) [OF k(3) tl(2)]
    by (simp add: connection_free_def ug_ok_def assms(2) sizes_ok_def)
  show "ug_connections_list (fst (connection_free p ug)) = ps" by (simp add: connection_free_def assms(2))
  show "ug_perform (snd (connection_free p ug)) s = Some (s\<lparr>uy_flows := remove1 p (uy_flows s)\<rparr>)"
    using assms(3-5) by (cases s) (simp add: connection_free_def tree_of_def)
  show "tree_of (remove1 p (uy_flows s)) ps" by (rule tree_of_simps(3) [OF assms(5) tl(2)])
qed

lemma ug_perform_append: "ug_perform (cs @ ds) s = Option.bind (ug_perform cs s) (ug_perform ds)"
  by (induction cs arbitrary: s) (auto split: bind_splits)

lemma free_loop_ok:
  assumes "ug_ok ug" "uy_half s = None" "uy_first s = None" "tree_of (uy_flows s) (ug_connections_list ug)"
  shows "ug_perform (snd (free_connections_loop ug)) s = Some (s\<lparr>uy_flows := []\<rparr>)"
    "ug_have_server (fst (free_connections_loop ug)) = ug_have_server ug"
  using assms
proof (induction "ug_connections_list ug" arbitrary: ug s)
  case Nil
  {
    case 1
    then show ?case using Nil by (cases s) (simp add: tree_of_def)
  next
    case 2
    then show ?case using Nil by simp
  }
next
  case (Cons p ps)
  let ?ug = "fst (connection_free p ug)"
  have loop: "free_connections_loop ug =
      (fst (free_connections_loop ?ug), snd (connection_free p ug) @ snd (free_connections_loop ?ug))"
    by (subst free_connections_loop.simps) (simp add: Cons.hyps(3) [symmetric] case_prod_beta Let_def del: free_connections_loop.simps)
  {
    case 1
    note f = connection_free_ok [OF 1(1) Cons.hyps(3) [symmetric] 1(2,3) 1(4) [folded Cons.hyps(3)]]
    show ?case using Cons.hyps(1) [of ?ug "s\<lparr>uy_flows := remove1 p (uy_flows s)\<rparr>"] f 1 by (simp add: loop ug_perform_append del: free_connections_loop.simps)
  next
    case 2
    note f = connection_free_ok [OF 2(1) Cons.hyps(3) [symmetric] 2(2,3) 2(4) [folded Cons.hyps(3)]]
    have "ug_have_server ?ug = ug_have_server ug" by (simp add: connection_free_def)
    then show ?case using Cons.hyps(2) [of ?ug "s\<lparr>uy_flows := remove1 p (uy_flows s)\<rparr>"] f 2 by (simp add: loop del: free_connections_loop.simps)
  }
qed

lemma UdpGwClient_Free_ok:
  assumes "uy_ok s"
  shows "ug_perform (UdpGwClient_Free (uy_client s)) s = Some (s\<lparr>uy_flows := [], uy_server := False\<rparr>)"
proof -
  note u = uy_okD [OF assms]
  show ?thesis
    using free_loop_ok [OF u(1,3,4,2)] u(3,6)
    by (cases s) (simp add: UdpGwClient_Free_def case_prod_beta ug_perform_append free_server_def del: free_connections_loop.simps)
qed

section \<open>How long a pair keeps its identifier\<close>

lemma gw_step_keeps:
  assumes "gw_step mtu num e g g'" "gw_table g = ys @ x # zs" "int (length zs) + 1 < num"
  shows "\<exists>ys zs'. gw_table g' = ys @ x # zs' \<and> length zs' \<le> length zs + 1"
proof -
  have send: "gw_table (gw_send start m g) = gw_table g" for start m g by (simp add: gw_send_def)
  have te: "\<exists>ys' zs'. to_end y (gw_table g) = ys' @ x # zs' \<and> length zs' \<le> length zs + 1" for y
  proof (cases "y = x")
    case True
    then have "to_end y (gw_table g) = remove1 x (gw_table g) @ x # []" by (simp add: to_end_def)
    then show ?thesis by (metis le_add2 list.size(3) zero_le)
  next
    case False
    let ?zs = "(if y \<in> set ys then zs else remove1 y zs) @ [y]"
    from False have "to_end y (gw_table g) = remove1 y ys @ x # ?zs"
      by (auto simp: to_end_def assms(2) remove1_append remove1_idem)
    moreover have "length ?zs \<le> length zs + 1" by (auto simp: length_remove1)
    ultimately show ?thesis by blast
  qed
  have app: "\<exists>ys zs'. xs @ [w] = ys @ x # zs' \<and> length zs' \<le> length zs + 1" if "xs = ys @ x # zs" for xs ys and w :: "UdpGwClient_conaddr \<times> u16"
    using that by (metis append.assoc append_Cons length_append_singleton Suc_eq_plus1 le_refl)
  have same: "\<exists>ys zs'. gw_table g = ys @ x # zs' \<and> length zs' \<le> length zs + 1" using assms(2) le_add1 by blast
  from assms(1) show ?thesis
  proof cases
    case (reuse l r old c rest alloc pp start is_dns data)
    then obtain ys' where "rest = ys' @ x # zs" using assms(2,3) by (cases ys) auto
    then show ?thesis using reuse app by (simp add: send)
  next
    case (create l r c p start is_dns data)
    then show ?thesis using assms(2) app by (simp add: send)
  qed (use te same in \<open>simp_all add: send\<close>)
qed

lemma gw_run_keeps:
  assumes "gw_run mtu num es g g'" "gw_table g = ys @ x # zs" "int (length zs + length es) < num"
  shows "x \<in> set (gw_table g')"
  using assms
proof (induction arbitrary: ys zs)
  case (gw_cons e g g1 es g2)
  obtain ys' zs' where t: "gw_table g1 = ys' @ x # zs'" "length zs' \<le> length zs + 1"
    using gw_step_keeps [OF gw_cons.hyps(1) gw_cons.prems(1)] gw_cons.prems(2) by auto
  show ?case by (rule gw_cons.IH [OF t(1)]) (use t(2) gw_cons.prems(2) in simp)
qed simp

lemma gw_submit_sent:
  assumes "gw_step mtu num (Ev_Submit alloc pp start l r is_dns data) g g'" "gw_sent g' = gw_sent g @ [m]"
  shows "\<exists>flags c ys. m = udpgw_message flags c r data \<and> gw_table g' = ys @ [(\<lparr>ca_local_addr = l, ca_remote_addr = r\<rparr>, c)]"
  using assms by cases (auto simp: gw_send_def to_end_def split: if_splits)

lemma length_taken: "length (taken es s) \<le> length es"
  by (induction es arbitrary: s) (auto split: option.splits intro: le_SucI)


lemma reply_reaches:
  assumes ok: "uy_ok s"
    and sub: "ug_step (Ev_Submit alloc pp start l r is_dns data) s = Some s'" "uy_sent s' = uy_sent s @ [m]"
    and later: "ug_run fs s' = Some t" "int (length fs) < ug_max_connections (uy_client s)" "uy_server t"
    and reply: "f AND UDPGW_CLIENT_FLAG_IPV6 = 0" "int (length answer) \<le> ug_udp_mtu (uy_client s)"
  shows "\<exists>flags c t'. m = udpgw_message flags c r data \<and> ug_step (Ev_Reply (udpgw_message f c r answer)) t = Some t' \<and>
    uy_delivered t' = uy_delivered t @ [(l, r, answer)]"
proof -
  let ?mtu = "ug_udp_mtu (uy_client s)" and ?num = "ug_max_connections (uy_client s)"
  let ?e = "Ev_Submit alloc pp start l r is_dns data" and ?ca = "\<lparr>ca_local_addr = l, ca_remote_addr = r\<rparr>"
  have o: "offered ?e s" using ug_step_skip [of ?e s] sub by fastforce
  then have s': "uy_ok s'" "gw_step ?mtu (?num) ?e (ug_abs s) (ug_abs s')" "ug_udp_mtu (uy_client s') = ?mtu"
    "ug_max_connections (uy_client s') = ?num"
    using ug_step_ok [OF ok o] sub(1) by (simp_all add: step_good_def)
  obtain flags c ys where c: "m = udpgw_message flags c r data" "gw_table (ug_abs s') = ys @ [(?ca, c)]"
    using gw_submit_sent [OF s'(2)] sub(2) by (auto simp: ug_abs_def)
  have t: "uy_ok t" "gw_run ?mtu (?num) (taken fs s') (ug_abs s') (ug_abs t)" "ug_udp_mtu (uy_client t) = ?mtu"
    using ug_run_ok [OF s'(1), of fs] later(1) s'(3,4) by auto
  have "(?ca, c) \<in> set (gw_table (ug_abs t))"
    by (rule gw_run_keeps [OF t(2), of ys _ "[]"]) (use c(2) later(2) length_taken [of fs s'] in auto)
  then obtain p where p: "p \<in> set (ug_connections_list (uy_client t))" "cn_conaddr (ug_mem (uy_client t) p) = ?ca" "cn_conid (ug_mem (uy_client t) p) = c"
    by (auto simp: ug_abs_def ug_table_def)
  let ?m = "udpgw_message f c r answer"
  have "offered (Ev_Reply ?m) t"
    using later(3) length_message [of r f c answer] o reply(2) ug_okD(6) [OF uy_okD(1) [OF t(1)]] t(3) by (simp add: offered_def sizes_ok_def)
  moreover have "(f OR UDPGW_CLIENT_FLAG_IPV6) AND UDPGW_CLIENT_FLAG_IPV6 \<noteq> 0"
    by (simp add: bit.conj_disj_distrib2 reply(1)) (simp add: UDPGW_CLIENT_FLAG_IPV6_def)
  then have "reply_for ?mtu ?m ?ca c answer" using reply by (auto simp: reply_for_def udpgw_message_def)
  ultimately have "ug_step (Ev_Reply ?m) t = Some (t\<lparr>uy_client := list_to_end p (uy_client t), uy_delivered := uy_delivered t @ [(l, r, answer)]\<rparr>)"
    using reply_delivered(2) [OF t(1) _ p(1), of ?m answer] p t(3) by (simp del: ug_step.simps)
  moreover have "uy_delivered (t\<lparr>uy_client := list_to_end p (uy_client t), uy_delivered := uy_delivered t @ [(l, r, answer)]\<rparr>) =
      uy_delivered t @ [(l, r, answer)]" by simp
  ultimately show ?thesis using c(1) by blast
qed

section \<open>Properties\<close>

text \<open>
  C18: The loop of \<^verbatim>\<open>find_unused_conid\<close> ends in every state the client gets to with fewer connections than
  its maximum, and the identifier it returns is below the maximum and not in use.
\<close>

theorem find_unused_conid_ends:
  assumes "ug_init_ok udp_mtu n ug" "ug_run es (ug_start ug) = Some s"
    and "ug_num_connections (uy_client s) < ug_max_connections (uy_client s)"
  shows "\<exists>m. find_unused_conid (uy_client s) = Some ((uy_client s)\<lparr>ug_next_conid := m\<rparr>, word_of_int m) \<and> 0 \<le> m \<and> m < min n 65536 \<and>
    find_connection_by_conid (word_of_int m) (uy_client s) = None"
proof -
  obtain s1 where "ug_run es (ug_start ug) = Some s1" "uy_ok s1" "ug_max_connections (uy_client s1) = ug_max_connections ug"
    using ug_run_ok [OF ug_start_ok(1) [OF assms(1)], of es] by (auto simp: ug_start_def)
  then have s: "ug_ok (uy_client s)" "ug_max_connections (uy_client s) = min n 65536"
    using assms(2) uy_okD(1) ug_start_ok(4) [OF assms(1)] by auto
  obtain m where "find_unused_conid (uy_client s) = Some ((uy_client s)\<lparr>ug_next_conid := m\<rparr>, word_of_int m)" "0 \<le> m" "m < min n 65536"
    "word_of_int m \<notin> (\<lambda>p. cn_conid (ug_mem (uy_client s) p)) ` set (ug_connections_list (uy_client s))"
    using find_unused_ok [OF s(1) assms(3)] s(2) by metis
  then show ?thesis using find_conid(2) [OF ug_okD(1,3) [OF s(1)]] by blast
qed

lemma the_init: "ug_init_ok 1000 2 (the (UdpGwClient_Init True 1000 2))"
  by (simp add: ug_init_ok_def UdpGwClient_Init_def compute_mtu INT_MAX_def Let_def)

theorem find_unused_conid_ends_witness:
  "\<exists>m. find_unused_conid (the (UdpGwClient_Init True 1000 2)) =
     Some ((the (UdpGwClient_Init True 1000 2))\<lparr>ug_next_conid := m\<rparr>, word_of_int m) \<and> 0 \<le> m \<and> m < 2"
  using find_unused_conid_ends [OF the_init, of "[]"] by (auto simp: ug_start_def UdpGwClient_Init_def UINT16_MAX_def Let_def)

text \<open>
  C11: Whatever the device, the server and the reactor do, and whatever \<^verbatim>\<open>malloc\<close> answers, a run is defined and
  does what a table of at most the maximum of pairs with distinct identifiers does that gives a new
  pair the entry of the least recently used one when it is full: every message has the identifier
  of its pair, and a packet of the server reaches the pair whose identifier and remote address it
  names, or is dropped. Freeing the client at any point frees every connection and the server.
\<close>

theorem udpgw_refines_lru:
  assumes "ug_init_ok udp_mtu n ug"
  shows "\<exists>s. ug_run es (ug_start ug) = Some s \<and> uy_ok s \<and>
    gw_run udp_mtu (min n 65536) (taken es (ug_start ug)) \<lparr>gw_table = [], gw_sent = [], gw_delivered = []\<rparr> (ug_abs s) \<and>
    ug_perform (UdpGwClient_Free (uy_client s)) s = Some (s\<lparr>uy_flows := [], uy_server := False\<rparr>)"
  using ug_run_ok [OF ug_start_ok(1) [OF assms], of es] ug_start_ok(2-4) [OF assms] UdpGwClient_Free_ok
  by (auto simp: ug_start_def)

theorem udpgw_refines_lru_witness:
  "\<exists>s. ug_run [Ev_ConnectServer True, Ev_Submit (Some 0) True True (BAddr_IPv4 1 2) (BAddr_IPv4 3 4) False [7]]
    (ug_start (the (UdpGwClient_Init True 1000 2))) = Some s \<and> uy_ok s"
  using udpgw_refines_lru [OF the_init] by blast

text \<open>
  A reply reaches its sender: when a packet from \<^verbatim>\<open>l\<close> to \<^verbatim>\<open>r\<close> was sent to the server and fewer events than
  the maximum of connections happened since, an answer of the server with the identifier and the
  address of the message is delivered as a packet from \<^verbatim>\<open>r\<close> to \<^verbatim>\<open>l\<close> with its data.
\<close>

theorem udpgw_reply_reaches_sender:
  assumes init: "ug_init_ok udp_mtu n ug" and run: "ug_run es (ug_start ug) = Some s"
    and sub: "ug_step (Ev_Submit alloc pp start l r is_dns data) s = Some s'" "uy_sent s' = uy_sent s @ [m]"
    and later: "ug_run fs s' = Some t" "int (length fs) < min n 65536" "uy_server t"
    and reply: "f AND UDPGW_CLIENT_FLAG_IPV6 = 0" "int (length answer) \<le> udp_mtu"
  shows "\<exists>flags c t'. m = udpgw_message flags c r data \<and> ug_step (Ev_Reply (udpgw_message f c r answer)) t = Some t' \<and>
    uy_delivered t' = uy_delivered t @ [(l, r, answer)]"
proof -
  have s: "uy_ok s" "ug_udp_mtu (uy_client s) = udp_mtu" "ug_max_connections (uy_client s) = min n 65536"
    using ug_run_ok [OF ug_start_ok(1) [OF init], of es] run ug_start_ok(3,4) [OF init] by (auto simp: ug_start_def)
  show ?thesis using reply_reaches [OF s(1) sub later(1) _ later(3) reply(1)] later(2) reply(2) s(2,3) by (simp del: ug_step.simps)
qed

lemma run_1000:
  "\<exists>s s' m t. ug_run [Ev_ConnectServer True] (ug_start (the (UdpGwClient_Init True 1000 2))) = Some s \<and>
     ug_step (Ev_Submit (Some 0) True True (BAddr_IPv4 1 2) (BAddr_IPv4 3 4) False [7]) s = Some s' \<and> uy_sent s' = uy_sent s @ [m] \<and>
     ug_run [Ev_Inactive] s' = Some t \<and> uy_server t \<and> uy_delivered t = []"
  by (simp add: UdpGwClient_Init_def Let_def UINT16_MAX_def ug_start_def UdpGwClient_ConnectServer_def ug_handle_def compute_mtu INT_MAX_def addr_ok_def
      UdpGwClient_SubmitPacket_def find_connection_by_conaddr_def connection_init_def find_unused_conid.simps find_connection_by_conid_def
      insert_by_conaddr_def insert_by_conid_def first_job_def connection_first_job_handler_def connection_send_def udpgw_header_def udpgw_addr_ipv4_def
      send_monitor_handler_def)

theorem udpgw_reply_reaches_sender_witness:
  "\<exists>c t t'. ug_run [Ev_ConnectServer True, Ev_Submit (Some 0) True True (BAddr_IPv4 1 2) (BAddr_IPv4 3 4) False [7], Ev_Inactive]
      (ug_start (the (UdpGwClient_Init True 1000 2))) = Some t \<and>
    ug_step (Ev_Reply (udpgw_message 0 c (BAddr_IPv4 3 4) [9])) t = Some t' \<and> uy_delivered t' = [(BAddr_IPv4 1 2, BAddr_IPv4 3 4, [9])]"
proof -
  obtain s s' m t where s: "ug_run [Ev_ConnectServer True] (ug_start (the (UdpGwClient_Init True 1000 2))) = Some s"
     "ug_step (Ev_Submit (Some 0) True True (BAddr_IPv4 1 2) (BAddr_IPv4 3 4) False [7]) s = Some s'" "uy_sent s' = uy_sent s @ [m]"
     "ug_run [Ev_Inactive] s' = Some t" "uy_server t" "uy_delivered t = []"
    using run_1000 by blast
  have "ug_run [Ev_ConnectServer True, Ev_Submit (Some 0) True True (BAddr_IPv4 1 2) (BAddr_IPv4 3 4) False [7], Ev_Inactive]
      (ug_start (the (UdpGwClient_Init True 1000 2))) = Some t"
    using s(1,2,4) by (auto simp del: ug_step.simps split: bind_splits)
  with udpgw_reply_reaches_sender [OF the_init s(1-4) _ s(5), of 0 "[9]"] s(6) show ?thesis
    by (auto simp del: ug_step.simps ug_run.simps)
qed

end
