(* ===== verification/Socks_Udp_Gw.thy ===== *)
theory Socks_Udp_Gw
  imports Udp_Gw_Client Socks_Client
begin

text \<open>
  The UDP gateway behind a SOCKS server: \<^verbatim>\<open>tun2socks/SocksUdpGwClient.c\<close>, the branch without
  \<^verbatim>\<open>ANDROID_UDP\<close>, which the build does not define. It keeps a SOCKS connection to the gateway, gives
  it to the client of the gateway while it is up, and connects again after a pause. The client
  of the gateway, the SOCKS client and the timer it owns are parts of the system around it, which
  performs the calls its functions return. The answers of \<^verbatim>\<open>BSocksClient_Init\<close> and of
  \<^verbatim>\<open>UdpGwClient_ConnectServer\<close> are arguments.
\<close>

unbundle bit_operations_syntax

section \<open>Functions\<close>

record SocksUdpGwClient =
  sg_have_socks :: bool
  sg_socks_up :: bool

datatype sg_call =
    Sg_SocksClient_Init
  | Sg_SocksClient_Free
  | Sg_SetTimer
  | Sg_RemoveTimer
  | Sg_ConnectServer
  | Sg_DisconnectServer
  | Sg_SubmitPacket BAddr BAddr bool bytes
  | Sg_UdpGw_Free
  | Sg_handler_received BAddr BAddr bytes

definition free_socks :: "SocksUdpGwClient \<Rightarrow> SocksUdpGwClient \<times> sg_call list" where
  "free_socks sg =
     (sg\<lparr>sg_have_socks := False\<rparr>, (if sg_socks_up sg then [Sg_DisconnectServer] else []) @ [Sg_SocksClient_Free])"

definition try_connect :: "bool \<Rightarrow> SocksUdpGwClient \<Rightarrow> SocksUdpGwClient \<times> sg_call list" where
  "try_connect socks_init sg =
     (if \<not> socks_init then (sg, [Sg_SetTimer])
      else (sg\<lparr>sg_have_socks := True, sg_socks_up := False\<rparr>, [Sg_SocksClient_Init]))"

definition reconnect_timer_handler :: "bool \<Rightarrow> SocksUdpGwClient \<Rightarrow> SocksUdpGwClient \<times> sg_call list" where
  "reconnect_timer_handler socks_init sg = try_connect socks_init sg"

definition free_and_retry :: "SocksUdpGwClient \<Rightarrow> SocksUdpGwClient \<times> sg_call list" where
  "free_and_retry sg = (let (sg, calls) = free_socks sg in (sg, calls @ [Sg_SetTimer]))"

definition socks_client_handler :: "bool \<Rightarrow> socks_event \<Rightarrow> SocksUdpGwClient \<Rightarrow> SocksUdpGwClient \<times> sg_call list" where
  "socks_client_handler connected event sg =
     (case event of
        BSOCKSCLIENT_EVENT_UP \<Rightarrow>
          if \<not> connected then free_and_retry sg
          else (sg\<lparr>sg_socks_up := True\<rparr>, [Sg_ConnectServer])
      | _ \<Rightarrow> free_and_retry sg)"

definition udpgw_handler_servererror :: "SocksUdpGwClient \<Rightarrow> SocksUdpGwClient \<times> sg_call list" where
  "udpgw_handler_servererror sg = free_and_retry sg"

definition udpgw_handler_received :: "BAddr \<Rightarrow> BAddr \<Rightarrow> bytes \<Rightarrow> sg_call list" where
  "udpgw_handler_received local_addr remote_addr data = [Sg_handler_received local_addr remote_addr data]"

text \<open>\<^verbatim>\<open>socks_up\<close> is not set before there is a SOCKS client: \<^verbatim>\<open>junk\<close> is what it is until then.\<close>

definition SocksUdpGwClient_Init ::
    "bool \<Rightarrow> bool \<Rightarrow> bool \<Rightarrow> int \<Rightarrow> int \<Rightarrow> (UdpGwClient \<times> SocksUdpGwClient \<times> sg_call list) option" where
  "SocksUdpGwClient_Init queue_init socks_init junk udp_mtu max_connections =
     (case UdpGwClient_Init queue_init udp_mtu max_connections of
        None \<Rightarrow> None
      | Some ug \<Rightarrow> Some (ug, try_connect socks_init \<lparr>sg_have_socks = False, sg_socks_up = junk\<rparr>))"

definition SocksUdpGwClient_Free :: "SocksUdpGwClient \<Rightarrow> SocksUdpGwClient \<times> sg_call list" where
  "SocksUdpGwClient_Free sg =
     (let (sg, calls) = (if sg_have_socks sg then free_socks sg else (sg, []))
      in (sg, calls @ [Sg_RemoveTimer, Sg_UdpGw_Free]))"

definition SocksUdpGwClient_SubmitPacket :: "BAddr \<Rightarrow> BAddr \<Rightarrow> bool \<Rightarrow> bytes \<Rightarrow> sg_call list" where
  "SocksUdpGwClient_SubmitPacket local_addr remote_addr is_dns data = [Sg_SubmitPacket local_addr remote_addr is_dns data]"

section \<open>The parts together\<close>

text \<open>
  \<^verbatim>\<open>sx_socks\<close> is whether there is a SOCKS client, \<^verbatim>\<open>sx_timer\<close> whether the timer runs. A second SOCKS client, one
  that is freed while the gateway still uses its interfaces, a connection without a SOCKS client and
  a gateway that is connected or disconnected twice make a run undefined. \<^verbatim>\<open>sx_answers\<close> are the answers of
  \<^verbatim>\<open>malloc\<close>, of \<^verbatim>\<open>PacketProtoFlow_Init\<close> and of \<^verbatim>\<open>BufferWriter_StartPacket\<close> to the next packet.
\<close>

record sg_sys =
  sx_client :: SocksUdpGwClient
  sx_gw :: ug_sys
  sx_socks :: bool
  sx_timer :: bool
  sx_answers :: "nat option \<times> bool \<times> bool"
  sx_received :: "(BAddr \<times> BAddr \<times> bytes) list"

definition with_gw :: "sg_sys \<Rightarrow> ug_sys option \<Rightarrow> sg_sys option" where
  "with_gw s r = map_option (\<lambda>g. s\<lparr>sx_gw := g\<rparr>) r"

fun sg_do :: "sg_call \<Rightarrow> sg_sys \<Rightarrow> sg_sys option" where
  "sg_do Sg_SocksClient_Init s = (if sx_socks s then None else Some (s\<lparr>sx_socks := True\<rparr>))"
| "sg_do Sg_SocksClient_Free s = (if sx_socks s \<and> \<not> uy_server (sx_gw s) then Some (s\<lparr>sx_socks := False\<rparr>) else None)"
| "sg_do Sg_SetTimer s = Some (s\<lparr>sx_timer := True\<rparr>)"
| "sg_do Sg_RemoveTimer s = Some (s\<lparr>sx_timer := False\<rparr>)"
| "sg_do Sg_ConnectServer s =
     (if sx_socks s \<and> \<not> uy_server (sx_gw s) then with_gw s (ug_step (Ev_ConnectServer True) (sx_gw s)) else None)"
| "sg_do Sg_DisconnectServer s = (if uy_server (sx_gw s) then with_gw s (ug_step Ev_DisconnectServer (sx_gw s)) else None)"
| "sg_do (Sg_SubmitPacket l r is_dns data) s =
     (let (alloc, ppflow_init, start) = sx_answers s in with_gw s (ug_step (Ev_Submit alloc ppflow_init start l r is_dns data) (sx_gw s)))"
| "sg_do Sg_UdpGw_Free s = with_gw s (ug_perform (UdpGwClient_Free (uy_client (sx_gw s))) (sx_gw s))"
| "sg_do (Sg_handler_received l r data) s = Some (s\<lparr>sx_received := sx_received s @ [(l, r, data)]\<rparr>)"

fun sg_perform :: "sg_call list \<Rightarrow> sg_sys \<Rightarrow> sg_sys option" where
  "sg_perform [] s = Some s"
| "sg_perform (c # cs) s = Option.bind (sg_do c s) (sg_perform cs)"

definition sg_handle :: "SocksUdpGwClient \<times> sg_call list \<Rightarrow> sg_sys \<Rightarrow> sg_sys option" where
  "sg_handle r s = sg_perform (snd r) (s\<lparr>sx_client := fst r\<rparr>)"

text \<open>A packet of the server is handled by the client of the gateway, which calls \<^verbatim>\<open>udpgw_handler_received\<close> for what
  it delivers.\<close>

definition deliver_new :: "ug_sys \<Rightarrow> ug_sys \<Rightarrow> sg_call list" where
  "deliver_new g g' = concat (map (\<lambda>(l, r, data). udpgw_handler_received l r data) (drop (length (uy_delivered g)) (uy_delivered g')))"

datatype sg_event =
    Sg_Submit "nat option \<times> bool \<times> bool" BAddr BAddr bool bytes
  | Sg_Reply bytes
  | Sg_Inactive
  | Sg_Keepalive_Done
  | Sg_Timer bool
  | Sg_Socks bool socks_event
  | Sg_Server_Error

fun sg_step :: "sg_event \<Rightarrow> sg_sys \<Rightarrow> sg_sys option" where
  "sg_step (Sg_Submit answers l r is_dns data) s =
     sg_perform (SocksUdpGwClient_SubmitPacket l r is_dns data) (s\<lparr>sx_answers := answers\<rparr>)"
| "sg_step (Sg_Reply m) s =
     Option.bind (ug_step (Ev_Reply m) (sx_gw s)) (\<lambda>g. sg_perform (deliver_new (sx_gw s) g) (s\<lparr>sx_gw := g\<rparr>))"
| "sg_step Sg_Inactive s = with_gw s (ug_step Ev_Inactive (sx_gw s))"
| "sg_step Sg_Keepalive_Done s = with_gw s (ug_step Ev_Keepalive_Done (sx_gw s))"
| "sg_step (Sg_Timer socks_init) s =
     (if sx_timer s then sg_handle (reconnect_timer_handler socks_init (sx_client s)) (s\<lparr>sx_timer := False\<rparr>) else Some s)"
| "sg_step (Sg_Socks connected event) s =
     (if sx_socks s \<and> (event = BSOCKSCLIENT_EVENT_UP \<longrightarrow> \<not> sg_socks_up (sx_client s))
      then sg_handle (socks_client_handler connected event (sx_client s)) s else Some s)"
| "sg_step Sg_Server_Error s = (if uy_server (sx_gw s) then sg_handle (udpgw_handler_servererror (sx_client s)) s else Some s)"

fun sg_run :: "sg_event list \<Rightarrow> sg_sys \<Rightarrow> sg_sys option" where
  "sg_run [] s = Some s"
| "sg_run (e # es) s = Option.bind (sg_step e s) (sg_run es)"

definition sg_start :: "UdpGwClient \<Rightarrow> SocksUdpGwClient \<Rightarrow> sg_sys" where
  "sg_start ug sg = \<lparr>sx_client = sg, sx_gw = ug_start ug, sx_socks = False, sx_timer = False, sx_answers = (None, False, False), sx_received = []\<rparr>"

section \<open>The invariant\<close>

definition sg_ok :: "sg_sys \<Rightarrow> bool" where
  "sg_ok s \<longleftrightarrow> uy_ok (sx_gw s) \<and> sx_socks s = sg_have_socks (sx_client s) \<and> sx_timer s = (\<not> sg_have_socks (sx_client s)) \<and>
     uy_server (sx_gw s) = (sg_have_socks (sx_client s) \<and> sg_socks_up (sx_client s)) \<and> sx_received s = uy_delivered (sx_gw s)"

text \<open>What leaves the system in order and takes its gateway through at most \<^verbatim>\<open>k\<close> steps of its own.\<close>

definition sg_good :: "nat \<Rightarrow> sg_sys \<Rightarrow> sg_sys option \<Rightarrow> bool" where
  "sg_good k s r =
     (case r of None \<Rightarrow> False | Some s' \<Rightarrow> sg_ok s' \<and> (\<exists>fs. length fs \<le> k \<and> ug_run fs (sx_gw s) = Some (sx_gw s')))"

lemma one_event: "ug_run [e] g = Some g' \<Longrightarrow> \<exists>fs. length fs \<le> 1 \<and> ug_run fs g = Some g'"
  by (rule exI [of _ "[e]"]) simp

lemma no_event: "\<exists>fs. length fs \<le> k \<and> ug_run fs g = Some g"
  by (rule exI [of _ "[]"]) simp

lemma gw_event:
  assumes "uy_ok g"
  obtains g' where "ug_step e g = Some g'" "uy_ok g'" "ug_run [e] g = Some g'"
proof -
  obtain g' where "ug_run [e] g = Some g'" "uy_ok g'" using ug_run_ok [OF assms, of "[e]"] by blast
  moreover from this have "ug_step e g = Some g'" by (auto simp del: ug_step.simps split: bind_splits)
  ultimately show thesis by (intro that)
qed

text \<open>What an event does to the server and to the packets delivered.\<close>

lemma do_server: "ug_do c s = Some s' \<Longrightarrow> c \<notin> {Ug_Connect, Ug_Disconnect} \<Longrightarrow> uy_server s' = uy_server s"
  by (cases c) (auto split: if_splits)

lemma perform_server: "ug_perform cs s = Some s' \<Longrightarrow> set cs \<inter> {Ug_Connect, Ug_Disconnect} = {} \<Longrightarrow> uy_server s' = uy_server s"
proof (induction cs arbitrary: s)
  case (Cons c cs)
  then obtain s1 where "ug_do c s = Some s1" "ug_perform cs s1 = Some s'" by (auto simp del: ug_do.simps split: bind_splits)
  with Cons.IH [of s1] Cons.prems(2) do_server [of c s s1] show ?case by auto
qed simp

lemma send_calls: "set (connection_send start p flags data ug) \<inter> {Ug_Connect, Ug_Disconnect} = {}"
  by (auto simp: connection_send_def Let_def)

lemma submit_calls:
  "UdpGwClient_SubmitPacket alloc pp start l r is_dns data ug = Some (ug', cs) \<Longrightarrow> set cs \<inter> {Ug_Connect, Ug_Disconnect} = {}"
  using send_calls
  by (auto simp: UdpGwClient_SubmitPacket_def connection_init_def Let_def case_prod_beta split: option.splits if_splits)

lemma recv_calls: "set (snd (recv_interface_handler_send m ug)) \<inter> {Ug_Connect, Ug_Disconnect} = {}"
  by (simp add: recv_parse split: option.split)

lemma handle_server: "ug_handle r s = Some s' \<Longrightarrow> set (snd r) \<inter> {Ug_Connect, Ug_Disconnect} = {} \<Longrightarrow> uy_server s' = uy_server s"
  using perform_server [of "snd r" "s\<lparr>uy_client := fst r\<rparr>" s'] by (simp add: ug_handle_def)

lemma first_job_server: "first_job start s = Some s' \<Longrightarrow> uy_server s' = uy_server s"
  using perform_server [OF _ send_calls] by (fastforce simp: first_job_def connection_first_job_handler_def split: option.splits)

definition keeps_server :: "ug_event \<Rightarrow> bool" where
  "keeps_server e = (case e of Ev_ConnectServer _ \<Rightarrow> False | Ev_DisconnectServer \<Rightarrow> False | _ \<Rightarrow> True)"

lemma step_server:
  assumes "ug_step e s = Some s'" "keeps_server e"
  shows "uy_server s' = uy_server s"
proof (cases e)
  case (Ev_Submit alloc pp start l r is_dns data)
  then show ?thesis using assms(1) handle_server [OF _ submit_calls] first_job_server
    by (fastforce split: if_splits option.splits bind_splits)
next
  case (Ev_Reply m)
  then show ?thesis using assms(1) handle_server [OF _ recv_calls] by (auto split: if_splits)
next
  case Ev_Inactive
  then show ?thesis using assms(1) handle_server by (fastforce simp: send_monitor_handler_def split: if_splits)
qed (use assms in \<open>auto simp: keeps_server_def decoder_handler_error_def split: if_splits\<close>)

lemma gw_step_delivered:
  "gw_step mtu num e g g' \<Longrightarrow> \<exists>ds. gw_delivered g' = gw_delivered g @ ds \<and> ((\<forall>m. e \<noteq> Ev_Reply m) \<longrightarrow> ds = [])"
  by (cases rule: gw_step.cases) (auto simp: gw_send_def)

lemma step_delivered:
  assumes "uy_ok s" "ug_step e s = Some s'"
  obtains ds where "uy_delivered s' = uy_delivered s @ ds" "(\<forall>m. e \<noteq> Ev_Reply m) \<longrightarrow> ds = []"
proof (cases "offered e s")
  case True
  from ug_step_ok [OF assms(1) True] assms(2)
  have "gw_step (ug_udp_mtu (uy_client s)) (ug_max_connections (uy_client s)) e (ug_abs s) (ug_abs s')" by (simp add: step_good_def del: ug_step.simps)
  from gw_step_delivered [OF this] that show thesis by (auto simp: ug_abs_def)
next
  case False
  with ug_step_skip [OF False] assms(2) that show thesis by (auto simp del: ug_step.simps)
qed

section \<open>Every step keeps the parts in order\<close>

lemma perform_deliver: "sg_perform (concat (map (\<lambda>(l, r, data). udpgw_handler_received l r data) ds)) s = Some (s\<lparr>sx_received := sx_received s @ ds\<rparr>)"
  by (induction ds arbitrary: s) (auto simp: udpgw_handler_received_def)

lemma gw_only:
  assumes "sg_ok s" "keeps_server e" "\<And>m. e \<noteq> Ev_Reply m"
  shows "sg_good 1 s (with_gw (s\<lparr>sx_answers := a\<rparr>) (ug_step e (sx_gw s)))"
proof -
  have ok: "uy_ok (sx_gw s)" using assms(1) by (simp add: sg_ok_def)
  obtain g where g: "ug_step e (sx_gw s) = Some g" "uy_ok g" "ug_run [e] (sx_gw s) = Some g" by (rule gw_event [OF ok])
  moreover have "uy_server g = uy_server (sx_gw s)" by (rule step_server [OF g(1) assms(2)])
  moreover have "uy_delivered g = uy_delivered (sx_gw s)" by (rule step_delivered [OF ok g(1)]) (use assms(3) in auto)
  ultimately show ?thesis using assms(1) one_event [OF g(3)] by (auto simp: sg_good_def with_gw_def sg_ok_def simp del: ug_step.simps ug_run.simps)
qed

lemma reply_good:
  assumes "sg_ok s"
  shows "sg_good 1 s (sg_step (Sg_Reply m) s)"
proof -
  have ok: "uy_ok (sx_gw s)" using assms by (simp add: sg_ok_def)
  obtain g where g: "ug_step (Ev_Reply m) (sx_gw s) = Some g" "uy_ok g" "ug_run [Ev_Reply m] (sx_gw s) = Some g" by (rule gw_event [OF ok])
  moreover have "uy_server g = uy_server (sx_gw s)" by (rule step_server [OF g(1)]) (simp add: keeps_server_def)
  moreover obtain ds where "uy_delivered g = uy_delivered (sx_gw s) @ ds" by (rule step_delivered [OF ok g(1)])
  ultimately show ?thesis
    using assms one_event [OF g(3)] by (auto simp: sg_good_def sg_ok_def deliver_new_def perform_deliver simp del: ug_step.simps ug_run.simps)
qed

text \<open>Connecting and disconnecting the gateway.\<close>

lemma gw_connect:
  assumes "uy_ok g" "\<not> uy_server g"
  obtains g' where "ug_step (Ev_ConnectServer True) g = Some g'" "uy_ok g'" "uy_server g'" "uy_delivered g' = uy_delivered g"
    "ug_table (uy_client g') = ug_table (uy_client g)" "ug_run [Ev_ConnectServer True] g = Some g'"
proof -
  obtain g' where g': "ug_step (Ev_ConnectServer True) g = Some g'" "uy_ok g'" "ug_run [Ev_ConnectServer True] g = Some g'" by (rule gw_event [OF assms(1)])
  with assms have "uy_server g'" "uy_delivered g' = uy_delivered g" "ug_table (uy_client g') = ug_table (uy_client g)"
    by (auto simp: uy_ok_def UdpGwClient_ConnectServer_def ug_handle_def ug_table_def split: if_splits)
  with g' show thesis by (intro that)
qed

lemma gw_disconnect:
  assumes "uy_ok g" "uy_server g"
  obtains g' where "ug_step Ev_DisconnectServer g = Some g'" "uy_ok g'" "\<not> uy_server g'" "uy_delivered g' = uy_delivered g"
    "ug_run [Ev_DisconnectServer] g = Some g'"
proof -
  obtain g' where g': "ug_step Ev_DisconnectServer g = Some g'" "uy_ok g'" "ug_run [Ev_DisconnectServer] g = Some g'" by (rule gw_event [OF assms(1)])
  with assms have "\<not> uy_server g'" "uy_delivered g' = uy_delivered g"
    by (auto simp: uy_ok_def UdpGwClient_DisconnectServer_def free_server_def ug_handle_def split: if_splits)
  with g' show thesis by (intro that)
qed

lemma sg_free_socks_ok:
  assumes "sg_ok s" "sg_have_socks (sx_client s)"
  obtains s' where "sg_handle (free_socks (sx_client s)) s = Some s'" "uy_ok (sx_gw s')" "\<not> uy_server (sx_gw s')" "\<not> sx_socks s'" "\<not> sx_timer s'"
    "sx_received s' = uy_delivered (sx_gw s')" "sx_client s' = (sx_client s)\<lparr>sg_have_socks := False\<rparr>" "\<exists>fs. length fs \<le> 1 \<and> ug_run fs (sx_gw s) = Some (sx_gw s')"
proof (cases "sg_socks_up (sx_client s)")
  case True
  then have "uy_ok (sx_gw s)" "uy_server (sx_gw s)" using assms by (simp_all add: sg_ok_def)
  then obtain g where g: "ug_step Ev_DisconnectServer (sx_gw s) = Some g" "uy_ok g" "\<not> uy_server g" "uy_delivered g = uy_delivered (sx_gw s)"
    "ug_run [Ev_DisconnectServer] (sx_gw s) = Some g" by (rule gw_disconnect)
  show thesis
    by (rule that [of "s\<lparr>sx_client := (sx_client s)\<lparr>sg_have_socks := False\<rparr>, sx_gw := g, sx_socks := False\<rparr>"])
      (use g one_event [OF g(5)] True assms in \<open>auto simp: sg_ok_def sg_handle_def free_socks_def with_gw_def simp del: ug_step.simps ug_run.simps\<close>)
next
  case False
  show thesis
    by (rule that [of "s\<lparr>sx_client := (sx_client s)\<lparr>sg_have_socks := False\<rparr>, sx_socks := False\<rparr>"])
      (use False assms no_event [of 1 "sx_gw s"] in \<open>auto simp: sg_ok_def sg_handle_def free_socks_def\<close>)
qed

lemma sg_perform_append: "sg_perform (cs @ ds) s = Option.bind (sg_perform cs s) (sg_perform ds)"
  by (induction cs arbitrary: s) (auto simp del: sg_do.simps split: bind_splits)

lemma retry_good:
  assumes "sg_ok s" "sg_have_socks (sx_client s)"
  shows "sg_good 1 s (sg_handle (free_and_retry (sx_client s)) s)"
proof -
  obtain s' where s': "sg_handle (free_socks (sx_client s)) s = Some s'" "uy_ok (sx_gw s')" "\<not> uy_server (sx_gw s')" "\<not> sx_socks s'" "\<not> sx_timer s'"
    "sx_received s' = uy_delivered (sx_gw s')" "sx_client s' = (sx_client s)\<lparr>sg_have_socks := False\<rparr>" "\<exists>fs. length fs \<le> 1 \<and> ug_run fs (sx_gw s) = Some (sx_gw s')"
    by (rule sg_free_socks_ok [OF assms])
  from s'(1) have "sg_handle (free_and_retry (sx_client s)) s = Some (s'\<lparr>sx_timer := True\<rparr>)"
    by (simp add: sg_handle_def free_and_retry_def case_prod_beta sg_perform_append)
  with s' show ?thesis by (simp add: sg_good_def sg_ok_def)
qed

lemma try_connect_good:
  assumes "uy_ok (sx_gw s)" "\<not> sx_socks s" "\<not> sx_timer s" "\<not> sg_have_socks sg" "\<not> uy_server (sx_gw s)" "sx_received s = uy_delivered (sx_gw s)"
  shows "sg_good 1 s (sg_handle (try_connect socks_init sg) s)"
  using assms no_event [of 1 "sx_gw s"] by (auto simp: sg_good_def sg_ok_def sg_handle_def try_connect_def)

lemma up_good:
  assumes "sg_ok s" "sg_have_socks (sx_client s)" "\<not> sg_socks_up (sx_client s)"
  obtains s' where "sg_step (Sg_Socks True BSOCKSCLIENT_EVENT_UP) s = Some s'" "sg_good 1 s (Some s')" "uy_server (sx_gw s')"
    "ug_table (uy_client (sx_gw s')) = ug_table (uy_client (sx_gw s))"
proof -
  have ok: "uy_ok (sx_gw s)" "\<not> uy_server (sx_gw s)" using assms by (simp_all add: sg_ok_def)
  obtain g where g: "ug_step (Ev_ConnectServer True) (sx_gw s) = Some g" "uy_ok g" "uy_server g" "uy_delivered g = uy_delivered (sx_gw s)"
    "ug_table (uy_client g) = ug_table (uy_client (sx_gw s))" "ug_run [Ev_ConnectServer True] (sx_gw s) = Some g"
    by (rule gw_connect [OF ok])
  show thesis
    by (rule that [of "s\<lparr>sx_client := (sx_client s)\<lparr>sg_socks_up := True\<rparr>, sx_gw := g\<rparr>"])
      (use g one_event [OF g(6)] ok assms in \<open>auto simp: sg_good_def sg_ok_def sg_handle_def socks_client_handler_def with_gw_def simp del: ug_step.simps ug_run.simps\<close>)
qed

lemma perform_last: "Option.bind r (sg_perform []) = r"
  by (cases r) simp_all

lemma good_timer: "sg_good k (s\<lparr>sx_timer := b\<rparr>) r = sg_good k s r"
  by (simp add: sg_good_def split: option.split)

lemma same_good: "sg_ok s \<Longrightarrow> sg_good k s (Some s)"
  using no_event [of k "sx_gw s"] by (auto simp: sg_good_def)

lemma sg_step_ok:
  assumes "sg_ok s"
  shows "sg_good 1 s (sg_step e s)"
proof (cases e)
  case (Sg_Submit a l r is_dns data)
  have "keeps_server (Ev_Submit (fst a) (fst (snd a)) (snd (snd a)) l r is_dns data)" by (simp add: keeps_server_def)
  from gw_only [OF assms this] Sg_Submit show ?thesis
    by (simp add: SocksUdpGwClient_SubmitPacket_def case_prod_beta with_gw_def perform_last del: ug_step.simps)
next
  case (Sg_Reply m)
  then show ?thesis using reply_good [OF assms] by (simp only:)
next
  case Sg_Inactive
  then show ?thesis using gw_only [OF assms, of Ev_Inactive "sx_answers s"] by (simp add: keeps_server_def del: ug_step.simps)
next
  case Sg_Keepalive_Done
  then show ?thesis using gw_only [OF assms, of Ev_Keepalive_Done "sx_answers s"] by (simp add: keeps_server_def del: ug_step.simps)
next
  case (Sg_Timer b)
  then show ?thesis using try_connect_good [of "s\<lparr>sx_timer := False\<rparr>" "sx_client s" b] same_good [OF assms] assms
    by (auto simp: reconnect_timer_handler_def sg_ok_def good_timer)
next
  case (Sg_Socks b ev)
  show ?thesis
  proof (cases "sx_socks s \<and> (ev = BSOCKSCLIENT_EVENT_UP \<longrightarrow> \<not> sg_socks_up (sx_client s))")
    case True
    then have h: "sg_have_socks (sx_client s)" using assms by (simp add: sg_ok_def)
    show ?thesis
    proof (cases "ev = BSOCKSCLIENT_EVENT_UP \<and> b")
      case up: True
      then show ?thesis using up_good [OF assms h] True Sg_Socks by metis
    next
      case False
      then have "socks_client_handler b ev (sx_client s) = free_and_retry (sx_client s)" by (cases ev) (auto simp: socks_client_handler_def)
      then show ?thesis using retry_good [OF assms h] True Sg_Socks by simp
    qed
  next
    case False
    then show ?thesis using same_good [OF assms] Sg_Socks by auto
  qed
next
  case Sg_Server_Error
  then show ?thesis using retry_good [OF assms] same_good [OF assms] assms by (auto simp: udpgw_handler_servererror_def sg_ok_def)
qed

lemma sg_run_ok:
  assumes "sg_ok s"
  shows "sg_good (length es) s (sg_run es s)"
  using assms
proof (induction es arbitrary: s)
  case Nil
  then show ?case using same_good by simp
next
  case (Cons e es)
  from sg_step_ok [OF Cons.prems, of e] obtain s1 fs where s1: "sg_step e s = Some s1" "sg_ok s1" "ug_run fs (sx_gw s) = Some (sx_gw s1)"
    "length fs \<le> 1"
    by (auto simp: sg_good_def simp del: sg_step.simps split: option.splits)
  from Cons.IH [OF s1(2)] obtain s2 gs where s2: "sg_run es s1 = Some s2" "sg_ok s2" "ug_run gs (sx_gw s1) = Some (sx_gw s2)"
    "length gs \<le> length es"
    by (auto simp: sg_good_def split: option.splits)
  have "\<exists>hs. length hs \<le> length (e # es) \<and> ug_run hs (sx_gw s) = Some (sx_gw s2)"
    by (rule exI [of _ "fs @ gs"]) (use s1(3,4) s2(3,4) in \<open>simp add: ug_run_append\<close>)
  with s1(1) s2(1,2) show ?case by (auto simp: sg_good_def simp del: sg_step.simps)
qed

section \<open>Start and end\<close>

lemma sg_start_ok:
  assumes "ug_init_ok udp_mtu n ug" "SocksUdpGwClient_Init True socks_init junk udp_mtu n = Some (ug', r)"
  shows "ug' = ug" "sg_good 1 (sg_start ug sg) (sg_handle r (sg_start ug sg))"
proof -
  have r: "ug' = ug" "r = try_connect socks_init \<lparr>sg_have_socks = False, sg_socks_up = junk\<rparr>"
    using assms by (auto simp: SocksUdpGwClient_Init_def ug_init_ok_def)
  have "uy_ok (sx_gw (sg_start ug sg))" "\<not> uy_server (sx_gw (sg_start ug sg))" "sx_received (sg_start ug sg) = uy_delivered (sx_gw (sg_start ug sg))"
    using ug_start_ok(1) [OF assms(1)] by (simp_all add: sg_start_def ug_start_def)
  then have "sg_good 1 (sg_start ug sg) (sg_handle (try_connect socks_init \<lparr>sg_have_socks = False, sg_socks_up = junk\<rparr>) (sg_start ug sg))"
    by (intro try_connect_good) (simp_all add: sg_start_def)
  then show "ug' = ug" "sg_good 1 (sg_start ug sg) (sg_handle r (sg_start ug sg))" unfolding r by simp_all
qed

lemma sg_free_ok:
  assumes "sg_ok s"
  obtains t where "sg_handle (SocksUdpGwClient_Free (sx_client s)) s = Some t" "\<not> sx_socks t" "\<not> sx_timer t" "uy_flows (sx_gw t) = []"
proof -
  let ?first = "if sg_have_socks (sx_client s) then free_socks (sx_client s) else (sx_client s, [])"
  have "\<exists>s'. sg_handle ?first s = Some s' \<and> uy_ok (sx_gw s') \<and> \<not> sx_socks s'"
  proof (cases "sg_have_socks (sx_client s)")
    case True
    obtain s' where "sg_handle (free_socks (sx_client s)) s = Some s'" "uy_ok (sx_gw s')" "\<not> sx_socks s'"
      by (rule sg_free_socks_ok [OF assms True])
    with True show ?thesis by simp
  next
    case False
    with assms show ?thesis by (simp add: sg_handle_def sg_ok_def)
  qed
  then obtain s' where s': "sg_handle ?first s = Some s'" "uy_ok (sx_gw s')" "\<not> sx_socks s'" by blast
  have "sg_handle (SocksUdpGwClient_Free (sx_client s)) s =
      Some (s'\<lparr>sx_timer := False, sx_gw := (sx_gw s')\<lparr>uy_flows := [], uy_server := False\<rparr>\<rparr>)"
    using s'(1) UdpGwClient_Free_ok [OF s'(2)]
    by (simp add: SocksUdpGwClient_Free_def case_prod_beta sg_handle_def sg_perform_append with_gw_def split: if_splits)
  then show thesis by (rule that) (simp_all add: s'(3))
qed

text \<open>A reply of the gateway reaches the sender, through the SOCKS client and its reconnections.\<close>

lemma socks_reply_reaches:
  assumes ok: "sg_ok s"
    and sub: "sg_step (Sg_Submit answers l r is_dns data) s = Some s'" "uy_sent (sx_gw s') = uy_sent (sx_gw s) @ [m]"
    and later: "sg_run fs s' = Some t" "int (length fs) < ug_max_connections (uy_client (sx_gw s))" "uy_server (sx_gw t)"
    and reply: "f AND UDPGW_CLIENT_FLAG_IPV6 = 0" "int (length answer) \<le> ug_udp_mtu (uy_client (sx_gw s))"
  shows "\<exists>flags c t'. m = udpgw_message flags c r data \<and> sg_step (Sg_Reply (udpgw_message f c r answer)) t = Some t' \<and>
    sx_received t' = sx_received t @ [(l, r, answer)]"
proof -
  have g: "uy_ok (sx_gw s)" using ok by (simp add: sg_ok_def)
  have s': "sg_ok s'" using sg_step_ok [OF ok, of "Sg_Submit answers l r is_dns data"] sub(1) by (simp add: sg_good_def del: sg_step.simps)
  obtain a p st where an: "answers = (a, p, st)" by (cases answers)
  have sub': "ug_step (Ev_Submit a p st l r is_dns data) (sx_gw s) = Some (sx_gw s')"
    using sub(1) by (auto simp: an SocksUdpGwClient_SubmitPacket_def with_gw_def perform_last simp del: ug_step.simps)
  obtain gs where gs: "length gs \<le> length fs" "ug_run gs (sx_gw s') = Some (sx_gw t)" and t: "sg_ok t"
    using sg_run_ok [OF s', of fs] later(1) by (auto simp: sg_good_def)
  obtain flags c g' where c: "m = udpgw_message flags c r data" "ug_step (Ev_Reply (udpgw_message f c r answer)) (sx_gw t) = Some g'"
    "uy_delivered g' = uy_delivered (sx_gw t) @ [(l, r, answer)]"
    using reply_reaches [OF g sub' sub(2) gs(2) _ later(3) reply] gs(1) later(2) by auto
  then have "sg_step (Sg_Reply (udpgw_message f c r answer)) t = Some (t\<lparr>sx_gw := g', sx_received := sx_received t @ [(l, r, answer)]\<rparr>)"
    by (simp add: deliver_new_def udpgw_handler_received_def del: ug_step.simps)
  moreover have "sx_received (t\<lparr>sx_gw := g', sx_received := sx_received t @ [(l, r, answer)]\<rparr>) = sx_received t @ [(l, r, answer)]" by simp
  ultimately show ?thesis using c(1) by blast
qed

section \<open>Properties\<close>

text \<open>
  C16: Whatever happens, there is either a SOCKS client or the timer for the next attempt runs, the gateway
  has a server exactly while the SOCKS client is up, no call is made out of turn, the gateway goes
  through a run of its own, and the user is given exactly what the gateway delivers. Freeing at any
  point frees the SOCKS client, the timer and all connections.
\<close>

theorem socks_udpgw_safe:
  assumes "ug_init_ok udp_mtu n ug" "SocksUdpGwClient_Init True socks_init junk udp_mtu n = Some (ug, sg, calls)"
  shows "\<exists>s fs t. Option.bind (sg_handle (sg, calls) (sg_start ug sg)) (sg_run es) = Some s \<and>
    sx_timer s = (\<not> sx_socks s) \<and> uy_server (sx_gw s) = (sx_socks s \<and> sg_socks_up (sx_client s)) \<and>
    ug_run fs (ug_start ug) = Some (sx_gw s) \<and> sx_received s = uy_delivered (sx_gw s) \<and>
    sg_handle (SocksUdpGwClient_Free (sx_client s)) s = Some t \<and> \<not> sx_socks t \<and> \<not> sx_timer t \<and> uy_flows (sx_gw t) = []"
proof -
  from sg_start_ok(2) [OF assms(1,2), of sg] obtain s0 fs where s0: "sg_handle (sg, calls) (sg_start ug sg) = Some s0" "sg_ok s0"
    "ug_run fs (ug_start ug) = Some (sx_gw s0)" by (auto simp: sg_good_def sg_start_def split: option.splits)
  from sg_run_ok [OF s0(2), of es] obtain s gs where s: "sg_run es s0 = Some s" "sg_ok s" "ug_run gs (sx_gw s0) = Some (sx_gw s)"
    by (auto simp: sg_good_def split: option.splits)
  obtain t where t: "sg_handle (SocksUdpGwClient_Free (sx_client s)) s = Some t" "\<not> sx_socks t" "\<not> sx_timer t" "uy_flows (sx_gw t) = []"
    by (rule sg_free_ok [OF s(2)])
  have "ug_run (fs @ gs) (ug_start ug) = Some (sx_gw s)" using s0(3) s(3) by (simp add: ug_run_append)
  with s0(1) s t show ?thesis by (auto simp: sg_ok_def)
qed

lemma sg_init_1000:
  "SocksUdpGwClient_Init True True False 1000 2 =
     Some (the (UdpGwClient_Init True 1000 2), \<lparr>sg_have_socks = True, sg_socks_up = False\<rparr>, [Sg_SocksClient_Init])"
  by (simp add: SocksUdpGwClient_Init_def UdpGwClient_Init_def try_connect_def Let_def)

theorem socks_udpgw_safe_witness:
  "\<exists>s. Option.bind (sg_handle (\<lparr>sg_have_socks = True, sg_socks_up = False\<rparr>, [Sg_SocksClient_Init])
      (sg_start (the (UdpGwClient_Init True 1000 2)) \<lparr>sg_have_socks = True, sg_socks_up = False\<rparr>))
      (sg_run [Sg_Socks True BSOCKSCLIENT_EVENT_UP, Sg_Server_Error]) = Some s \<and> sx_timer s = (\<not> sx_socks s)"
  using socks_udpgw_safe [OF the_init sg_init_1000] by blast

text \<open>
  C17: The gateway recovers: from every state, when the timer fires, the SOCKS client can be made and its
  handshake succeeds, the gateway has a server again, and every pair of addresses has kept its
  identifier.
\<close>

theorem socks_udpgw_recovers:
  assumes "ug_init_ok udp_mtu n ug" "SocksUdpGwClient_Init True socks_init junk udp_mtu n = Some (ug, sg, calls)"
    and "Option.bind (sg_handle (sg, calls) (sg_start ug sg)) (sg_run es) = Some s"
  shows "\<exists>t. sg_run [Sg_Timer True, Sg_Socks True BSOCKSCLIENT_EVENT_UP] s = Some t \<and> uy_server (sx_gw t) \<and>
    ug_table (uy_client (sx_gw t)) = ug_table (uy_client (sx_gw s))"
proof -
  from sg_start_ok(2) [OF assms(1,2), of sg] obtain s0 where s0: "sg_handle (sg, calls) (sg_start ug sg) = Some s0" "sg_ok s0"
    by (auto simp: sg_good_def split: option.splits)
  have s: "sg_ok s" using sg_run_ok [OF s0(2), of es] assms(3) s0(1) by (auto simp: sg_good_def split: option.splits)
  from sg_step_ok [OF s, of "Sg_Timer True"] obtain s1 where s1: "sg_step (Sg_Timer True) s = Some s1" "sg_ok s1"
    by (auto simp: sg_good_def simp del: sg_step.simps split: option.splits)
  have h: "sg_have_socks (sx_client s1)" "sx_gw s1 = sx_gw s"
    using s1(1) s by (auto simp: sg_ok_def sg_handle_def reconnect_timer_handler_def try_connect_def split: if_splits)
  show ?thesis
  proof (cases "sg_socks_up (sx_client s1)")
    case True
    then have "sg_run [Sg_Timer True, Sg_Socks True BSOCKSCLIENT_EVENT_UP] s = Some s1" using s1(1) by (simp del: sg_step.simps(5))
    then show ?thesis using True h s1(2) by (auto simp: sg_ok_def simp del: sg_run.simps)
  next
    case False
    obtain t where "sg_step (Sg_Socks True BSOCKSCLIENT_EVENT_UP) s1 = Some t" "uy_server (sx_gw t)"
      "ug_table (uy_client (sx_gw t)) = ug_table (uy_client (sx_gw s1))" by (rule up_good [OF s1(2) h(1) False])
    then show ?thesis using s1(1) h(2) by (simp del: sg_step.simps)
  qed
qed

theorem socks_udpgw_recovers_witness:
  "\<exists>s t. Option.bind (sg_handle (\<lparr>sg_have_socks = True, sg_socks_up = False\<rparr>, [Sg_SocksClient_Init])
      (sg_start (the (UdpGwClient_Init True 1000 2)) \<lparr>sg_have_socks = True, sg_socks_up = False\<rparr>))
      (sg_run [Sg_Socks True BSOCKSCLIENT_EVENT_ERROR]) = Some s \<and> sx_timer s \<and>
    sg_run [Sg_Timer True, Sg_Socks True BSOCKSCLIENT_EVENT_UP] s = Some t \<and> uy_server (sx_gw t)"
proof -
  have "\<exists>s. Option.bind (sg_handle (\<lparr>sg_have_socks = True, sg_socks_up = False\<rparr>, [Sg_SocksClient_Init])
      (sg_start (the (UdpGwClient_Init True 1000 2)) \<lparr>sg_have_socks = True, sg_socks_up = False\<rparr>))
      (sg_run [Sg_Socks True BSOCKSCLIENT_EVENT_ERROR]) = Some s \<and> sx_timer s"
    by (simp add: sg_handle_def sg_start_def ug_start_def socks_client_handler_def free_and_retry_def free_socks_def)
  with socks_udpgw_recovers [OF the_init sg_init_1000, of "[Sg_Socks True BSOCKSCLIENT_EVENT_ERROR]"] show ?thesis by blast
qed

end
