(* ===== verification/Tun_Options.thy ===== *)
theory Tun_Options
  imports Socks_Client
begin

text \<open>
  The command line of \<^verbatim>\<open>tun2socks\<close>: \<^verbatim>\<open>parse_arguments\<close> and \<^verbatim>\<open>process_arguments\<close> of
  \<^verbatim>\<open>tun2socks/tun2socks.c\<close>, with \<^verbatim>\<open>parse_loglevel\<close> of \<^verbatim>\<open>misc/loglevel.h\<close>, for the build with \<^verbatim>\<open>ANDROID\<close>
  and without \<^verbatim>\<open>ANDROID_UDP\<close>. The list of log channels is generated by the build, so it is an
  argument, as are \<^verbatim>\<open>getaddrinfo\<close> and the function that reads a file. A null pointer is None.
\<close>

section \<open>Numbers and log levels\<close>

text \<open>\<^verbatim>\<open>strtol\<close> saturates at the bounds of a 64-bit \<^verbatim>\<open>long\<close>; \<^verbatim>\<open>atoi\<close> keeps the low 32 bits of it.\<close>

definition strtol :: "string \<Rightarrow> int \<times> string" where
  "strtol str = (let (n, rest) = strtol10 str in (max (- (2 ^ 63)) (min (2 ^ 63 - 1) n), rest))"

definition atoi :: "string \<Rightarrow> int" where
  "atoi str = signed_take_bit 31 (fst (strtol str))"

definition BLOG_ERROR :: int where "BLOG_ERROR = 1"
definition BLOG_WARNING :: int where "BLOG_WARNING = 2"
definition BLOG_NOTICE :: int where "BLOG_NOTICE = 3"
definition BLOG_INFO :: int where "BLOG_INFO = 4"
definition BLOG_DEBUG :: int where "BLOG_DEBUG = 5"

definition parse_loglevel :: "string \<Rightarrow> int" where
  "parse_loglevel str =
     (if str = ''none'' then 0
      else if str = ''error'' then BLOG_ERROR
      else if str = ''warning'' then BLOG_WARNING
      else if str = ''notice'' then BLOG_NOTICE
      else if str = ''info'' then BLOG_INFO
      else if str = ''debug'' then BLOG_DEBUG
      else let (res, endptr) = strtol str in
        if str \<noteq> [] \<and> endptr = [] \<and> res \<ge> 0 \<and> res \<le> BLOG_DEBUG then res else - 1)"

fun find_channel :: "string list \<Rightarrow> string \<Rightarrow> int \<Rightarrow> int" where
  "find_channel [] channel_name i = - 1"
| "find_channel (c # cs) channel_name i = (if c = channel_name then i else find_channel cs channel_name (i + 1))"

definition BLogGlobal_GetChannelByName :: "string list \<Rightarrow> string \<Rightarrow> int" where
  "BLogGlobal_GetChannelByName channels channel_name = find_channel channels channel_name 0"

section \<open>Parsing\<close>

datatype logger = LOGGER_STDOUT | LOGGER_SYSLOG

record options =
  op_help :: bool
  op_version :: bool
  op_logger :: logger
  op_logger_syslog_facility :: string
  op_logger_syslog_ident :: string
  op_loglevel :: int
  op_loglevels :: "int list"
  op_netif_ipaddr :: "string option"
  op_netif_netmask :: "string option"
  op_netif_ip6addr :: "string option"
  op_socks_server_addr :: "string option"
  op_username :: "string option"
  op_password :: "string option"
  op_password_file :: "string option"
  op_append_source_to_username :: bool
  op_udpgw_remote_server_addr :: "string option"
  op_udpgw_max_connections :: int
  op_udpgw_connection_buffer_size :: int
  op_udpgw_transparent_dns :: bool
  op_tun_fd :: int
  op_tun_mtu :: int
  op_fake_proc :: bool
  op_pid :: "string option"
  op_sock :: "string option"
  op_dnsgw :: "string option"

text \<open>The defaults; \<^verbatim>\<open>sock\<close> and \<^verbatim>\<open>dnsgw\<close> are not assigned, so they keep the value they had.\<close>

definition DEFAULT_UDPGW_MAX_CONNECTIONS :: int where "DEFAULT_UDPGW_MAX_CONNECTIONS = 256"
definition DEFAULT_UDPGW_CONNECTION_BUFFER_SIZE :: int where "DEFAULT_UDPGW_CONNECTION_BUFFER_SIZE = 8"

definition default_options :: "string list \<Rightarrow> string \<Rightarrow> options \<Rightarrow> options" where
  "default_options channels argv0 o0 =
     \<lparr>op_help = False, op_version = False, op_logger = LOGGER_STDOUT, op_logger_syslog_facility = ''daemon'',
      op_logger_syslog_ident = argv0, op_loglevel = - 1, op_loglevels = replicate (length channels) (- 1),
      op_netif_ipaddr = None, op_netif_netmask = None, op_netif_ip6addr = None, op_socks_server_addr = None,
      op_username = None, op_password = None, op_password_file = None, op_append_source_to_username = False,
      op_udpgw_remote_server_addr = None, op_udpgw_max_connections = DEFAULT_UDPGW_MAX_CONNECTIONS,
      op_udpgw_connection_buffer_size = DEFAULT_UDPGW_CONNECTION_BUFFER_SIZE, op_udpgw_transparent_dns = False,
      op_tun_fd = - 1, op_tun_mtu = 1500, op_fake_proc = False, op_pid = None, op_sock = op_sock o0, op_dnsgw = op_dnsgw o0\<rparr>"

text \<open>An option with one argument; None says that parsing fails.\<close>

definition with_argument :: "string list \<Rightarrow> (string \<Rightarrow> options option) \<Rightarrow> (options \<times> string list) option" where
  "with_argument rest k = (case rest of [] \<Rightarrow> None | arg2 # rest \<Rightarrow> map_option (\<lambda>opt. (opt, rest)) (k arg2))"

definition positive :: "string \<Rightarrow> (int \<Rightarrow> options) \<Rightarrow> options option" where
  "positive str k = (if atoi str \<le> 0 then None else Some (k (atoi str)))"

text \<open>One turn of the loop, in two parts: the new options and the arguments not looked at yet.\<close>

definition parse_network_option :: "options \<Rightarrow> string \<Rightarrow> string list \<Rightarrow> (options \<times> string list) option" where
  "parse_network_option opt arg rest =
     (if arg = ''--netif-ipaddr'' then with_argument rest (\<lambda>arg2. Some (opt\<lparr>op_netif_ipaddr := Some arg2\<rparr>))
      else if arg = ''--netif-netmask'' then with_argument rest (\<lambda>arg2. Some (opt\<lparr>op_netif_netmask := Some arg2\<rparr>))
      else if arg = ''--netif-ip6addr'' then with_argument rest (\<lambda>arg2. Some (opt\<lparr>op_netif_ip6addr := Some arg2\<rparr>))
      else if arg = ''--socks-server-addr'' then with_argument rest (\<lambda>arg2. Some (opt\<lparr>op_socks_server_addr := Some arg2\<rparr>))
      else if arg = ''--username'' then with_argument rest (\<lambda>arg2. Some (opt\<lparr>op_username := Some arg2\<rparr>))
      else if arg = ''--password'' then with_argument rest (\<lambda>arg2. Some (opt\<lparr>op_password := Some arg2\<rparr>))
      else if arg = ''--password-file'' then with_argument rest (\<lambda>arg2. Some (opt\<lparr>op_password_file := Some arg2\<rparr>))
      else if arg = ''--append-source-to-username'' then Some (opt\<lparr>op_append_source_to_username := True\<rparr>, rest)
      else if arg = ''--udpgw-remote-server-addr'' then
        with_argument rest (\<lambda>arg2. Some (opt\<lparr>op_udpgw_remote_server_addr := Some arg2\<rparr>))
      else if arg = ''--udpgw-max-connections'' then
        with_argument rest (\<lambda>arg2. positive arg2 (\<lambda>n. opt\<lparr>op_udpgw_max_connections := n\<rparr>))
      else if arg = ''--udpgw-connection-buffer-size'' then
        with_argument rest (\<lambda>arg2. positive arg2 (\<lambda>n. opt\<lparr>op_udpgw_connection_buffer_size := n\<rparr>))
      else if arg = ''--udpgw-transparent-dns'' then Some (opt\<lparr>op_udpgw_transparent_dns := True\<rparr>, rest)
      else None)"

definition parse_option :: "string list \<Rightarrow> options \<Rightarrow> string \<Rightarrow> string list \<Rightarrow> (options \<times> string list) option" where
  "parse_option channels opt arg rest =
     (if arg = ''--help'' then Some (opt\<lparr>op_help := True\<rparr>, rest)
      else if arg = ''--version'' then Some (opt\<lparr>op_version := True\<rparr>, rest)
      else if arg = ''--logger'' then
        with_argument rest (\<lambda>arg2. if arg2 = ''stdout'' then Some (opt\<lparr>op_logger := LOGGER_STDOUT\<rparr>)
          else if arg2 = ''syslog'' then Some (opt\<lparr>op_logger := LOGGER_SYSLOG\<rparr>) else None)
      else if arg = ''--syslog-facility'' then with_argument rest (\<lambda>arg2. Some (opt\<lparr>op_logger_syslog_facility := arg2\<rparr>))
      else if arg = ''--syslog-ident'' then with_argument rest (\<lambda>arg2. Some (opt\<lparr>op_logger_syslog_ident := arg2\<rparr>))
      else if arg = ''--loglevel'' then
        with_argument rest (\<lambda>arg2. if parse_loglevel arg2 < 0 then None else Some (opt\<lparr>op_loglevel := parse_loglevel arg2\<rparr>))
      else if arg = ''--channel-loglevel'' then
        (case rest of
           arg2 # arg3 # rest \<Rightarrow>
             let channel = BLogGlobal_GetChannelByName channels arg2; loglevel = parse_loglevel arg3 in
             if channel < 0 \<or> loglevel < 0 then None
             else Some (opt\<lparr>op_loglevels := (op_loglevels opt)[nat channel := loglevel]\<rparr>, rest)
         | _ \<Rightarrow> None)
      else if arg = ''--fake-proc'' then Some (opt\<lparr>op_fake_proc := True\<rparr>, rest)
      else if arg = ''--tunfd'' then with_argument rest (\<lambda>arg2. positive arg2 (\<lambda>n. opt\<lparr>op_tun_fd := n\<rparr>))
      else if arg = ''--tunmtu'' then with_argument rest (\<lambda>arg2. positive arg2 (\<lambda>n. opt\<lparr>op_tun_mtu := n\<rparr>))
      else if arg = ''--dnsgw'' then with_argument rest (\<lambda>arg2. Some (opt\<lparr>op_dnsgw := Some arg2\<rparr>))
      else if arg = ''--pid'' then with_argument rest (\<lambda>arg2. Some (opt\<lparr>op_pid := Some arg2\<rparr>))
      else if arg = ''--sock'' then with_argument rest (\<lambda>arg2. Some (opt\<lparr>op_sock := Some arg2\<rparr>))
      else parse_network_option opt arg rest)"

lemma parse_option_shorter: "parse_option channels opt arg rest = Some (opt', rest') \<Longrightarrow> length rest' \<le> length rest"
  unfolding parse_option_def parse_network_option_def
  by (auto simp: with_argument_def positive_def Let_def split: if_splits list.splits)

function parse_loop :: "string list \<Rightarrow> string list \<Rightarrow> options \<Rightarrow> options option" where
  "parse_loop channels [] opt = Some opt"
| "parse_loop channels (arg # rest) opt =
     (case parse_option channels opt arg rest of None \<Rightarrow> None | Some (opt, rest) \<Rightarrow> parse_loop channels rest opt)"
  by pat_completeness auto
termination
  by (relation "measure (\<lambda>(_, args, _). length args)") (auto simp: less_Suc_eq_le dest: parse_option_shorter)

definition parse_arguments :: "string list \<Rightarrow> options \<Rightarrow> string list \<Rightarrow> options option" where
  "parse_arguments channels o0 argv =
     (case argv of [] \<Rightarrow> None
      | argv0 # args \<Rightarrow>
          (case parse_loop channels args (default_options channels argv0 o0) of
             None \<Rightarrow> None
           | Some opt \<Rightarrow>
               if op_help opt \<or> op_version opt then Some opt
               else if op_netif_ipaddr opt = None then None
               else if op_netif_netmask opt = None then None
               else if op_socks_server_addr opt = None then None
               else if op_username opt \<noteq> None \<and> op_password opt = None \<and> op_password_file opt = None then None
               else if op_username opt \<noteq> None \<and> op_password opt \<noteq> None \<and> op_password_file opt \<noteq> None then None
               else if op_sock opt = None then None
               else Some opt))"

section \<open>Processing\<close>

text \<open>The globals \<^verbatim>\<open>process_arguments\<close> sets; a file is read with the function \<^verbatim>\<open>read_file\<close>.\<close>

record tun_config =
  tf_netif_ipaddr :: BIPAddr
  tf_netif_netmask :: BIPAddr
  tf_netif_ip6addr :: bytes
  tf_socks_server_addr :: BAddr
  tf_socks_auth_info :: "BSocksClient_auth_info list"
  tf_udpgw_remote_server_addr :: BAddr
  tf_dnsgw :: BAddr

definition string_bytes :: "string \<Rightarrow> bytes" where
  "string_bytes s = map of_char s"

definition parse_addr :: "(bool \<Rightarrow> bool \<Rightarrow> string \<Rightarrow> bytes option) \<Rightarrow> string \<Rightarrow> BAddr option" where
  "parse_addr getaddrinfo str = map_option fst (BAddr_Parse2 getaddrinfo str None False)"

definition process_auth :: "(string \<Rightarrow> bytes option) \<Rightarrow> options \<Rightarrow> BSocksClient_auth_info list option" where
  "process_auth read_file opt =
     (case op_username opt of
        None \<Rightarrow> Some [BSocksClient_auth_none]
      | Some username \<Rightarrow>
          map_option (\<lambda>password. [BSocksClient_auth_none, BSocksClient_auth_password (string_bytes username) password])
            (case op_password opt of
               Some password \<Rightarrow> Some (string_bytes password)
             | None \<Rightarrow> read_file (case op_password_file opt of Some f \<Rightarrow> f | None \<Rightarrow> [])))"

definition process_arguments ::
    "(bool \<Rightarrow> bool \<Rightarrow> string \<Rightarrow> bytes option) \<Rightarrow> (string \<Rightarrow> bytes option) \<Rightarrow> options \<Rightarrow> tun_config \<Rightarrow> tun_config option" where
  "process_arguments getaddrinfo read_file opt cfg =
     (let str = (\<lambda>p. case p of Some s \<Rightarrow> s | None \<Rightarrow> []) in
      case BIPAddr_Resolve getaddrinfo (str (op_netif_ipaddr opt)) False of
        Some (BIPAddr_IPv4 ip) \<Rightarrow>
      (case BIPAddr_Resolve getaddrinfo (str (op_netif_netmask opt)) False of
        Some (BIPAddr_IPv4 netmask) \<Rightarrow>
      (case (case op_netif_ip6addr opt of None \<Rightarrow> Some (tf_netif_ip6addr cfg)
             | Some s \<Rightarrow> ipaddr6_parse_ipv6_addr_bin s (tf_netif_ip6addr cfg)) of
        None \<Rightarrow> None
      | Some ip6 \<Rightarrow>
      (case parse_addr getaddrinfo (str (op_socks_server_addr opt)) of
        None \<Rightarrow> None
      | Some socks_addr \<Rightarrow>
      (case process_auth read_file opt of
        None \<Rightarrow> None
      | Some auth \<Rightarrow>
      (case (case op_udpgw_remote_server_addr opt of None \<Rightarrow> Some (tf_udpgw_remote_server_addr cfg)
             | Some s \<Rightarrow> parse_addr getaddrinfo s) of
        None \<Rightarrow> None
      | Some udpgw \<Rightarrow>
      (case (case op_dnsgw opt of None \<Rightarrow> Some (tf_dnsgw cfg)
             | Some s \<Rightarrow> (case parse_addr getaddrinfo s of Some (BAddr_IPv4 ip port) \<Rightarrow> Some (BAddr_IPv4 ip port) | _ \<Rightarrow> None)) of
        None \<Rightarrow> None
      | Some dnsgw \<Rightarrow>
          Some \<lparr>tf_netif_ipaddr = BIPAddr_IPv4 ip, tf_netif_netmask = BIPAddr_IPv4 netmask, tf_netif_ip6addr = ip6,
                tf_socks_server_addr = socks_addr, tf_socks_auth_info = auth, tf_udpgw_remote_server_addr = udpgw,
                tf_dnsgw = dnsgw\<rparr>)))))
      | _ \<Rightarrow> None)
      | _ \<Rightarrow> None)"

section \<open>Well-typed options\<close>

definition loglevel_ok :: "int \<Rightarrow> bool" where
  "loglevel_ok n \<longleftrightarrow> - 1 \<le> n \<and> n \<le> BLOG_DEBUG"

definition count_ok :: "int \<Rightarrow> bool" where
  "count_ok n \<longleftrightarrow> 0 < n \<and> n < 2 ^ 31"

definition options_typed :: "string list \<Rightarrow> options \<Rightarrow> bool" where
  "options_typed channels opt \<longleftrightarrow>
     loglevel_ok (op_loglevel opt) \<and> length (op_loglevels opt) = length channels \<and> list_all loglevel_ok (op_loglevels opt) \<and>
     (op_tun_fd opt = - 1 \<or> count_ok (op_tun_fd opt)) \<and> count_ok (op_tun_mtu opt) \<and>
     count_ok (op_udpgw_max_connections opt) \<and> count_ok (op_udpgw_connection_buffer_size opt)"

definition options_complete :: "options \<Rightarrow> bool" where
  "options_complete opt \<longleftrightarrow>
     op_netif_ipaddr opt \<noteq> None \<and> op_netif_netmask opt \<noteq> None \<and> op_socks_server_addr opt \<noteq> None \<and> op_sock opt \<noteq> None \<and>
     (op_username opt = None \<or> (op_password opt = None) = (op_password_file opt \<noteq> None))"

lemma parse_loglevel_range: "loglevel_ok (parse_loglevel str)"
  by (auto simp: loglevel_ok_def parse_loglevel_def BLOG_ERROR_def BLOG_WARNING_def BLOG_NOTICE_def BLOG_INFO_def BLOG_DEBUG_def
      split: prod.splits)

lemma atoi_range: "- (2 ^ 31) \<le> atoi str \<and> atoi str < 2 ^ 31"
  using signed_take_bit_int_greater_eq_minus_exp [of 31 "fst (strtol str)"] signed_take_bit_int_less_exp [of 31 "fst (strtol str)"]
  by (simp add: atoi_def)

lemma positive_count: "positive str k = Some opt \<Longrightarrow> count_ok (atoi str) \<and> opt = k (atoi str)"
  using atoi_range [of str] by (auto simp: positive_def count_ok_def split: if_splits)

text \<open>A property of every result of a turn, without the conditions of the branches.\<close>

definition turns_typed :: "string list \<Rightarrow> (options \<times> string list) option \<Rightarrow> bool" where
  "turns_typed channels r \<longleftrightarrow> (\<forall>opt rest. r = Some (opt, rest) \<longrightarrow> options_typed channels opt)"

lemma turns_typed_if: "turns_typed channels a \<Longrightarrow> turns_typed channels b \<Longrightarrow> turns_typed channels (if c then a else b)"
  by simp

lemma turns_typed_with:
  "(\<And>arg2 opt. k arg2 = Some opt \<Longrightarrow> options_typed channels opt) \<Longrightarrow> turns_typed channels (with_argument rest k)"
  by (auto simp: turns_typed_def with_argument_def split: list.splits)

lemma turns_typed_positive:
  "(\<And>n. count_ok n \<Longrightarrow> options_typed channels (k n)) \<Longrightarrow> turns_typed channels (with_argument rest (\<lambda>arg2. positive arg2 k))"
  by (rule turns_typed_with) (auto dest: positive_count)

lemma turns_typed_channel:
  assumes "options_typed channels opt"
  shows "turns_typed channels (case rest of
      arg2 # arg3 # rest \<Rightarrow>
        let channel = BLogGlobal_GetChannelByName channels arg2; loglevel = parse_loglevel arg3 in
        if channel < 0 \<or> loglevel < 0 then None
        else Some (opt\<lparr>op_loglevels := (op_loglevels opt)[nat channel := loglevel]\<rparr>, rest)
    | _ \<Rightarrow> None)"
  using assms parse_loglevel_range
  by (auto simp: turns_typed_def options_typed_def Let_def list_all_iff split: list.splits if_splits
      dest!: subsetD [OF set_update_subset_insert])

lemma parse_option_typed:
  assumes "options_typed channels opt"
  shows "turns_typed channels (parse_option channels opt arg rest)"
  unfolding parse_option_def parse_network_option_def
  by (intro turns_typed_if turns_typed_channel [OF assms] turns_typed_positive turns_typed_with)
     (use assms parse_loglevel_range in \<open>auto simp: turns_typed_def options_typed_def split: if_splits\<close>)

lemma parse_loop_typed:
  "parse_loop channels args opt = Some opt' \<Longrightarrow> options_typed channels opt \<Longrightarrow> options_typed channels opt'"
proof (induction channels args opt rule: parse_loop.induct)
  case (2 channels arg rest opt)
  then show ?case using parse_option_typed [OF 2(3), of arg rest] by (auto simp: turns_typed_def split: option.splits)
qed simp

text \<open>
  C40: What \<^verbatim>\<open>parse_arguments\<close> accepts is well typed: log levels between -1 and \<^verbatim>\<open>BLOG_DEBUG\<close>, one for
  every channel; the descriptor unset or positive; MTU and counts positive integers of 32 bits.
  Unless help or version is asked for, the required options are present, and a username comes
  with exactly one of password and password file.
\<close>

theorem parse_arguments_typed:
  assumes "parse_arguments channels o0 argv = Some opt"
  shows "options_typed channels opt \<and> (op_help opt \<or> op_version opt \<or> options_complete opt)"
proof -
  obtain argv0 args where argv: "argv = argv0 # args" using assms by (cases argv) (auto simp: parse_arguments_def)
  have "options_typed channels (default_options channels argv0 o0)"
    by (simp add: options_typed_def default_options_def loglevel_ok_def count_ok_def BLOG_DEBUG_def list_all_length
        DEFAULT_UDPGW_MAX_CONNECTIONS_def DEFAULT_UDPGW_CONNECTION_BUFFER_SIZE_def)
  moreover have "parse_loop channels args (default_options channels argv0 o0) = Some opt"
    using assms by (auto simp: parse_arguments_def argv split: option.splits if_splits)
  moreover have "op_help opt \<or> op_version opt \<or> options_complete opt"
    using assms by (auto simp: parse_arguments_def argv options_complete_def split: option.splits if_splits)
  ultimately show ?thesis using parse_loop_typed by blast
qed

definition no_options :: options where
  "no_options =
     \<lparr>op_help = False, op_version = False, op_logger = LOGGER_STDOUT, op_logger_syslog_facility = [],
      op_logger_syslog_ident = [], op_loglevel = 0, op_loglevels = [],
      op_netif_ipaddr = None, op_netif_netmask = None, op_netif_ip6addr = None, op_socks_server_addr = None,
      op_username = None, op_password = None, op_password_file = None, op_append_source_to_username = False,
      op_udpgw_remote_server_addr = None, op_udpgw_max_connections = 0,
      op_udpgw_connection_buffer_size = 0, op_udpgw_transparent_dns = False,
      op_tun_fd = 0, op_tun_mtu = 0, op_fake_proc = False, op_pid = None, op_sock = None, op_dnsgw = None\<rparr>"

definition small_argv :: "string list" where
  "small_argv = [''tun2socks'', ''--netif-ipaddr'', ''10.0.0.2'', ''--netif-netmask'', ''255.255.255.0'', ''--socks-server-addr'',
     ''127.0.0.1:1080'', ''--sock'', ''s'', ''--loglevel'', ''4'', ''--tunmtu'', ''1400'']"

theorem parse_arguments_typed_witness:
  "\<exists>opt. parse_arguments [''a'', ''b''] no_options small_argv = Some opt \<and> op_tun_mtu opt = 1400 \<and> op_loglevel opt = 4 \<and>
     options_typed [''a'', ''b''] opt"
proof -
  have "map_option (\<lambda>opt. (op_tun_mtu opt, op_loglevel opt)) (parse_arguments [''a'', ''b''] no_options small_argv) = Some (1400, 4)"
    by code_simp
  then obtain opt where "parse_arguments [''a'', ''b''] no_options small_argv = Some opt" "op_tun_mtu opt = 1400" "op_loglevel opt = 4"
    by auto
  then show ?thesis using parse_arguments_typed by blast
qed

end
