(* ===== verification/App_Commands.thy ===== *)
theory App_Commands
  imports Tun_Options
begin

text \<open>
  The command lines the Android application builds. \<^verbatim>\<open>data/TunnelPayload.kt\<close> turns the form of a
  tunnel into the arguments stored with it, \<^verbatim>\<open>service/NativeArgs.kt\<close> turns these into the command
  line of the OpenFlux client, and \<^verbatim>\<open>service/Tun2SocksLauncher.kt\<close> builds the command line of
  \<^verbatim>\<open>tun2socks\<close>. Strings are lists of 8-bit characters, the Latin-1 part of Kotlin's strings;
  null is None.
\<close>

section \<open>Strings\<close>

definition startsWith :: "string \<Rightarrow> string \<Rightarrow> bool" where
  "startsWith s p \<longleftrightarrow> take (length p) s = p"

definition trimStart :: "char \<Rightarrow> string \<Rightarrow> string" where
  "trimStart c s = dropWhile (\<lambda>x. x = c) s"

text \<open>\<^verbatim>\<open>substringBefore\<close> and \<^verbatim>\<open>substringAfter\<close> give the whole string when the delimiter is missing.\<close>

definition substringBefore :: "char \<Rightarrow> string \<Rightarrow> string" where
  "substringBefore c s = takeWhile (\<lambda>x. x \<noteq> c) s"

definition substringAfter :: "char \<Rightarrow> string \<Rightarrow> string" where
  "substringAfter c s = (if c \<in> set s then drop 1 (dropWhile (\<lambda>x. x \<noteq> c) s) else s)"

definition lowercase :: "char \<Rightarrow> char" where
  "lowercase c = (if 65 \<le> (of_char c :: nat) \<and> (of_char c :: nat) \<le> 90 then char_of ((of_char c :: nat) + 32) else c)"

text \<open>Comparison with a name made of ASCII letters, whatever the case.\<close>

definition equals_ignoreCase :: "string \<Rightarrow> string \<Rightarrow> bool" where
  "equals_ignoreCase s t \<longleftrightarrow> map lowercase s = map lowercase t"

section \<open>Transports\<close>

datatype TransportType = Tr_yandex | Tr_vyandex | Tr_max | Tr_cupsonline | Tr_mailru

definition TransportType_entries :: "TransportType list" where
  "TransportType_entries = [Tr_yandex, Tr_vyandex, Tr_max, Tr_cupsonline, Tr_mailru]"

fun TransportType_name :: "TransportType \<Rightarrow> string" where
  "TransportType_name Tr_yandex = ''yandex''"
| "TransportType_name Tr_vyandex = ''vyandex''"
| "TransportType_name Tr_max = ''max''"
| "TransportType_name Tr_cupsonline = ''cupsonline''"
| "TransportType_name Tr_mailru = ''mailru''"

fun cliName :: "TransportType \<Rightarrow> string" where
  "cliName Tr_yandex = ''yandex''"
| "cliName Tr_vyandex = ''vyandex''"
| "cliName Tr_max = ''oneme''"
| "cliName Tr_cupsonline = ''cupsonline''"
| "cliName Tr_mailru = ''mailru''"

definition usesUrl :: "TransportType \<Rightarrow> bool" where
  "usesUrl t \<longleftrightarrow> t \<noteq> Tr_max"

definition TransportType_from :: "string \<Rightarrow> TransportType" where
  "TransportType_from raw =
     (case find (\<lambda>t. equals_ignoreCase (TransportType_name t) raw \<or> equals_ignoreCase (cliName t) raw) TransportType_entries of
        Some t \<Rightarrow> t | None \<Rightarrow> Tr_yandex)"

section \<open>The stored arguments of a tunnel\<close>

record Form =
  fm_transport :: TransportType
  fm_url :: string
  fm_maxToken :: string
  fm_maxUid :: string
  fm_legacyCodec :: bool
  fm_debug :: bool

definition TunnelPayload_build :: "Form \<Rightarrow> string list option" where
  "TunnelPayload_build form =
     map_option (\<lambda>transportArgs.
         [''--role'', ''client'', ''--transport'', cliName (fm_transport form)] @ transportArgs @
         (if fm_legacyCodec form then [''--codec'', ''legacy''] else []) @
         (if fm_debug form then [''--debug''] else []))
       (if usesUrl (fm_transport form)
        then (if fm_url form = [] then None else Some [''--url'', fm_url form])
        else (if fm_maxToken form = [] \<or> fm_maxUid form = [] then None
              else Some [''--maxToken'', fm_maxToken form, ''--maxUid'', fm_maxUid form]))"

fun payload_value :: "string list \<Rightarrow> string \<Rightarrow> string" where
  "payload_value [] name = []"
| "payload_value (arg # rest) name =
     (if \<not> startsWith arg ''-'' then payload_value rest name else
      let flag = trimStart (CHR ''-'') arg in
      if flag = name then (case rest of [] \<Rightarrow> [] | v # _ \<Rightarrow> v)
      else if startsWith flag (name @ ''='') then substringAfter (CHR ''='') flag
      else payload_value rest name)"

definition hasFlag :: "string list \<Rightarrow> string \<Rightarrow> bool" where
  "hasFlag payload name = list_ex (\<lambda>arg. startsWith arg ''-'' \<and> trimStart (CHR ''-'') arg = name) payload"

definition TunnelPayload_parse :: "string \<Rightarrow> string list \<Rightarrow> Form" where
  "TunnelPayload_parse transportType payload =
     \<lparr>fm_transport = TransportType_from transportType,
      fm_url = payload_value payload ''url'',
      fm_maxToken = payload_value payload ''maxToken'',
      fm_maxUid = payload_value payload ''maxUid'',
      fm_legacyCodec = (payload_value payload ''codec'' = ''legacy'' \<or> hasFlag payload ''legacy''),
      fm_debug = hasFlag payload ''debug''\<rparr>"

section \<open>The command line of the OpenFlux client\<close>

definition OWNED_WITH_VALUE :: "string list" where
  "OWNED_WITH_VALUE = [''role'', ''r'', ''inbound'', ''i'', ''socks5'', ''s'', ''encryption-key-file'']"

definition OWNED_BOOLEAN :: "string list" where
  "OWNED_BOOLEAN = [''client'', ''exit-node'', ''tun'', ''socks5-mode'']"

definition SECRET_VALUES :: "string list" where
  "SECRET_VALUES = [''maxToken'']"

definition flagName :: "string option \<Rightarrow> string option" where
  "flagName arg =
     (case arg of None \<Rightarrow> None
      | Some s \<Rightarrow> if startsWith s ''-'' then Some (substringBefore (CHR ''='') (trimStart (CHR ''-'') s)) else None)"

definition in_names :: "string option \<Rightarrow> string list \<Rightarrow> bool" where
  "in_names name names = (case name of None \<Rightarrow> False | Some n \<Rightarrow> n \<in> set names)"

text \<open>The loop over the payload from index \<^verbatim>\<open>i\<close>.\<close>

function keep_args :: "string list \<Rightarrow> nat \<Rightarrow> string list" where
  "keep_args payload i =
     (if i < length payload then
        let arg = payload ! i; name = flagName (Some arg) in
        if in_names name OWNED_BOOLEAN then keep_args payload (i + 1)
        else if in_names name OWNED_WITH_VALUE then keep_args payload (i + (if CHR ''='' \<in> set arg then 1 else 2))
        else arg # keep_args payload (i + 1)
      else [])"
  by pat_completeness auto
termination
  by (relation "measure (\<lambda>(payload, i). length payload - i)") auto

declare keep_args.simps [simp del]

definition NativeArgs_build :: "string list \<Rightarrow> string \<Rightarrow> string option \<Rightarrow> string list" where
  "NativeArgs_build payload socksAddress keyFile =
     [''--role'', ''client'', ''--inbound'', ''socks5'', ''--socks5'', socksAddress] @
     (case keyFile of None \<Rightarrow> [] | Some f \<Rightarrow> [''--encryption-key-file'', f]) @
     keep_args payload 0"

definition redact_arg :: "string option \<Rightarrow> string \<Rightarrow> string" where
  "redact_arg previous arg =
     (if in_names (flagName (Some arg)) SECRET_VALUES \<and> CHR ''='' \<in> set arg then substringBefore (CHR ''='') arg @ ''=***''
      else if in_names (flagName previous) SECRET_VALUES then ''***''
      else arg)"

definition redact :: "string list \<Rightarrow> string list" where
  "redact args = map (\<lambda>i. redact_arg (if i = 0 then None else Some (args ! (i - 1))) (args ! i)) [0..<length args]"

section \<open>The command line of tun2socks\<close>

definition NETIF_IPADDR :: string where "NETIF_IPADDR = ''26.26.26.2''"
definition NETIF_NETMASK :: string where "NETIF_NETMASK = ''255.255.255.0''"
definition NETIF_IP6ADDR :: string where "NETIF_IP6ADDR = ''fdfe:dcba:9876::2''"
definition TUN_MTU :: int where "TUN_MTU = 1500"
definition LOG_LEVEL :: string where "LOG_LEVEL = ''3''"
definition DNS_GW_IP :: string where "DNS_GW_IP = ''26.26.26.1''"

definition buildCommand ::
    "string \<Rightarrow> string \<Rightarrow> int \<Rightarrow> int \<Rightarrow> int \<Rightarrow> string option \<Rightarrow> string option \<Rightarrow> bool \<Rightarrow> string option \<Rightarrow> string \<Rightarrow> string list" where
  "buildCommand filesDir bin fd socksPort dnsPort user passwd ipv6 udpgw sockPath =
     [bin, ''--netif-ipaddr'', NETIF_IPADDR, ''--netif-netmask'', NETIF_NETMASK,
      ''--socks-server-addr'', ''127.0.0.1:'' @ show_int socksPort,
      ''--tunfd'', show_int fd, ''--tunmtu'', show_int TUN_MTU, ''--loglevel'', LOG_LEVEL,
      ''--pid'', filesDir @ ''/tun2socks.pid'', ''--sock'', sockPath] @
     (case user of
        None \<Rightarrow> []
      | Some u \<Rightarrow> if u = [] then []
                  else [''--username'', u, ''--password'', (case passwd of Some p \<Rightarrow> p | None \<Rightarrow> [])]) @
     (if ipv6 then [''--netif-ip6addr'', NETIF_IP6ADDR] else []) @
     [''--dnsgw'', DNS_GW_IP @ '':'' @ show_int dnsPort] @
     (case udpgw of None \<Rightarrow> [] | Some a \<Rightarrow> [''--udpgw-remote-server-addr'', a])"

section \<open>Stored arguments are read back\<close>

definition plain :: "string \<Rightarrow> bool" where
  "plain s \<longleftrightarrow> \<not> startsWith s ''-''"

definition form_plain :: "Form \<Rightarrow> bool" where
  "form_plain f \<longleftrightarrow> plain (fm_url f) \<and> plain (fm_maxToken f) \<and> plain (fm_maxUid f)"

lemma plain_simps [simp]:
  "plain s \<Longrightarrow> \<not> startsWith s ''-''" "plain s \<Longrightarrow> flagName (Some s) = None"
  by (simp_all add: plain_def flagName_def)

lemma plain_cliName [simp]: "plain (cliName t)"
  by (cases t) (simp_all add: plain_def startsWith_def)

lemma transport_from_name: "TransportType_from (TransportType_name t) = t"
  by (cases t)
     (simp_all add: TransportType_from_def TransportType_entries_def equals_ignoreCase_def lowercase_def)

text \<open>The flags that occur, as they are recognised.\<close>

lemma startsWith_Cons [simp]: "startsWith (c # s) (d # p) \<longleftrightarrow> c = d \<and> startsWith s p" "startsWith s []" "\<not> startsWith [] (d # p)"
  by (auto simp: startsWith_def)

lemma trimStart_Cons [simp]: "trimStart c (x # s) = (if x = c then trimStart c s else x # s)" "trimStart c [] = []"
  by (auto simp: trimStart_def)

lemma plain_value [simp]: "plain arg \<Longrightarrow> payload_value (arg # rest) name = payload_value rest name"
  by simp

lemma hasFlag_simps [simp]:
  "hasFlag [] name \<longleftrightarrow> False" "plain arg \<Longrightarrow> hasFlag (arg # rest) name = hasFlag rest name"
  "hasFlag ((CHR ''-'' # s) # rest) name \<longleftrightarrow> trimStart (CHR ''-'') s = name \<or> hasFlag rest name"
  by (simp_all add: hasFlag_def)

lemma plain_literals [simp]: "plain ''client''" "plain ''legacy''" "plain []"
  by (simp_all add: plain_def)


definition max_form :: Form where
  "max_form = \<lparr>fm_transport = Tr_max, fm_url = ''unused'', fm_maxToken = ''tok'', fm_maxUid = ''42'', fm_legacyCodec = True, fm_debug = False\<rparr>"


section \<open>The client is started with the application's own flags\<close>

definition owned :: "string \<Rightarrow> bool" where
  "owned arg \<longleftrightarrow> in_names (flagName (Some arg)) OWNED_BOOLEAN \<or> in_names (flagName (Some arg)) OWNED_WITH_VALUE"

lemma keep_args_not_owned: "arg \<in> set (keep_args payload i) \<Longrightarrow> arg \<in> set payload \<and> \<not> owned arg"
proof (induction payload i rule: keep_args.induct)
  case (1 payload i)
  show ?case
  proof (cases "i < length payload")
    case True
    then show ?thesis
      using 1 by (subst (asm) keep_args.simps) (auto simp: Let_def owned_def split: if_splits)
  next
    case False
    then show ?thesis using 1(4) by (simp add: keep_args.simps)
  qed
qed

lemma keep_args_tail: "keep_args (x # xs) (Suc i) = keep_args xs i"
proof (induction xs i rule: keep_args.induct)
  case (1 xs i)
  show ?case
    by (subst keep_args.simps, subst (2) keep_args.simps) (use 1 in \<open>simp add: Let_def\<close>)
qed

lemma keep_args_Nil: "keep_args [] i = []"
  by (subst keep_args.simps) simp

lemma keep_args_Cons:
  "keep_args (arg # rest) 0 =
     (if in_names (flagName (Some arg)) OWNED_BOOLEAN then keep_args rest 0
      else if in_names (flagName (Some arg)) OWNED_WITH_VALUE then (if CHR ''='' \<in> set arg then keep_args rest 0 else keep_args rest 1)
      else arg # keep_args rest 0)"
  by (subst keep_args.simps) (simp add: keep_args_tail Let_def numeral_2_eq_2)

definition own_args :: "string \<Rightarrow> string option \<Rightarrow> string list" where
  "own_args socksAddress keyFile =
     [''--role'', ''client'', ''--inbound'', ''socks5'', ''--socks5'', socksAddress] @
     (case keyFile of None \<Rightarrow> [] | Some f \<Rightarrow> [''--encryption-key-file'', f])"

lemma keep_plain: "plain arg \<Longrightarrow> keep_args (arg # rest) 0 = arg # keep_args rest 0"
  by (simp add: keep_args_Cons in_names_def)

lemma flagName_simps:
  "flagName (Some (CHR ''-'' # s)) = Some (substringBefore (CHR ''='') (trimStart (CHR ''-'') s))"
  by (simp add: flagName_def)

lemma keep_flag:
  assumes "substringBefore (CHR ''='') (trimStart (CHR ''-'') s) \<notin> set (OWNED_BOOLEAN @ OWNED_WITH_VALUE)"
  shows "keep_args ((CHR ''-'' # s) # rest) 0 = (CHR ''-'' # s) # keep_args rest 0"
  using assms by (simp add: keep_args_Cons flagName_simps in_names_def)

lemmas keep_payload = keep_plain keep_flag keep_args_Nil OWNED_BOOLEAN_def OWNED_WITH_VALUE_def substringBefore_def

lemma keep_built:
  assumes "form_plain f" "TunnelPayload_build f = Some payload"
  shows "keep_args payload 0 = drop 2 payload"
proof -
  obtain rest where p: "payload = ''--role'' # ''client'' # rest"
    using assms(2) by (auto simp: TunnelPayload_build_def split: if_splits)
  have "keep_args payload 0 = keep_args rest 0"
    by (simp add: p keep_args_Cons flagName_simps in_names_def OWNED_BOOLEAN_def OWNED_WITH_VALUE_def substringBefore_def keep_args_tail)
  also have "\<dots> = rest"
    using assms p
    by (auto simp: TunnelPayload_build_def form_plain_def keep_payload split: if_splits)
  finally show ?thesis by (simp add: p)
qed



section \<open>The log does not show the token\<close>

fun redact_from :: "string option \<Rightarrow> string list \<Rightarrow> string list" where
  "redact_from previous [] = []"
| "redact_from previous (arg # args) = redact_arg previous arg # redact_from (Some arg) args"

lemma redact_map:
  "redact_from previous args = map (\<lambda>i. redact_arg (if i = 0 then previous else Some (args ! (i - 1))) (args ! i)) [0..<length args]"
proof (induction args arbitrary: previous)
  case (Cons a args)
  have "[0..<length (a # args)] = 0 # map Suc [0..<length args]" by (simp add: upt_conv_Cons map_Suc_upt del: upt_Suc)
  then show ?case using Cons by (auto simp: comp_def nth_Cons')
qed simp

lemma redact_eq: "redact args = redact_from None args"
  by (simp add: redact_def redact_map)

lemma redact_append:
  "redact_from previous (xs @ ys) = redact_from previous xs @ redact_from (if xs = [] then previous else Some (last xs)) ys"
  by (induction xs arbitrary: previous) auto

lemma redact_token:
  "plain token \<Longrightarrow> redact_from previous (''--maxToken'' # token # ''--maxUid'' # rest) =
     redact_from previous (''--maxToken'' # ''other'' # ''--maxUid'' # rest)"
  by (simp add: redact_arg_def in_names_def SECRET_VALUES_def flagName_def substringBefore_def)



section \<open>tun2socks understands its command line\<close>

lemma command_options:
  "parse_loop channels (''--netif-ipaddr'' # a # rest) opt = parse_loop channels rest (opt\<lparr>op_netif_ipaddr := Some a\<rparr>)"
  "parse_loop channels (''--netif-netmask'' # a # rest) opt = parse_loop channels rest (opt\<lparr>op_netif_netmask := Some a\<rparr>)"
  "parse_loop channels (''--netif-ip6addr'' # a # rest) opt = parse_loop channels rest (opt\<lparr>op_netif_ip6addr := Some a\<rparr>)"
  "parse_loop channels (''--socks-server-addr'' # a # rest) opt = parse_loop channels rest (opt\<lparr>op_socks_server_addr := Some a\<rparr>)"
  "parse_loop channels (''--username'' # a # rest) opt = parse_loop channels rest (opt\<lparr>op_username := Some a\<rparr>)"
  "parse_loop channels (''--password'' # a # rest) opt = parse_loop channels rest (opt\<lparr>op_password := Some a\<rparr>)"
  "parse_loop channels (''--pid'' # a # rest) opt = parse_loop channels rest (opt\<lparr>op_pid := Some a\<rparr>)"
  "parse_loop channels (''--sock'' # a # rest) opt = parse_loop channels rest (opt\<lparr>op_sock := Some a\<rparr>)"
  "parse_loop channels (''--dnsgw'' # a # rest) opt = parse_loop channels rest (opt\<lparr>op_dnsgw := Some a\<rparr>)"
  "parse_loop channels (''--udpgw-remote-server-addr'' # a # rest) opt = parse_loop channels rest (opt\<lparr>op_udpgw_remote_server_addr := Some a\<rparr>)"
  "0 < atoi a \<Longrightarrow> parse_loop channels (''--tunfd'' # a # rest) opt = parse_loop channels rest (opt\<lparr>op_tun_fd := atoi a\<rparr>)"
  "0 < atoi a \<Longrightarrow> parse_loop channels (''--tunmtu'' # a # rest) opt = parse_loop channels rest (opt\<lparr>op_tun_mtu := atoi a\<rparr>)"
  "0 \<le> parse_loglevel a \<Longrightarrow> parse_loop channels (''--loglevel'' # a # rest) opt = parse_loop channels rest (opt\<lparr>op_loglevel := parse_loglevel a\<rparr>)"
  by (simp_all add: parse_option_def parse_network_option_def with_argument_def positive_def)

lemma atoi_show_int: "0 \<le> n \<Longrightarrow> n < 2 ^ 31 \<Longrightarrow> atoi (show_int n) = n"
  using show_dec_props [of "nat n"]
  by (simp add: atoi_def strtol_def show_int_def strtol10_digits signed_take_bit_int_eq_self)

lemma log_level_3: "parse_loglevel LOG_LEVEL = BLOG_NOTICE"
  by code_simp

definition command_options_of ::
    "string list \<Rightarrow> options \<Rightarrow> string \<Rightarrow> string \<Rightarrow> int \<Rightarrow> int \<Rightarrow> int \<Rightarrow> string option \<Rightarrow> string option \<Rightarrow> bool \<Rightarrow> string option \<Rightarrow> string \<Rightarrow> options" where
  "command_options_of channels o0 filesDir bin fd socksPort dnsPort user passwd ipv6 udpgw sockPath =
     (default_options channels bin o0)
       \<lparr>op_netif_ipaddr := Some NETIF_IPADDR, op_netif_netmask := Some NETIF_NETMASK,
        op_socks_server_addr := Some (''127.0.0.1:'' @ show_int socksPort), op_tun_fd := fd, op_tun_mtu := TUN_MTU,
        op_loglevel := BLOG_NOTICE, op_pid := Some (filesDir @ ''/tun2socks.pid''), op_sock := Some sockPath,
        op_username := (if user = Some [] then None else user),
        op_password := (if user = None \<or> user = Some [] then None else Some (case passwd of Some p \<Rightarrow> p | None \<Rightarrow> [])),
        op_netif_ip6addr := (if ipv6 then Some NETIF_IP6ADDR else None),
        op_dnsgw := Some (DNS_GW_IP @ '':'' @ show_int dnsPort), op_udpgw_remote_server_addr := udpgw\<rparr>"

lemma parse_arguments_complete:
  assumes "parse_loop channels args (default_options channels argv0 o0) = Some opt" "options_complete opt" "\<not> op_help opt" "\<not> op_version opt"
  shows "parse_arguments channels o0 (argv0 # args) = Some opt"
  using assms by (auto simp: parse_arguments_def options_complete_def)

lemma command_parsed:
  assumes "0 < fd" "fd < 2 ^ 31"
  shows "parse_arguments channels o0 (buildCommand filesDir bin fd socksPort dnsPort user passwd ipv6 udpgw sockPath) =
    Some (command_options_of channels o0 filesDir bin fd socksPort dnsPort user passwd ipv6 udpgw sockPath)"
proof -
  have a: "atoi (show_int fd) = fd" "atoi (show_int TUN_MTU) = TUN_MTU" using assms by (simp_all add: atoi_show_int TUN_MTU_def)
  have mtu: "0 < TUN_MTU" "0 \<le> BLOG_NOTICE" by (simp_all add: TUN_MTU_def BLOG_NOTICE_def)
  obtain args where args: "buildCommand filesDir bin fd socksPort dnsPort user passwd ipv6 udpgw sockPath = bin # args"
    by (simp add: buildCommand_def)
  then have "parse_loop channels args (default_options channels bin o0) =
      Some (command_options_of channels o0 filesDir bin fd socksPort dnsPort user passwd ipv6 udpgw sockPath)"
    by (cases user; cases udpgw; cases "user = Some []"; cases ipv6)
       (auto simp: buildCommand_def command_options command_options_of_def a mtu log_level_3 assms(1) default_options_def
         simp del: parse_loop.simps(2))
  then show ?thesis unfolding args
    by (rule parse_arguments_complete) (simp_all add: command_options_of_def default_options_def options_complete_def)
qed

text \<open>The configuration the command line stands for; addresses are in network byte order.\<close>

definition command_config ::
    "int \<Rightarrow> int \<Rightarrow> string option \<Rightarrow> string option \<Rightarrow> bool \<Rightarrow> BAddr option \<Rightarrow> tun_config \<Rightarrow> tun_config" where
  "command_config socksPort dnsPort user passwd ipv6 udpgw_addr cfg =
     \<lparr>tf_netif_ipaddr = BIPAddr_IPv4 (hton32 0x1A1A1A02), tf_netif_netmask = BIPAddr_IPv4 (hton32 0xFFFFFF00),
      tf_netif_ip6addr = (if ipv6 then [0xFD, 0xFE, 0xDC, 0xBA, 0x98, 0x76] @ replicate 9 0 @ [2] else tf_netif_ip6addr cfg),
      tf_socks_server_addr = BAddr_IPv4 (hton32 0x7F000001) (hton16 (word_of_int socksPort)),
      tf_socks_auth_info = BSocksClient_auth_none #
        (case user of None \<Rightarrow> [] | Some u \<Rightarrow> if u = [] then [] else
           [BSocksClient_auth_password (string_bytes u) (string_bytes (case passwd of Some p \<Rightarrow> p | None \<Rightarrow> []))]),
      tf_udpgw_remote_server_addr = (case udpgw_addr of None \<Rightarrow> tf_udpgw_remote_server_addr cfg | Some a \<Rightarrow> a),
      tf_dnsgw = BAddr_IPv4 (hton32 0x1A1A1A01) (hton16 (word_of_int dnsPort))\<rparr>"

lemma printed_addrs:
  "ipaddr_print_addr (hton32 0x1A1A1A02) = NETIF_IPADDR" "ipaddr_print_addr (hton32 0xFFFFFF00) = NETIF_NETMASK"
  "ipaddr_print_addr (hton32 0x1A1A1A01) = DNS_GW_IP" "ipaddr_print_addr (hton32 0x7F000001) = ''127.0.0.1''"
  by code_simp+

lemma printed_addr6: "ipaddr6_print_addr ([0xFD, 0xFE, 0xDC, 0xBA, 0x98, 0x76] @ replicate 9 0 @ [2]) = NETIF_IP6ADDR"
proof -
  let ?b = "[0xFD, 0xFE, 0xDC, 0xBA, 0x98, 0x76] @ replicate 9 0 @ [2] :: bytes"
  have run: "zero_run ?b [0..<8] ((0, 0), (0, 0)) = (3, 4)" by code_simp
  have blocks: "p6_block_at ?b 0 = 0xFDFE" "p6_block_at ?b 1 = 0xDCBA" "p6_block_at ?b 2 = 0x9876" "p6_block_at ?b 7 = 2" by code_simp+
  have u: "[0..<3] = [0, 1, 2::nat]" "[3 + 4..<8] = [7::nat]" by (simp_all add: upt_rec)
  have h: "show_hex 0xFDFE = ''fdfe''" "show_hex 0xDCBA = ''dcba''" "show_hex 0x9876 = ''9876''" "show_hex 2 = ''2''" by (simp_all add: show_hex.simps char_of_def bit_0)
  show ?thesis
   unfolding ipaddr6_print_addr_def run using u blocks h by (simp add: NETIF_IP6ADDR_def)
qed

lemma resolve_printed:
  assumes "numeric_hosts getaddrinfo False"
  shows "BIPAddr_Resolve getaddrinfo (ipaddr_print_addr ip) False = Some (BIPAddr_IPv4 ip)"
proof -
  have "ipaddr_print_addr ip \<noteq> []" by (simp add: ipaddr_print_addr_def Let_def)
  then have "ipaddr_print_addr ip ! 0 \<noteq> CHR ''[''" using print_addr_chars(2) [of ip] by (cases "ipaddr_print_addr ip") auto
  then show ?thesis
    using assms print_addr_chars(3) [of ip] mem32_read [of ip]
    by (simp add: BIPAddr_Resolve_def BADDR_MAX_ADDR_LEN_def numeric_hosts_def Let_def)
qed

lemma parse_printed_port:
  assumes "numeric_hosts getaddrinfo False" "0 \<le> p" "p < 65536"
  shows "parse_addr getaddrinfo (ipaddr_print_addr ip @ '':'' @ show_int p) = Some (BAddr_IPv4 ip (hton16 (word_of_int p)))"
  using BAddr_parse_host_port [OF assms(1), of "nat p" ip] assms(2,3) by (simp add: parse_addr_def show_int_def of_nat_nat)

lemma command_processed:
  assumes gai: "numeric_hosts getaddrinfo False" and ports: "0 \<le> socksPort" "socksPort < 65536" "0 \<le> dnsPort" "dnsPort < 65536"
    and udpgw: "case udpgw of None \<Rightarrow> udpgw_addr = None | Some a \<Rightarrow> parse_addr getaddrinfo a = udpgw_addr \<and> udpgw_addr \<noteq> None"
    and "length (tf_netif_ip6addr cfg) = 16"
  shows "process_arguments getaddrinfo read_file (command_options_of channels o0 filesDir bin fd socksPort dnsPort user passwd ipv6 udpgw sockPath) cfg =
    Some (command_config socksPort dnsPort user passwd ipv6 udpgw_addr cfg)"
proof -
  have ip: "BIPAddr_Resolve getaddrinfo NETIF_IPADDR False = Some (BIPAddr_IPv4 (hton32 0x1A1A1A02))"
    "BIPAddr_Resolve getaddrinfo NETIF_NETMASK False = Some (BIPAddr_IPv4 (hton32 0xFFFFFF00))"
    using resolve_printed [OF gai] printed_addrs(1,2) by metis+
  have ip6: "ipaddr6_parse_ipv6_addr_bin NETIF_IP6ADDR (tf_netif_ip6addr cfg) = Some ([0xFD, 0xFE, 0xDC, 0xBA, 0x98, 0x76] @ replicate 9 0 @ [2])"
    using parse_print6 [of "[0xFD, 0xFE, 0xDC, 0xBA, 0x98, 0x76] @ replicate 9 0 @ [2]" "tf_netif_ip6addr cfg"] assms(7)
    unfolding printed_addr6 by simp
  have addr: "parse_addr getaddrinfo (''127.0.0.1:'' @ show_int socksPort) = Some (BAddr_IPv4 (hton32 0x7F000001) (hton16 (word_of_int socksPort)))"
    "parse_addr getaddrinfo (DNS_GW_IP @ '':'' @ show_int dnsPort) = Some (BAddr_IPv4 (hton32 0x1A1A1A01) (hton16 (word_of_int dnsPort)))"
    using parse_printed_port [OF gai ports(1,2), of "hton32 0x7F000001"] parse_printed_port [OF gai ports(3,4), of "hton32 0x1A1A1A01"]
    unfolding printed_addrs(3,4) by simp_all
  show ?thesis
    using ip ip6 addr udpgw
    by (cases user; cases udpgw; cases ipv6; cases "user = Some []")
       (auto simp: process_arguments_def command_options_of_def command_config_def process_auth_def default_options_def Let_def split: option.splits)
qed
end
