(* ===== verification/Supervisor.thy ===== *)
theory Supervisor
  imports App_Commands
begin

text \<open>
  The service of the application: \<^verbatim>\<open>service/NativeProcessSupervisor.kt\<close>, which runs the tunnel client and
  watches it, \<^verbatim>\<open>service/StaleProcesses.kt\<close>, \<^verbatim>\<open>data/EncryptionKey.kt\<close>, and the parts of \<^verbatim>\<open>service/SocksVpnService.kt\<close>,
  \<^verbatim>\<open>service/VpnServiceController.kt\<close> and \<^verbatim>\<open>service/Tun2SocksLauncher.kt\<close> that change its state. Every process
  has a thread that runs \<^verbatim>\<open>watch\<close>; its steps, the calls of the binder and of the main thread, the output and
  the exit of processes and the passing of time interleave. A step of a thread is what it does between
  two looks at shared state; \<^verbatim>\<open>start\<close> and \<^verbatim>\<open>stop\<close> are single steps. Strings are lists of 8-bit characters.
\<close>

section \<open>Keys and messages\<close>

text \<open>\<^verbatim>\<open>Char.isWhitespace\<close> on the Latin-1 characters.\<close>

definition isWhitespace :: "char \<Rightarrow> bool" where
  "isWhitespace c = (let n = (of_char c :: nat) in 9 \<le> n \<and> n \<le> 13 \<or> 28 \<le> n \<and> n \<le> 32 \<or> n = 160)"

definition trim :: "string \<Rightarrow> string" where
  "trim s = rev (dropWhile isWhitespace (rev (dropWhile isWhitespace s)))"

definition MIN_BYTES :: nat where "MIN_BYTES = 16"

definition EncryptionKey_normalize :: "string \<Rightarrow> string" where
  "EncryptionKey_normalize raw = trim raw"

text \<open>A character above 127 has two bytes in UTF-8.\<close>

definition utf8_size :: "string \<Rightarrow> nat" where
  "utf8_size s = sum_list (map (\<lambda>c. if (of_char c :: nat) < 128 then 1 else 2) s)"

definition EncryptionKey_isValid :: "string \<Rightarrow> bool" where
  "EncryptionKey_isValid raw \<longleftrightarrow> MIN_BYTES \<le> utf8_size (EncryptionKey_normalize raw)"

section \<open>The supervisor\<close>

definition READY_TIMEOUT_MS :: nat where "READY_TIMEOUT_MS = 45000"
definition NATIVE_LIB :: string where "NATIVE_LIB = ''libp1npplydtransport.so''"
definition KEY_FILE :: string where "KEY_FILE = ''openflux-encryption.key''"

record supervisor =
  sv_running :: bool
  sv_ready :: bool
  sv_shuttingDown :: bool
  sv_process :: "nat option"
  sv_lastOutput :: "string option"
  sv_socksPort :: int
  sv_error :: "string option"

text \<open>Where a thread in \<^verbatim>\<open>watch\<close> is: before the deadline is computed, at the condition of the loop, before the
  probe of the port, at the check of the deadline, before \<^verbatim>\<open>destroy\<close>, in \<^verbatim>\<open>waitFor\<close>, after it, before the
  report, at the end.\<close>

datatype watch_pc = W_Start | W_Loop | W_Probe | W_Deadline | W_Destroy | W_WaitFor | W_Exited | W_Report | W_Done

text \<open>
  The supervisor with its processes, numbered as they are started. \<^verbatim>\<open>sy_key\<close> is the content of the key
  file, \<^verbatim>\<open>sy_told\<close> the processes that were sent a signal, \<^verbatim>\<open>sy_posted\<close> the messages posted to the main
  thread, \<^verbatim>\<open>sy_commands\<close> the command lines executed.
\<close>

record sv_sys =
  sy_sup :: supervisor
  sy_key :: "string option"
  sy_now :: nat
  sy_next :: nat
  sy_alive :: "nat list"
  sy_listening :: "nat list"
  sy_port :: "nat \<Rightarrow> int"
  sy_code :: "nat \<Rightarrow> int"
  sy_watch :: "nat \<Rightarrow> watch_pc"
  sy_deadline :: "nat \<Rightarrow> nat"
  sy_told :: "nat list"
  sy_posted :: "string list"
  sy_commands :: "string list list"

text \<open>The deletion of the key file is taken to succeed: \<^verbatim>\<open>deleteKey\<close> ignores its result, and what is said about the key
  below does not hold for a file that cannot be deleted.\<close>

definition deleteKey :: "sv_sys \<Rightarrow> sv_sys" where
  "deleteKey s = s\<lparr>sy_key := None\<rparr>"

definition writeKey :: "string \<Rightarrow> sv_sys \<Rightarrow> sv_sys" where
  "writeKey key s = s\<lparr>sy_key := Some (EncryptionKey_normalize key)\<rparr>"

definition supervisor_fail :: "string \<Rightarrow> sv_sys \<Rightarrow> sv_sys" where
  "supervisor_fail message s =
     (let s = s\<lparr>sy_sup := (sy_sup s)\<lparr>sv_error := Some message, sv_ready := False, sv_running := False\<rparr>\<rparr>;
          s = deleteKey s
      in if \<not> sv_shuttingDown (sy_sup s) then s\<lparr>sy_posted := sy_posted s @ [message]\<rparr> else s)"

definition destroy :: "nat \<Rightarrow> sv_sys \<Rightarrow> sv_sys" where
  "destroy p s = (if p \<in> set (sy_alive s) then s\<lparr>sy_told := p # sy_told s\<rparr> else s)"

text \<open>Of the programs \<^verbatim>\<open>StaleProcesses.kill\<close> looks for, the processes of the client are the ones that are part of this state;
  \<^verbatim>\<open>/proc\<close> is taken to list them.\<close>

definition StaleProcesses_kill :: "sv_sys \<Rightarrow> sv_sys" where
  "StaleProcesses_kill s = s\<lparr>sy_told := sy_alive s @ sy_told s\<rparr>"

text \<open>\<^verbatim>\<open>freePort\<close>, \<^verbatim>\<open>keyFails\<close> and \<^verbatim>\<open>exec\<close> are what finding a port, writing the key and executing the program give, or the
  message of the exception they throw; a process will exit with the code \<^verbatim>\<open>exec\<close> gives.\<close>

definition supervisor_start ::
    "string \<Rightarrow> string \<Rightarrow> string list \<Rightarrow> string option \<Rightarrow> string + int \<Rightarrow> string option \<Rightarrow> string + int \<Rightarrow> sv_sys \<Rightarrow> sv_sys" where
  "supervisor_start nativeDir keyDir payload encryptionKey freePort keyFails exec s =
     (if sv_running (sy_sup s) then s else
      let s = s\<lparr>sy_sup := (sy_sup s)\<lparr>sv_running := True, sv_shuttingDown := False, sv_ready := False, sv_error := None, sv_lastOutput := None\<rparr>\<rparr>;
          s = StaleProcesses_kill s
      in case freePort of
        Inl m \<Rightarrow> supervisor_fail (''Failed to start OpenFlux: '' @ m) s
      | Inr port \<Rightarrow>
          let s = s\<lparr>sy_sup := (sy_sup s)\<lparr>sv_socksPort := port\<rparr>\<rparr> in
          if encryptionKey \<noteq> None \<and> keyFails \<noteq> None then supervisor_fail (''Failed to start OpenFlux: '' @ the keyFails) s else
          let s = (case encryptionKey of None \<Rightarrow> s | Some key \<Rightarrow> writeKey key s);
              keyPath = map_option (\<lambda>_. keyDir @ ''/'' @ KEY_FILE) encryptionKey;
              args = NativeArgs_build payload (''127.0.0.1:'' @ show_int port) keyPath
          in case exec of
            Inl m \<Rightarrow> supervisor_fail (''Failed to start OpenFlux: '' @ m) s
          | Inr code \<Rightarrow>
              let p = sy_next s in
              s\<lparr>sy_sup := (sy_sup s)\<lparr>sv_process := Some p\<rparr>, sy_next := p + 1, sy_alive := p # sy_alive s, sy_port := (sy_port s)(p := port),
                sy_code := (sy_code s)(p := code), sy_watch := (sy_watch s)(p := W_Start),
                sy_commands := sy_commands s @ [(nativeDir @ ''/'' @ NATIVE_LIB) # args]\<rparr>)"

definition supervisor_stop :: "sv_sys \<Rightarrow> sv_sys" where
  "supervisor_stop s =
     (let s = s\<lparr>sy_sup := (sy_sup s)\<lparr>sv_shuttingDown := True, sv_ready := False, sv_running := False\<rparr>\<rparr>;
          s = (case sv_process (sy_sup s) of None \<Rightarrow> s | Some p \<Rightarrow> destroy p s);
          s = s\<lparr>sy_sup := (sy_sup s)\<lparr>sv_process := None\<rparr>\<rparr>
      in deleteKey s)"

text \<open>The prefix of a line of Go's log, \<^verbatim>\<open>LOG_PREFIX\<close>: a date, a time, and the file and line if they are there.\<close>

definition isDigit :: "char \<Rightarrow> bool" where
  "isDigit c = (let n = (of_char c :: nat) in 48 \<le> n \<and> n \<le> 57)"

definition match_shape :: "string \<Rightarrow> string \<Rightarrow> bool" where
  "match_shape shape s \<longleftrightarrow> length shape \<le> length s \<and> list_all2 (\<lambda>x c. if x = CHR ''d'' then isDigit c else c = x) shape (take (length shape) s)"

definition drop_fraction :: "string \<Rightarrow> string" where
  "drop_fraction s =
     (case s of c # r \<Rightarrow> if c = CHR ''.'' \<and> takeWhile isDigit r \<noteq> [] then dropWhile isDigit r else s | [] \<Rightarrow> s)"

text \<open>White space of a regular expression.\<close>

definition regex_space :: "char \<Rightarrow> bool" where
  "regex_space c = (let n = (of_char c :: nat) in n \<in> {9, 10, 12, 13, 32, 160})"

definition drop_file :: "string \<Rightarrow> string" where
  "drop_file s =
     (let word = takeWhile (\<lambda>c. \<not> regex_space c) s; rest = drop (length word) s; r = rev word; d = takeWhile isDigit (drop 1 r);
          file = drop (1 + length d) r
      in if word \<noteq> [] \<and> hd r = CHR '':'' \<and> d \<noteq> [] \<and> startsWith file '':og.'' \<and> 4 < length file \<and> startsWith rest '' ''
         then drop 1 rest else s)"

definition without_LOG_PREFIX :: "string \<Rightarrow> string" where
  "without_LOG_PREFIX line =
     (if match_shape ''dddd/dd/dd dd:dd:dd'' line then
        let r = drop_fraction (drop 19 line) in
        if startsWith r '' '' then drop_file (drop 1 r) else line
      else line)"

definition pumpOutput :: "string \<Rightarrow> sv_sys \<Rightarrow> sv_sys" where
  "pumpOutput line s = (if list_all isWhitespace line then s else s\<lparr>sy_sup := (sy_sup s)\<lparr>sv_lastOutput := Some line\<rparr>\<rparr>)"

text \<open>\<^verbatim>\<open>Loopback.canConnect\<close> on the port of the current run: a process that listens there.\<close>

definition canConnect :: "sv_sys \<Rightarrow> bool" where
  "canConnect s = list_ex (\<lambda>q. q \<in> set (sy_alive s) \<and> sy_port s q = sv_socksPort (sy_sup s)) (sy_listening s)"

definition goto :: "nat \<Rightarrow> watch_pc \<Rightarrow> sv_sys \<Rightarrow> sv_sys" where
  "goto p pc s = s\<lparr>sy_watch := (sy_watch s)(p := pc)\<rparr>"

definition watch :: "nat \<Rightarrow> sv_sys \<Rightarrow> sv_sys" where
  "watch p s =
     (case sy_watch s p of
        W_Start \<Rightarrow> goto p W_Loop (s\<lparr>sy_deadline := (sy_deadline s)(p := sy_now s + READY_TIMEOUT_MS)\<rparr>)
      | W_Loop \<Rightarrow> goto p (if \<not> sv_shuttingDown (sy_sup s) \<and> p \<in> set (sy_alive s) then W_Probe else W_WaitFor) s
      | W_Probe \<Rightarrow>
          if canConnect s then goto p W_WaitFor (deleteKey (s\<lparr>sy_sup := (sy_sup s)\<lparr>sv_ready := True\<rparr>\<rparr>))
          else goto p W_Deadline s
      | W_Deadline \<Rightarrow>
          if sy_now s > sy_deadline s p
          then goto p W_Destroy (supervisor_fail (''OpenFlux did not start within '' @ show_int (int (READY_TIMEOUT_MS div 1000)) @ '' s'') s)
          else goto p W_Loop s
      | W_Destroy \<Rightarrow> goto p W_Done (destroy p s)
      | W_WaitFor \<Rightarrow> if p \<in> set (sy_alive s) then s else goto p W_Exited s
      | W_Exited \<Rightarrow> goto p (if sv_shuttingDown (sy_sup s) \<or> sv_process (sy_sup s) \<noteq> Some p then W_Done else W_Report) s
      | W_Report \<Rightarrow>
          goto p W_Done (supervisor_fail (''OpenFlux exited (code '' @ show_int (sy_code s p) @ '')'' @
            (case sv_lastOutput (sy_sup s) of None \<Rightarrow> [] | Some line \<Rightarrow> '': '' @ without_LOG_PREFIX line)) s)
      | W_Done \<Rightarrow> s)"

datatype sv_event =
    Sv_Start "string list" "string option" "string + int" "string option" "string + int"
  | Sv_Stop
  | Sv_Watch nat
  | Sv_Output string
  | Sv_Listen nat
  | Sv_Exit nat
  | Sv_Tick nat

fun sv_step :: "string \<Rightarrow> string \<Rightarrow> sv_event \<Rightarrow> sv_sys \<Rightarrow> sv_sys" where
  "sv_step nativeDir keyDir (Sv_Start payload key freePort keyFails exec) s = supervisor_start nativeDir keyDir payload key freePort keyFails exec s"
| "sv_step nativeDir keyDir Sv_Stop s = supervisor_stop s"
| "sv_step nativeDir keyDir (Sv_Watch p) s = (if p < sy_next s then watch p s else s)"
| "sv_step nativeDir keyDir (Sv_Output line) s = pumpOutput line s"
| "sv_step nativeDir keyDir (Sv_Listen p) s = s\<lparr>sy_listening := p # sy_listening s\<rparr>"
| "sv_step nativeDir keyDir (Sv_Exit p) s = s\<lparr>sy_alive := filter (\<lambda>q. q \<noteq> p) (sy_alive s)\<rparr>"
| "sv_step nativeDir keyDir (Sv_Tick t) s = s\<lparr>sy_now := sy_now s + t\<rparr>"

definition sv_start :: sv_sys where
  "sv_start = \<lparr>sy_sup = \<lparr>sv_running = False, sv_ready = False, sv_shuttingDown = False, sv_process = None, sv_lastOutput = None, sv_socksPort = 0, sv_error = None\<rparr>,
     sy_key = None, sy_now = 0, sy_next = 0, sy_alive = [], sy_listening = [], sy_port = (\<lambda>_. 0), sy_code = (\<lambda>_. 0), sy_watch = (\<lambda>_. W_Done),
     sy_deadline = (\<lambda>_. 0), sy_told = [], sy_posted = [], sy_commands = []\<rparr>"

section \<open>The VPN service\<close>

record vpn_intent =
  in_username :: "string option"
  in_password :: "string option"
  in_ipv6 :: bool
  in_udpgw :: "string option"

datatype vpn_call =
    Vc_Exec "string list"
  | Vc_KillPidFile string
  | Vc_Relay_Start int
  | Vc_Relay_Close
  | Vc_Exited string

text \<open>\<^verbatim>\<open>vp_starting\<close> is whether a call of \<^verbatim>\<open>startTun2Socks\<close>, which sleeps between its parts and holds the lock, is under way.\<close>

record vpn_service =
  vp_sv :: sv_sys
  vp_iface :: "int option"
  vp_isRunning :: bool
  vp_lastIntent :: "vpn_intent option"
  vp_relay :: bool
  vp_starting :: bool
  vp_calls :: "vpn_call list"

definition vpn_fd :: "vpn_service \<Rightarrow> int" where
  "vpn_fd v = (case vp_iface v of None \<Rightarrow> - 1 | Some fd \<Rightarrow> fd)"

definition VpnServiceController_configure :: "int option \<Rightarrow> vpn_service \<Rightarrow> vpn_service" where
  "VpnServiceController_configure establish v = (if vp_iface v \<noteq> None then v else v\<lparr>vp_iface := establish\<rparr>)"

definition VpnServiceController_stop :: "vpn_service \<Rightarrow> vpn_service" where
  "VpnServiceController_stop v = v\<lparr>vp_iface := None, vp_isRunning := False\<rparr>"

text \<open>The first part of \<^verbatim>\<open>Tun2SocksLauncher.start\<close>, up to the descriptor being sent, and \<^verbatim>\<open>stop\<close>.\<close>

definition Tun2SocksLauncher_start ::
    "string \<Rightarrow> string \<Rightarrow> string \<Rightarrow> int \<Rightarrow> int \<Rightarrow> int \<Rightarrow> vpn_intent \<Rightarrow> vpn_service \<Rightarrow> vpn_service" where
  "Tun2SocksLauncher_start nativeDir filesDir sockPath fd socksPort dnsPort i v =
     v\<lparr>vp_relay := True, vp_calls := vp_calls v @
       [Vc_Relay_Start socksPort,
        Vc_Exec [nativeDir @ ''/libpdnsd.so'', ''-c'', filesDir @ ''/pdnsd.conf''],
        Vc_Exec (buildCommand filesDir (nativeDir @ ''/libtun2socks.so'') fd socksPort dnsPort (in_username i) (in_password i) (in_ipv6 i) (in_udpgw i) sockPath)]\<rparr>"

definition Tun2SocksLauncher_stop :: "string \<Rightarrow> vpn_service \<Rightarrow> vpn_service" where
  "Tun2SocksLauncher_stop filesDir v =
     v\<lparr>vp_relay := False, vp_calls := vp_calls v @
       [Vc_KillPidFile (filesDir @ ''/tun2socks.pid''), Vc_KillPidFile (filesDir @ ''/pdnsd.pid'')] @ (if vp_relay v then [Vc_Relay_Close] else [])\<rparr>"

definition SEND_FD_ATTEMPTS :: nat where "SEND_FD_ATTEMPTS = 10"

text \<open>The loop that sends the descriptor: every attempt returns a number, and the sleep after a failure may be
  interrupted.\<close>

fun send_fd :: "nat \<Rightarrow> (int \<times> bool) list \<Rightarrow> bool" where
  "send_fd 0 rs = False"
| "send_fd (Suc k) [] = False"
| "send_fd (Suc k) ((r, interrupted) # rs) = (if r = 0 then True else if interrupted then False else send_fd k rs)"

definition stopEverything :: "string \<Rightarrow> vpn_service \<Rightarrow> vpn_service" where
  "stopEverything filesDir v =
     (let v = Tun2SocksLauncher_stop filesDir v;
          v = v\<lparr>vp_sv := supervisor_stop (vp_sv v)\<rparr>
      in VpnServiceController_stop v)"

definition onStartCommand :: "vpn_intent option \<Rightarrow> int option \<Rightarrow> vpn_service \<Rightarrow> vpn_service" where
  "onStartCommand intent establish v =
     (case intent of
        None \<Rightarrow> v
      | Some i \<Rightarrow>
          let v = v\<lparr>vp_lastIntent := Some i\<rparr> in
          if vp_iface v \<noteq> None then v else VpnServiceController_configure establish v)"

definition startTun2Socks_1 :: "string \<Rightarrow> string \<Rightarrow> string \<Rightarrow> int \<Rightarrow> vpn_service \<Rightarrow> vpn_service" where
  "startTun2Socks_1 nativeDir filesDir sockPath dnsPort v =
     (let fd = vpn_fd v in
      if fd \<le> 0 then v else
      case vp_lastIntent v of
        None \<Rightarrow> v
      | Some i \<Rightarrow>
          (Tun2SocksLauncher_start nativeDir filesDir sockPath fd (sv_socksPort (sy_sup (vp_sv v))) dnsPort i v)\<lparr>vp_starting := True\<rparr>)"

definition startTun2Socks_2 :: "string \<Rightarrow> (int \<times> bool) list \<Rightarrow> vpn_service \<Rightarrow> vpn_service" where
  "startTun2Socks_2 filesDir results v =
     (if send_fd SEND_FD_ATTEMPTS results then v\<lparr>vp_isRunning := True\<rparr> else stopEverything filesDir v)\<lparr>vp_starting := False\<rparr>"

text \<open>What \<^verbatim>\<open>onCreate\<close> gives the supervisor to be run on the main thread when the client exits.\<close>

definition onUnexpectedExit :: "string \<Rightarrow> string \<Rightarrow> vpn_service \<Rightarrow> vpn_service" where
  "onUnexpectedExit filesDir message v =
     (let v = stopEverything filesDir v in v\<lparr>vp_calls := vp_calls v @ [Vc_Exited message]\<rparr>)"

definition startOpenFluxNative ::
    "string \<Rightarrow> string \<Rightarrow> string option \<Rightarrow> string list \<Rightarrow> string option \<Rightarrow> string + int \<Rightarrow> string option \<Rightarrow> string + int \<Rightarrow> vpn_service \<Rightarrow> vpn_service" where
  "startOpenFluxNative nativeDir keyDir transport args encryptionKey freePort keyFails exec v =
     (case transport of
        None \<Rightarrow> v
      | Some _ \<Rightarrow> v\<lparr>vp_sv := supervisor_start nativeDir keyDir args encryptionKey freePort keyFails exec (vp_sv v)\<rparr>)"

text \<open>The directories of the application, and the events of its service.\<close>

record app_dirs =
  ad_nativeLibraryDir :: string
  ad_noBackupFilesDir :: string
  ad_filesDir :: string
  ad_sock_path :: string

datatype vpn_event =
    Vp_Native "string option" "string list" "string option" "string + int" "string option" "string + int"
  | Vp_Sv sv_event
  | Vp_Intent "vpn_intent option" "int option"
  | Vp_StartTun int
  | Vp_SentFd "(int \<times> bool) list"
  | Vp_Stop
  | Vp_Main

fun vpn_step :: "app_dirs \<Rightarrow> vpn_event \<Rightarrow> vpn_service \<Rightarrow> vpn_service" where
  "vpn_step d (Vp_Native transport args key freePort keyFails exec) v =
     startOpenFluxNative (ad_nativeLibraryDir d) (ad_noBackupFilesDir d) transport args key freePort keyFails exec v"
| "vpn_step d (Vp_Sv e) v = v\<lparr>vp_sv := sv_step (ad_nativeLibraryDir d) (ad_noBackupFilesDir d) e (vp_sv v)\<rparr>"
| "vpn_step d (Vp_Intent intent establish) v = onStartCommand intent establish v"
| "vpn_step d (Vp_StartTun dnsPort) v =
     (if vp_starting v then v else startTun2Socks_1 (ad_nativeLibraryDir d) (ad_filesDir d) (ad_sock_path d) dnsPort v)"
| "vpn_step d (Vp_SentFd results) v = (if vp_starting v then startTun2Socks_2 (ad_filesDir d) results v else v)"
| "vpn_step d Vp_Stop v = stopEverything (ad_filesDir d) v"
| "vpn_step d Vp_Main v =
     (case sy_posted (vp_sv v) of
        [] \<Rightarrow> v
      | m # ms \<Rightarrow> onUnexpectedExit (ad_filesDir d) m (v\<lparr>vp_sv := (vp_sv v)\<lparr>sy_posted := ms\<rparr>\<rparr>))"

fun vpn_run :: "app_dirs \<Rightarrow> vpn_event list \<Rightarrow> vpn_service \<Rightarrow> vpn_service" where
  "vpn_run d [] v = v"
| "vpn_run d (e # es) v = vpn_run d es (vpn_step d e v)"

definition vpn_start :: vpn_service where
  "vpn_start = \<lparr>vp_sv = sv_start, vp_iface = None, vp_isRunning = False, vp_lastIntent = None, vp_relay = False, vp_starting = False, vp_calls = []\<rparr>"

section \<open>The invariant of the supervisor\<close>

definition key_ok :: "sv_sys \<Rightarrow> bool" where
  "key_ok s \<longleftrightarrow> (sy_key s = None \<or> sv_running (sy_sup s) \<and> \<not> sv_ready (sy_sup s))"

definition process_ok :: "sv_sys \<Rightarrow> bool" where
  "process_ok s \<longleftrightarrow>
     (case sv_process (sy_sup s) of
        None \<Rightarrow> \<not> sv_running (sy_sup s)
      | Some p \<Rightarrow> p < sy_next s \<and> \<not> sv_shuttingDown (sy_sup s) \<and> (sv_running (sy_sup s) \<longrightarrow> sy_watch s p \<notin> {W_Done, W_Destroy}))"

definition told_ok :: "sv_sys \<Rightarrow> bool" where
  "told_ok s \<longleftrightarrow>
     (\<forall>p \<in> set (sy_alive s). p < sy_next s \<and> (sv_process (sy_sup s) = Some p \<or> p \<in> set (sy_told s) \<or> sy_watch s p = W_Destroy))"

definition sv_ok :: "sv_sys \<Rightarrow> bool" where
  "sv_ok s \<longleftrightarrow> key_ok s \<and> process_ok s \<and> told_ok s"

lemma stop_ok: "sv_ok s \<Longrightarrow> sv_ok (supervisor_stop s)"
  by (auto simp: sv_ok_def key_ok_def process_ok_def told_ok_def supervisor_stop_def deleteKey_def destroy_def Let_def split: option.splits)

lemma fail_sel [simp]:
  "sy_key (supervisor_fail m s) = None" "sv_running (sy_sup (supervisor_fail m s)) = False" "sv_error (sy_sup (supervisor_fail m s)) = Some m"
  "sv_process (sy_sup (supervisor_fail m s)) = sv_process (sy_sup s)" "sv_shuttingDown (sy_sup (supervisor_fail m s)) = sv_shuttingDown (sy_sup s)"
  "sy_next (supervisor_fail m s) = sy_next s" "sy_watch (supervisor_fail m s) = sy_watch s" "sy_alive (supervisor_fail m s) = sy_alive s"
  "sy_told (supervisor_fail m s) = sy_told s"
  "sy_posted (supervisor_fail m s) = sy_posted s @ (if sv_shuttingDown (sy_sup s) then [] else [m])"
  by (simp_all add: supervisor_fail_def deleteKey_def Let_def)

lemma start_ok: "sv_ok s \<Longrightarrow> sv_ok (supervisor_start nativeDir keyDir payload key freePort keyFails exec s)"
  by (auto simp: sv_ok_def key_ok_def process_ok_def told_ok_def supervisor_start_def StaleProcesses_kill_def writeKey_def Let_def
      split: option.splits sum.splits)

lemma watch_ok: "sv_ok s \<Longrightarrow> p < sy_next s \<Longrightarrow> sv_ok (watch p s)"
  by (cases "sy_watch s p")
    (auto simp: sv_ok_def key_ok_def process_ok_def told_ok_def watch_def goto_def deleteKey_def destroy_def split: option.splits if_splits)

lemma sv_step_ok: "sv_ok s \<Longrightarrow> sv_ok (sv_step nativeDir keyDir e s)"
proof (cases e)
  case (Sv_Start payload key freePort keyFails exec)
  assume "sv_ok s"
  with Sv_Start show ?thesis using start_ok by simp
next
  case Sv_Stop
  assume "sv_ok s"
  with Sv_Stop show ?thesis using stop_ok by simp
next
  case (Sv_Watch p)
  assume "sv_ok s"
  with Sv_Watch show ?thesis using watch_ok by simp
qed (auto simp: sv_ok_def key_ok_def process_ok_def told_ok_def pumpOutput_def split: option.splits)

section \<open>Every event keeps it\<close>

lemma ok_posted: "sv_ok (s\<lparr>sy_posted := ms\<rparr>) = sv_ok s"
  by (simp add: sv_ok_def key_ok_def process_ok_def told_ok_def split: option.split)

lemma stopEverything_sv [simp]: "vp_sv (stopEverything f v) = supervisor_stop (vp_sv v)"
  by (simp add: stopEverything_def Tun2SocksLauncher_stop_def VpnServiceController_stop_def Let_def)

lemma vpn_step_ok: "sv_ok (vp_sv v) \<Longrightarrow> sv_ok (vp_sv (vpn_step d e v))"
proof (cases e)
  case (Vp_Sv x)
  assume "sv_ok (vp_sv v)"
  with Vp_Sv sv_step_ok show ?thesis by simp
qed (auto simp: startOpenFluxNative_def start_ok onStartCommand_def VpnServiceController_configure_def startTun2Socks_1_def Tun2SocksLauncher_start_def
      startTun2Socks_2_def stop_ok onUnexpectedExit_def ok_posted Let_def split: option.splits list.splits)

lemma sv_start_ok: "sv_ok sv_start"
  by (simp add: sv_ok_def key_ok_def process_ok_def told_ok_def sv_start_def)

lemma vpn_run_ok: "sv_ok (vp_sv v) \<Longrightarrow> sv_ok (vp_sv (vpn_run d es v))"
  by (induction es arbitrary: v) (simp_all add: vpn_step_ok del: vpn_step.simps)

lemma vpn_reachable_ok: "sv_ok (vp_sv (vpn_run d es vpn_start))"
  by (rule vpn_run_ok) (simp add: vpn_start_def sv_start_ok)

section \<open>The exit of the client\<close>

fun watch_steps :: "nat \<Rightarrow> nat \<Rightarrow> sv_sys \<Rightarrow> sv_sys" where
  "watch_steps 0 p s = s"
| "watch_steps (Suc k) p s = watch_steps k p (watch p s)"

definition failed :: "string list \<Rightarrow> sv_sys \<Rightarrow> bool" where
  "failed posted s \<longleftrightarrow> \<not> sv_running (sy_sup s) \<and> sy_key s = None \<and> sv_error (sy_sup s) \<noteq> None \<and> (\<exists>m. sy_posted s = posted @ [m])"

lemma failed_stays:
  assumes "failed ms s" "sy_watch s p = W_Done \<or> sy_watch s p = W_Destroy"
  shows "failed ms (watch_steps k p s)"
  using assms
proof (induction k arbitrary: s)
  case (Suc k)
  have "failed ms (watch p s)" "sy_watch (watch p s) p = W_Done \<or> sy_watch (watch p s) p = W_Destroy"
    using Suc.prems by (auto simp: watch_def goto_def destroy_def failed_def)
  then show ?case using Suc.IH by simp
qed simp

text \<open>How many steps a thread in \<^verbatim>\<open>watch\<close> has at most before the failure is reported, when its process is gone.\<close>

fun steps_left :: "watch_pc \<Rightarrow> nat" where
  "steps_left W_Probe = 6" | "steps_left W_Deadline = 5" | "steps_left W_Start = 5" | "steps_left W_Loop = 4" | "steps_left W_WaitFor = 3"
| "steps_left W_Exited = 2" | "steps_left W_Report = 1" | "steps_left W_Destroy = 0" | "steps_left W_Done = 0"

definition gone :: "nat \<Rightarrow> sv_sys \<Rightarrow> bool" where
  "gone p s \<longleftrightarrow> sv_process (sy_sup s) = Some p \<and> \<not> sv_shuttingDown (sy_sup s) \<and> p \<notin> set (sy_alive s)"

lemma watch_gone:
  assumes "gone p s" "sy_watch s p \<notin> {W_Done, W_Destroy}"
  shows "failed (sy_posted s) (watch p s) \<and> sy_watch (watch p s) p \<in> {W_Done, W_Destroy} \<or>
    gone p (watch p s) \<and> sy_posted (watch p s) = sy_posted s \<and> sy_watch (watch p s) p \<notin> {W_Done, W_Destroy} \<and>
      steps_left (sy_watch (watch p s) p) < steps_left (sy_watch s p)"
  using assms by (cases "sy_watch s p") (auto simp: gone_def watch_def goto_def deleteKey_def failed_def)

lemma gone_reported:
  assumes "gone p s" "sy_watch s p \<notin> {W_Done, W_Destroy}" "steps_left (sy_watch s p) \<le> k"
  shows "failed (sy_posted s) (watch_steps k p s)"
  using assms
proof (induction k arbitrary: s)
  case 0
  then show ?case by (cases "sy_watch s p") auto
next
  case (Suc k)
  from watch_gone [OF Suc.prems(1,2)] show ?case
  proof
    assume "failed (sy_posted s) (watch p s) \<and> sy_watch (watch p s) p \<in> {W_Done, W_Destroy}"
    then show ?case using failed_stays [of "sy_posted s" "watch p s" p k] by auto
  next
    assume "gone p (watch p s) \<and> sy_posted (watch p s) = sy_posted s \<and> sy_watch (watch p s) p \<notin> {W_Done, W_Destroy} \<and>
      steps_left (sy_watch (watch p s) p) < steps_left (sy_watch s p)"
    then show ?case using Suc.IH [of "watch p s"] Suc.prems(3) by auto
  qed
qed

lemma steps_left_le: "steps_left pc \<le> 6"
  by (cases pc) simp_all

text \<open>The main thread runs what was posted.\<close>

definition torn_down :: "vpn_service \<Rightarrow> bool" where
  "torn_down v \<longleftrightarrow> vp_iface v = None \<and> \<not> vp_isRunning v \<and> \<not> vp_relay v \<and> \<not> sv_running (sy_sup (vp_sv v)) \<and> \<not> sv_ready (sy_sup (vp_sv v)) \<and>
     sv_process (sy_sup (vp_sv v)) = None \<and> sy_key (vp_sv v) = None"

lemma stopEverything_down: "torn_down (stopEverything f v)"
  by (auto simp: torn_down_def stopEverything_def Tun2SocksLauncher_stop_def VpnServiceController_stop_def supervisor_stop_def deleteKey_def
      destroy_def Let_def split: option.splits)

lemma main_down:
  assumes "sy_posted (vp_sv v) \<noteq> []"
  shows "torn_down (vpn_step d Vp_Main v)" "\<exists>m. vp_calls (vpn_step d Vp_Main v) \<noteq> [] \<and> last (vp_calls (vpn_step d Vp_Main v)) = Vc_Exited m"
proof -
  obtain m ms where "sy_posted (vp_sv v) = m # ms" using assms by (cases "sy_posted (vp_sv v)") auto
  then show "torn_down (vpn_step d Vp_Main v)" "\<exists>m. vp_calls (vpn_step d Vp_Main v) \<noteq> [] \<and> last (vp_calls (vpn_step d Vp_Main v)) = Vc_Exited m"
    using stopEverything_down [of "ad_filesDir d" "v\<lparr>vp_sv := (vp_sv v)\<lparr>sy_posted := ms\<rparr>\<rparr>"]
    by (simp_all add: onUnexpectedExit_def Let_def torn_down_def)
qed

text \<open>A key that was stored normalised is not changed any more, and validity does not depend on the white space around it.\<close>

lemma trim_idem: "trim (trim s) = trim s"
proof -
  let ?t = "dropWhile isWhitespace s" and ?u = "rev (dropWhile isWhitespace (rev (dropWhile isWhitespace s)))"
  obtain w where w: "?t = ?u @ w" using takeWhile_dropWhile_id [of isWhitespace "rev ?t"] by (metis rev_append rev_rev_ident)
  have "dropWhile isWhitespace ?u = ?u"
  proof (cases "?u = []")
    case False
    then have "hd ?u = hd ?t" using w by (metis hd_append2)
    moreover have "\<not> isWhitespace (hd ?t)" using False w by (metis Nil_is_append_conv hd_dropWhile)
    ultimately show ?thesis using False by (metis dropWhile.simps(2) list.collapse)
  next
    case True
    then show ?thesis by (simp only: dropWhile.simps)
  qed
  then show ?thesis by (simp add: trim_def)
qed

lemma key_normalized:
  "EncryptionKey_normalize (EncryptionKey_normalize k) = EncryptionKey_normalize k" "EncryptionKey_isValid (EncryptionKey_normalize k) = EncryptionKey_isValid k"
  by (simp_all add: EncryptionKey_normalize_def EncryptionKey_isValid_def trim_idem)

section \<open>Properties\<close>


text \<open>
  C4: The exit of the client does not go unnoticed: whenever the client is running and its process is
  gone, the next six steps of its thread, if nothing else runs meanwhile, end with the failure recorded, the key removed and a message posted,
  and the main thread then closes the interface, the relay and everything else.
\<close>

theorem exit_tears_down:
  assumes "v = vpn_run d es vpn_start" "sv_running (sy_sup (vp_sv v))" "sv_process (sy_sup (vp_sv v)) = Some p" "p \<notin> set (sy_alive (vp_sv v))"
  shows "failed (sy_posted (vp_sv v)) (watch_steps 6 p (vp_sv v)) \<and> torn_down (vpn_step d Vp_Main (v\<lparr>vp_sv := watch_steps 6 p (vp_sv v)\<rparr>))"
proof -
  have "process_ok (vp_sv v)" using vpn_reachable_ok [of d es] assms(1) by (simp add: sv_ok_def)
  then have "gone p (vp_sv v)" "sy_watch (vp_sv v) p \<notin> {W_Done, W_Destroy}" using assms(2-4) by (auto simp: process_ok_def gone_def)
  then have "failed (sy_posted (vp_sv v)) (watch_steps 6 p (vp_sv v))" by (intro gone_reported steps_left_le)
  moreover from this have "torn_down (vpn_step d Vp_Main (v\<lparr>vp_sv := watch_steps 6 p (vp_sv v)\<rparr>))"
    by (intro main_down(1)) (auto simp: failed_def)
  ultimately show ?thesis ..
qed


definition sample_dirs :: app_dirs where
  "sample_dirs = \<lparr>ad_nativeLibraryDir = ''/lib'', ad_noBackupFilesDir = ''/nb'', ad_filesDir = ''/files'', ad_sock_path = ''/data/sock_path''\<rparr>"

lemmas run_defs = vpn_start_def sv_start_def startOpenFluxNative_def supervisor_start_def StaleProcesses_kill_def watch_def goto_def writeKey_def
  deleteKey_def supervisor_fail_def supervisor_stop_def destroy_def canConnect_def READY_TIMEOUT_MS_def Let_def

theorem exit_tears_down_witness:
  "\<exists>v. v = vpn_run sample_dirs [Vp_Native (Some ''max'') [] (Some ''secret'') (Inr 1080) None (Inr 1), Vp_Sv (Sv_Watch 0), Vp_Sv (Sv_Exit 0)] vpn_start \<and>
     failed [] (watch_steps 6 0 (vp_sv v)) \<and> torn_down (vpn_step sample_dirs Vp_Main (v\<lparr>vp_sv := watch_steps 6 0 (vp_sv v)\<rparr>))"
proof -
  let ?v = "vpn_run sample_dirs [Vp_Native (Some ''max'') [] (Some ''secret'') (Inr 1080) None (Inr 1), Vp_Sv (Sv_Watch 0), Vp_Sv (Sv_Exit 0)] vpn_start"
  have v: "sv_running (sy_sup (vp_sv ?v))" "sv_process (sy_sup (vp_sv ?v)) = Some 0" "0 \<notin> set (sy_alive (vp_sv ?v))" "sy_posted (vp_sv ?v) = []"
    by (simp_all add: run_defs)
  from exit_tears_down [OF refl v(1-3)] show ?thesis unfolding v(4) by (intro exI [of _ ?v]) (simp only:)
qed


text \<open>In the same way a thread between the condition of its loop and the probe marks a client as ready after \<^verbatim>\<open>stop\<close>.\<close>

theorem ready_after_stop:
  "(let s = vp_sv (vpn_run sample_dirs
        [Vp_Native (Some ''max'') [] None (Inr 1080) None (Inr 1), Vp_Sv (Sv_Watch 0), Vp_Sv (Sv_Watch 0), Vp_Sv (Sv_Listen 0), Vp_Stop,
         Vp_Sv (Sv_Watch 0)] vpn_start)
   in sv_ready (sy_sup s) \<and> \<not> sv_running (sy_sup s))"
  by (simp add: run_defs stopEverything_def Tun2SocksLauncher_stop_def VpnServiceController_stop_def)

text \<open>And a call of \<^verbatim>\<open>startTun2Socks\<close> that is under way when everything is stopped marks the VPN as running without an
  interface.\<close>

theorem running_after_stop:
  "(let v = vpn_run sample_dirs
        [Vp_Intent (Some \<lparr>in_username = None, in_password = None, in_ipv6 = False, in_udpgw = None\<rparr>) (Some 5), Vp_StartTun 5353, Vp_Stop,
         Vp_SentFd [(0, False)]] vpn_start
   in vp_isRunning v \<and> vp_iface v = None)"
  by (simp add: vpn_start_def onStartCommand_def VpnServiceController_configure_def startTun2Socks_1_def vpn_fd_def Tun2SocksLauncher_start_def
      stopEverything_def Tun2SocksLauncher_stop_def VpnServiceController_stop_def startTun2Socks_2_def SEND_FD_ATTEMPTS_def Let_def numeral_eq_Suc)

end
