(* ===== verification/Dns_Relay.thy ===== *)
theory Dns_Relay
  imports Socks_Client Net_Proto App_Commands
begin

text \<open>
  The relay of DNS over TCP through the tunnel: \<^verbatim>\<open>service/Socks5.kt\<close>, a SOCKS client of its own, and
  \<^verbatim>\<open>service/DnsTcpRelay.kt\<close>, with \<^verbatim>\<open>util/Routes.kt\<close>. A socket is the list of the bytes its peer sends; a read that
  finds fewer bytes than it needs ends with an exception, as does a write that fails. The SOCKS
  client is compared with the dialogue \<^verbatim>\<open>BSocksClient.c\<close> is proved to follow.
\<close>

section \<open>The SOCKS client\<close>

record InetSocketAddress =
  ia_address :: bytes
  ia_port :: int

datatype socks5_error = Needs_IPv4 | Io_Error | Refused_No_Auth | Connect_Failed u8

definition readFully :: "nat \<Rightarrow> bytes \<Rightarrow> (bytes \<times> bytes) option" where
  "readFully n input = (if n \<le> length input then Some (take n input, drop n input) else None)"

text \<open>The writes, and the error or what is left to read from the socket. \<^verbatim>\<open>connects\<close> is whether the proxy accepts the
  connection.\<close>

definition Socks5_connect :: "bool \<Rightarrow> InetSocketAddress \<Rightarrow> bytes \<Rightarrow> bytes list \<times> (socks5_error + bytes)" where
  "Socks5_connect connects target input =
     (if length (ia_address target) \<noteq> 4 then ([], Inl Needs_IPv4) else
      if \<not> connects then ([], Inl Io_Error) else
      let ip = ia_address target; hello = [5, 1, 0] in
      case readFully 2 input of
        None \<Rightarrow> ([hello], Inl Io_Error)
      | Some (meth, input) \<Rightarrow>
          if meth ! 0 \<noteq> 5 \<or> meth ! 1 \<noteq> 0 then ([hello], Inl Refused_No_Auth) else
          let port = ia_port target;
              request = [5, 1, 0, 1, ip ! 0, ip ! 1, ip ! 2, ip ! 3, word_of_int (drop_bit 8 port), word_of_int port]
          in case readFully 10 input of
            None \<Rightarrow> ([hello, request], Inl Io_Error)
          | Some (reply, input) \<Rightarrow>
              if reply ! 1 \<noteq> 0 then ([hello, request], Inl (Connect_Failed (reply ! 1)))
              else ([hello, request], Inr input))"

section \<open>The relay\<close>

definition DEFAULT_UPSTREAMS :: "InetSocketAddress list" where
  "DEFAULT_UPSTREAMS = [\<lparr>ia_address = [1, 1, 1, 1], ia_port = 53\<rparr>, \<lparr>ia_address = [8, 8, 8, 8], ia_port = 53\<rparr>]"

fun connectUpstream :: "(InetSocketAddress \<Rightarrow> socks5_error + bytes) \<Rightarrow> InetSocketAddress list \<Rightarrow> bytes option" where
  "connectUpstream connect [] = None"
| "connectUpstream connect (target # rest) =
     (case connect target of Inr socket \<Rightarrow> Some socket | Inl _ \<Rightarrow> connectUpstream connect rest)"

text \<open>
  One direction of a connection: what its source has sent and what of it is not read yet, what was
  written to the other socket, whether \<^verbatim>\<open>pump\<close> still runs or how it ended, and whether the output was shut
  down. \<^verbatim>\<open>copyTo\<close> reads at most its buffer and writes what it read.
\<close>

datatype pump_state = Pump_Running | Pump_Eof | Pump_Failed

record pump =
  pm_sent :: bytes
  pm_left :: bytes
  pm_got :: bytes
  pm_state :: pump_state
  pm_shutdownOutput :: bool

definition DEFAULT_BUFFER_SIZE :: nat where "DEFAULT_BUFFER_SIZE = 8192"

datatype pump_event = Pump_Copy nat | Pump_End | Pump_ReadError | Pump_WriteError nat

definition pump_step :: "pump_event \<Rightarrow> pump \<Rightarrow> pump" where
  "pump_step e d =
     (if pm_state d \<noteq> Pump_Running then d else
      case e of
        Pump_Copy n \<Rightarrow>
          let bytes = take (min n DEFAULT_BUFFER_SIZE) (pm_left d)
          in d\<lparr>pm_left := drop (length bytes) (pm_left d), pm_got := pm_got d @ bytes\<rparr>
      | Pump_End \<Rightarrow> if pm_left d = [] then d\<lparr>pm_state := Pump_Eof, pm_shutdownOutput := True\<rparr> else d
      | Pump_ReadError \<Rightarrow> d\<lparr>pm_state := Pump_Failed, pm_shutdownOutput := True\<rparr>
      | Pump_WriteError n \<Rightarrow> d\<lparr>pm_left := drop n (pm_left d), pm_state := Pump_Failed, pm_shutdownOutput := True\<rparr>)"

record relay_conn =
  rc_up :: pump
  rc_down :: pump
  rc_closed :: bool

definition new_pump :: "bytes \<Rightarrow> pump" where
  "new_pump input = \<lparr>pm_sent = input, pm_left = input, pm_got = [], pm_state = Pump_Running, pm_shutdownOutput = False\<rparr>"

text \<open>\<^verbatim>\<open>serve\<close>: without an upstream the client is closed at once; otherwise both directions are pumped, and both sockets
  are closed when the direction from the upstream has ended and the other one has too or does not in time.\<close>

definition serve :: "bytes option \<Rightarrow> relay_conn" where
  "serve upstream =
     (case upstream of
        None \<Rightarrow> \<lparr>rc_up = (new_pump [])\<lparr>pm_state := Pump_Failed\<rparr>, rc_down = (new_pump [])\<lparr>pm_state := Pump_Failed\<rparr>, rc_closed = True\<rparr>
      | Some input \<Rightarrow> \<lparr>rc_up = new_pump [], rc_down = new_pump input, rc_closed = False\<rparr>)"

datatype relay_event = Client_Sends bytes | Upstream_Sends bytes | Up pump_event | Down pump_event | Served bool

fun relay_step :: "relay_event \<Rightarrow> relay_conn \<Rightarrow> relay_conn" where
  "relay_step (Client_Sends bs) c = (if rc_closed c \<or> pm_state (rc_up c) = Pump_Eof then c else c\<lparr>rc_up := (rc_up c)\<lparr>pm_sent := pm_sent (rc_up c) @ bs, pm_left := pm_left (rc_up c) @ bs\<rparr>\<rparr>)"
| "relay_step (Upstream_Sends bs) c = (if rc_closed c \<or> pm_state (rc_down c) = Pump_Eof then c else c\<lparr>rc_down := (rc_down c)\<lparr>pm_sent := pm_sent (rc_down c) @ bs, pm_left := pm_left (rc_down c) @ bs\<rparr>\<rparr>)"
| "relay_step (Up e) c = c\<lparr>rc_up := pump_step (if rc_closed c then Pump_ReadError else e) (rc_up c)\<rparr>"
| "relay_step (Down e) c = c\<lparr>rc_down := pump_step (if rc_closed c then Pump_ReadError else e) (rc_down c)\<rparr>"
| "relay_step (Served timed_out) c =
     (if pm_state (rc_down c) \<noteq> Pump_Running \<and> (pm_state (rc_up c) \<noteq> Pump_Running \<or> timed_out) then c\<lparr>rc_closed := True\<rparr> else c)"

fun relay_run :: "relay_event list \<Rightarrow> relay_conn \<Rightarrow> relay_conn" where
  "relay_run [] c = c"
| "relay_run (e # es) c = relay_run es (relay_step e c)"

section \<open>Routes\<close>

definition digit_value :: "char \<Rightarrow> int option" where
  "digit_value c = (let n = (of_char c :: nat) in if 48 \<le> n \<and> n \<le> 57 then Some (int n - 48) else None)"

fun digits_value :: "int \<Rightarrow> string \<Rightarrow> int option" where
  "digits_value acc [] = Some acc"
| "digits_value acc (c # cs) = (case digit_value c of None \<Rightarrow> None | Some d \<Rightarrow> digits_value (10 * acc + d) cs)"

definition toIntOrNull :: "string \<Rightarrow> int option" where
  "toIntOrNull s =
     (case s of
        [] \<Rightarrow> None
      | c # cs \<Rightarrow>
          let signed = (c = CHR ''-'' \<or> c = CHR ''+'');
              body = (if signed then cs else s)
          in if body = [] then None else
             case digits_value 0 body of
               None \<Rightarrow> None
             | Some n \<Rightarrow> let v = (if c = CHR ''-'' then - n else n) in if - (2 ^ 31) \<le> v \<and> v < 2 ^ 31 then Some v else None)"

fun split :: "char \<Rightarrow> string \<Rightarrow> string list" where
  "split d [] = [[]]"
| "split d (c # cs) = (if c = d then [] # split d cs else case split d cs of p # ps \<Rightarrow> (c # p) # ps | [] \<Rightarrow> [[c]])"

text \<open>The routes given to the builder; \<^verbatim>\<open>simple_route\<close> is the list of the resource file.\<close>

definition route_of :: "string \<Rightarrow> (string \<times> int) option" where
  "route_of r =
     (case split (CHR ''/'') r of
        [network, p] \<Rightarrow>
          if startsWith network ''127'' then None else
          (case toIntOrNull p of None \<Rightarrow> None | Some n \<Rightarrow> if 0 \<le> n \<and> n \<le> 32 then Some (network, n) else None)
      | _ \<Rightarrow> None)"

definition addRoutes :: "string list \<Rightarrow> string option \<Rightarrow> (string \<times> int) list" where
  "addRoutes simple_route name =
     List.map_filter route_of (if name = Some ''chn'' then simple_route else [''0.0.0.0/0''])"

section \<open>The dialogue\<close>

text \<open>The address a request is for, as \<^verbatim>\<open>BSocksClient.c\<close> has it: address and port in network byte order.\<close>

definition target_addr :: "InetSocketAddress \<Rightarrow> BAddr" where
  "target_addr t = BAddr_IPv4 (badvpn_read_le32 (ia_address t)) (hton16 (word_of_int (ia_port t)))"

lemma ip_bytes: "length ip = 4 \<Longrightarrow> mem32 (badvpn_read_le32 ip) = [ip ! 0, ip ! 1, ip ! 2, ip ! 3]"
  using mem32_load [of ip] by (simp add: list_eq_iff_nth_eq nth_Cons' numeral_eq_Suc All_less_Suc)

lemma port_bytes: "mem16 (hton16 (word_of_int p)) = [word_of_int (drop_bit 8 p), word_of_int p]"
proof -
  have "ucast (drop_bit 8 (word_of_int p :: u16)) = (word_of_int (drop_bit 8 p) :: u8)" "ucast (word_of_int p :: u16) = (word_of_int p :: u8)"
    by (auto intro!: bit_word_eqI simp: bit_simps)
  then show ?thesis by (simp add: mem_hton badvpn_write_be16_def)
qed

lemma request_bytes:
  "length (ia_address t) = 4 \<Longrightarrow>
   request_message (target_addr t) = [5, 1, 0, 1, ia_address t ! 0, ia_address t ! 1, ia_address t ! 2, ia_address t ! 3,
     word_of_int (drop_bit 8 (ia_port t)), word_of_int (ia_port t)]"
  by (simp add: request_message_def target_addr_def ip_bytes port_bytes del: mem_hton)

lemma no_auth: "hello_message [BSocksClient_auth_none] = [5, 1, 0]" "auth_pick [BSocksClient_auth_none] m = (if m = 0 then Some BSocksClient_auth_none else None)"
  by (auto simp: hello_message_def auth_pick_def BSocksClient_auth_none_def SOCKS_METHOD_NO_AUTHENTICATION_REQUIRED_def uint_0_iff)

lemma no_auth_type: "ai_auth_type BSocksClient_auth_none = 0"
  by (simp add: BSocksClient_auth_none_def SOCKS_METHOD_NO_AUTHENTICATION_REQUIRED_def)

text \<open>
  C13: The SOCKS client of the application sends what the dialogue of the SOCKS client of \<^verbatim>\<open>tun2socks\<close> without
  authentication asks for, whatever the proxy answers; and when the reply has the version and an IPv4 address, it succeeds
  exactly when that dialogue does, leaving the bytes behind the reply to be read.
\<close>

theorem socks5_agrees:
  assumes "length (ia_address t) = 4"
  shows "fst (Socks5_connect True t input) = socks_messages [BSocksClient_auth_none] (target_addr t) input \<and>
    (12 \<le> length input \<and> input ! 2 = 5 \<and> input ! 5 = 1 \<longrightarrow>
       (if socks_verdict [BSocksClient_auth_none] (take 12 input) = Good then snd (Socks5_connect True t input) = Inr (drop 12 input)
        else \<exists>e. snd (Socks5_connect True t input) = Inl e))"
  using assms
  by (auto simp: Socks5_connect_def socks_messages_def readFully_def no_auth no_auth_type request_bytes socks_verdict_def reply_verdict_def Let_def
      split: option.splits if_splits)

definition dns_target :: InetSocketAddress where
  "dns_target = \<lparr>ia_address = [1, 1, 1, 1], ia_port = 53\<rparr>"

theorem socks5_agrees_witness:
  "Socks5_connect True dns_target [5, 0, 5, 0, 0, 1, 0, 0, 0, 0, 0, 0, 7] = ([[5, 1, 0], [5, 1, 0, 1, 1, 1, 1, 1, 0, 53]], Inr [7])"
  using socks5_agrees [of dns_target "[5, 0, 5, 0, 0, 1, 0, 0, 0, 0, 0, 0, 7]"]
  by (simp add: prod_eq_iff dns_target_def socks_verdict_def reply_verdict_def no_auth no_auth_type socks_messages_def request_bytes)

text \<open>
  C14: A reply that grants the request with an IPv6 address is taken as an IPv4 one: the last bytes of the
  address and the port are left in the socket and relayed as the start of the DNS answer.
\<close>

theorem socks5_ipv6_reply_misread:
  assumes "length (ia_address t) = 4" "length bound = 16"
  shows "socks_verdict [BSocksClient_auth_none] ([5, 0] @ [5, 0, 0, 4] @ bound @ [p, q]) = Good \<and>
    snd (Socks5_connect True t ([5, 0] @ [5, 0, 0, 4] @ bound @ [p, q] @ answer)) = Inr (drop 6 bound @ [p, q] @ answer)"
  using assms by (simp add: socks_verdict_def reply_verdict_def no_auth no_auth_type Socks5_connect_def readFully_def Let_def)

theorem socks5_ipv6_reply_misread_witness:
  "snd (Socks5_connect True dns_target ([5, 0] @ [5, 0, 0, 4] @ replicate 16 9 @ [1, 2] @ [7])) = Inr (replicate 10 9 @ [1, 2, 7])"
  using socks5_ipv6_reply_misread [of dns_target "replicate 16 9" 1 2 "[7]"] by (simp add: dns_target_def)

section \<open>The relay passes bytes on\<close>

definition pump_ok :: "pump \<Rightarrow> bool" where
  "pump_ok d \<longleftrightarrow> (\<exists>lost. pm_sent d = pm_got d @ lost @ pm_left d \<and> (pm_state d \<noteq> Pump_Failed \<longrightarrow> lost = [])) \<and>
     (pm_state d = Pump_Eof \<longrightarrow> pm_left d = []) \<and> pm_shutdownOutput d = (pm_state d \<noteq> Pump_Running)"

lemma take_drop_part: "take n xs @ drop (min (length xs) n) xs = xs"
  by (cases "length xs \<le> n") (simp_all add: min_def)

lemma pump_step_ok: "pump_ok d \<Longrightarrow> pump_ok (pump_step e d)"
proof (cases e)
  case (Pump_WriteError n)
  assume "pump_ok d"
  moreover have "\<exists>lost. pm_left d = lost @ drop n (pm_left d)" by (metis append_take_drop_id)
  ultimately show ?thesis using Pump_WriteError by (cases "pm_state d") (auto simp: pump_step_def pump_ok_def)
qed (auto simp: pump_step_def pump_ok_def Let_def take_drop_part)

definition conn_ok :: "relay_conn \<Rightarrow> bool" where
  "conn_ok c \<longleftrightarrow> pump_ok (rc_up c) \<and> pump_ok (rc_down c) \<and> (rc_closed c \<longrightarrow> pm_state (rc_down c) \<noteq> Pump_Running)"

lemma pump_step_stays: "pm_state d \<noteq> Pump_Running \<Longrightarrow> pump_step e d = d"
  by (simp add: pump_step_def)

lemma pump_sends_ok: "pump_ok d \<Longrightarrow> pm_state d \<noteq> Pump_Eof \<Longrightarrow> pump_ok (d\<lparr>pm_sent := pm_sent d @ bs, pm_left := pm_left d @ bs\<rparr>)"
  by (auto simp: pump_ok_def)

lemma relay_step_ok: "conn_ok c \<Longrightarrow> conn_ok (relay_step e c)"
  by (cases e) (auto simp: conn_ok_def pump_step_ok pump_sends_ok pump_step_stays)

lemma relay_run_ok: "conn_ok c \<Longrightarrow> conn_ok (relay_run es c)"
  by (induction es arbitrary: c) (simp_all add: relay_step_ok)



text \<open>The first upstream the handshake succeeds with is used.\<close>

lemma connectUpstream_first:
  "connectUpstream connect (us @ t # vs) = Some sock" if "connect t = Inr sock" "\<forall>u \<in> set us. \<exists>e. connect u = Inl e"
  using that by (induction us) auto

lemma connectUpstream_none: "connectUpstream connect ts = None \<longleftrightarrow> (\<forall>t \<in> set ts. \<exists>e. connect t = Inl e)"
  by (induction ts) (auto split: sum.splits)

text \<open>The routes given to the system are well formed and leave the loopback addresses alone.\<close>

lemma route_of_valid: "route_of r = Some (n, p) \<Longrightarrow> 0 \<le> p \<and> p \<le> 32 \<and> \<not> startsWith n ''127''"
  by (auto simp: route_of_def split: list.splits if_splits option.splits)

lemma routes_valid: "(n, p) \<in> set (addRoutes simple_route name) \<Longrightarrow> 0 \<le> p \<and> p \<le> 32 \<and> \<not> startsWith n ''127''"
  using route_of_valid by (fastforce simp: addRoutes_def List.map_filter_def split: if_splits)

lemma route_all: "addRoutes simple_route (Some ''all'') = [(''0.0.0.0'', 0)]"
  by (simp add: addRoutes_def List.map_filter_def route_of_def toIntOrNull_def digit_value_def startsWith_def)

end
