(* ===== verification/Spec2Isabelle.thy ===== *)
theory Spec2Isabelle
  imports Bsize Pending Flow_Interfaces Packet_Flow Fair_Queue Inactivity_Monitor Tun_Packets Tcp_Client Socks_Udp_Gw App_Commands Supervisor Dns_Relay
begin

text \<open>
  Verification of OpenFlux for Android: an application that starts a tunnel client, gives the
  traffic of the device to \<^verbatim>\<open>tun2socks\<close> and relays it through a SOCKS server. Paths below without a
  prefix are under \<^verbatim>\<open>src/app/src/main/jni/badvpn\<close>; Kotlin files are under \<^verbatim>\<open>src/app/src/main/java\<close>.

  \<^bold>\<open>The program.\<close> The Kotlin application stores tunnels as argument lists, starts the tunnel client and
  watches it, relays DNS over TCP through it, and starts \<^verbatim>\<open>tun2socks\<close> with a command line.
  \<^verbatim>\<open>tun2socks\<close> reads IP packets from the tun device. A DNS query is
  redirected to a local DNS server and its answer written back as if it came from the original
  address; any other UDP datagram goes to the UDP gateway client, or is rejected with ICMP when
  there is no gateway; the rest goes to lwIP, which ends TCP connections and calls the TCP client
  code, one SOCKS connection for each. The gateway client numbers pairs of addresses, frames
  messages with the packet protocol, and sends them through per-connection packet buffers, a fair
  queue, an inactivity monitor and a connector over a SOCKS connection that is made again when
  it fails. Everything runs in one thread on a reactor; components talk through interfaces whose
  calls are jobs of a queue.

  \<^bold>\<open>How it is modelled.\<close> A C structure is a record, an enumeration a datatype, a machine integer a word or
  an integer where the code relies on the absence of overflow, memory a list of bytes, a linked list
  a heap of nodes. A handler is a function from the state to the new state and the list of the calls
  it makes, in order. What a component calls and what calls it (its neighbours, the reactor, lwIP,
  \<^verbatim>\<open>malloc\<close>) is a system record with a step function; a call the contract of the callee forbids makes the
  run undefined (None), so that a theorem that runs are defined says that the component keeps the
  contracts. Answers of code outside are arguments. A theorem about all runs is proved with an
  invariant of the system (\<^verbatim>\<open>*_ok\<close>) that every event keeps.

  \<^bold>\<open>Theories.\<close>
  \<^item> \<^verbatim>\<open>Prelude\<close>: bytes, buffers accessed by position, words, \<^verbatim>\<open>misc/compare.h\<close>. \<^verbatim>\<open>Byteorder\<close>: \<^verbatim>\<open>misc/byteorder.h\<close>,
    \<^verbatim>\<open>misc/read_write_int.h\<close>. \<^verbatim>\<open>Bsize\<close>: \<^verbatim>\<open>misc/bsize.h\<close>, \<^verbatim>\<open>misc/balign.h\<close>, \<^verbatim>\<open>misc/minmax.h\<close>, refined to exact arithmetic on
    naturals with overflow as None.
  \<^item> \<^verbatim>\<open>Linked_List\<close>: \<^verbatim>\<open>structure/LinkedList0.h\<close>, \<^verbatim>\<open>LinkedList1.h\<close>, \<^verbatim>\<open>SLinkedList_impl.h\<close>; every operation refines one on
    lists. \<^verbatim>\<open>Pending\<close>: \<^verbatim>\<open>base/BPending.c\<close>; the job queue is a stack.
  \<^item> \<^verbatim>\<open>Chunk_Buffer\<close>, \<^verbatim>\<open>Packet_Buffer\<close>: \<^verbatim>\<open>structure/ChunkBuffer2.h\<close>, \<^verbatim>\<open>flow/PacketBuffer.c\<close>; packets pass unchanged, in
    order and without stalling.
  \<^item> \<^verbatim>\<open>Flow_Interfaces\<close>: \<^verbatim>\<open>flow/*Interface.c\<close>; both sides of an interface see every operation once. \<^verbatim>\<open>Packet_Flow\<close>:
    \<^verbatim>\<open>flow/PacketStreamSender.c\<close>, \<^verbatim>\<open>SinglePacketBuffer.c\<close>, \<^verbatim>\<open>PacketPassConnector.c\<close>, \<^verbatim>\<open>BufferWriter.c\<close>, \<^verbatim>\<open>PacketProtoFlow.c\<close>.
    \<^verbatim>\<open>Packet_Proto\<close>: the framing; decoding any fragmentation of a stream gives its packets. \<^verbatim>\<open>Fair_Queue\<close>:
    \<^verbatim>\<open>flow/PacketPassFairQueue.c\<close>; a flow that sent least is next, and the times are exact under rebasing.
    \<^verbatim>\<open>Inactivity_Monitor\<close>: \<^verbatim>\<open>flowextra/PacketPassInactivityMonitor.c\<close>; a report means an interval without packets.
  \<^item> \<^verbatim>\<open>Parse_Number\<close>, \<^verbatim>\<open>Ip_Addr\<close>, \<^verbatim>\<open>Ip_Addr6\<close>, \<^verbatim>\<open>Addr\<close>: \<^verbatim>\<open>misc/parse_number.h\<close>, \<^verbatim>\<open>misc/ipaddr.h\<close>, \<^verbatim>\<open>misc/ipaddr6.h\<close>,
    \<^verbatim>\<open>system/BAddr.h\<close>; parsing inverts printing, and addresses are totally ordered. \<^verbatim>\<open>Net_Proto\<close>:
    \<^verbatim>\<open>misc/ipv4_proto.h\<close>, \<^verbatim>\<open>ipv6_proto.h\<close>, \<^verbatim>\<open>udp_proto.h\<close>; the header checks and checksums against their definitions.
  \<^item> \<^verbatim>\<open>Tun_Packets\<close>: the path of packets between the device, lwIP and the gateway in \<^verbatim>\<open>tun2socks/tun2socks.c\<close>.
    \<^verbatim>\<open>Socks_Client\<close>: \<^verbatim>\<open>socksclient/BSocksClient.c\<close>; the handshake. \<^verbatim>\<open>Tcp_Client\<close>: the TCP clients of \<^verbatim>\<open>tun2socks.c\<close>; both
    directions are relayed exactly. \<^verbatim>\<open>Udp_Gw_Client\<close>: \<^verbatim>\<open>udpgw_client/UdpGwClient.c\<close>; it refines a table with
    reuse of the least recently used entry. \<^verbatim>\<open>Socks_Udp_Gw\<close>: \<^verbatim>\<open>tun2socks/SocksUdpGwClient.c\<close>, on top of both.
  \<^item> \<^verbatim>\<open>Tun_Options\<close>: the command line of \<^verbatim>\<open>tun2socks.c\<close>. \<^verbatim>\<open>App_Commands\<close>: \<^verbatim>\<open>data/TransportType.kt\<close>,
    \<^verbatim>\<open>data/TunnelPayload.kt\<close>, \<^verbatim>\<open>service/NativeArgs.kt\<close> and the command of \<^verbatim>\<open>service/Tun2SocksLauncher.kt\<close>.
  \<^item> \<^verbatim>\<open>Supervisor\<close>: \<^verbatim>\<open>service/NativeProcessSupervisor.kt\<close>, \<^verbatim>\<open>StaleProcesses.kt\<close>, \<^verbatim>\<open>data/EncryptionKey.kt\<close> and the state of
    \<^verbatim>\<open>service/SocksVpnService.kt\<close>, with the interleavings of their threads; once its watcher runs, the exit of
    the client ends the VPN, and the key file, if it can be deleted, is there only while the client is starting; a watcher
    of an earlier run can end a later one. \<^verbatim>\<open>Dns_Relay\<close>: \<^verbatim>\<open>service/Socks5.kt\<close>, \<^verbatim>\<open>service/DnsTcpRelay.kt\<close>, \<^verbatim>\<open>util/Routes.kt\<close>; the
    relay passes both directions on exactly, and its handshake agrees with the one of \<^verbatim>\<open>Socks_Client\<close>
    on replies with an IPv4 address; one with an IPv6 address is misread.
  \<^item> This theory: what spans components. The command line the application builds is the configuration
    \<^verbatim>\<open>tun2socks\<close> runs with, and a UDP datagram of the device gets its answer through the gateway.

  \<^bold>\<open>Bounds and termination.\<close> Loops are structural recursions or functions with a measure: over the bytes
  of a buffer, the nodes of a list, the arguments of a command line, the connections left to free.
  \<^verbatim>\<open>find_unused_conid\<close>, which may run forever, is a partial function; its result is proved to exist in
  every reachable state with room. No theorem has a bound on the length of a run; \<^verbatim>\<open>udp_end_to_end\<close>
  has the bound the code has, fewer events than connections between a datagram and its answer.

  \<^bold>\<open>Not modelled.\<close> lwIP and pdnsd, vendored third-party programs, are parameters or outside. The other
  programs of the BadVPN tree are not built by \<^verbatim>\<open>Android.mk\<close>. The reactor, sockets, signals, the device and
  the log are calls of the operating system; \<^verbatim>\<open>main\<close> and \<^verbatim>\<open>lwip_init_job_hadler\<close> only set these up. The balanced
  tree \<^verbatim>\<open>structure/BAVL.h\<close> shows only in the nodes it holds. The user interface, storage, the options
  of the VPN builder and the notifications of the application are calls of the Android framework;
  descriptor passing is system calls. In \<^verbatim>\<open>Supervisor\<close> the functions \<^verbatim>\<open>start\<close> and \<^verbatim>\<open>stop\<close> are single steps, so that
  races inside them are not covered, and the key file can always be deleted. The \<^verbatim>\<open>ANDROID_UDP\<close> branch of the
  gateway is not compiled. Time is modelled only in the inactivity
  monitor and in the supervisor; elsewhere a timer is an event that may happen while it is set.
\<close>

unbundle bit_operations_syntax

section \<open>The application and tun2socks\<close>

text \<open>
  C1: The command line the application builds is accepted by \<^verbatim>\<open>tun2socks\<close> and stands for the
  configuration meant: the addresses and the netmask of the interface, the proxy on the loopback
  address with the given port, the DNS gateway with its port, the descriptor, the MTU and the
  credentials, for every username, password, path and port, when numeric hosts are converted as
  documented and the address of the UDP gateway, if there is one, can be parsed.
\<close>

theorem tun2socks_configured:
  assumes "numeric_hosts getaddrinfo False" "0 < fd" "fd < 2 ^ 31" "0 \<le> socksPort" "socksPort < 65536" "0 \<le> dnsPort" "dnsPort < 65536"
    and "case udpgw of None \<Rightarrow> udpgw_addr = None | Some a \<Rightarrow> parse_addr getaddrinfo a = udpgw_addr \<and> udpgw_addr \<noteq> None"
    and "length (tf_netif_ip6addr cfg) = 16"
  shows "\<exists>opt. parse_arguments channels o0 (buildCommand filesDir bin fd socksPort dnsPort user passwd ipv6 udpgw sockPath) = Some opt \<and>
    \<not> op_help opt \<and> \<not> op_version opt \<and> op_tun_fd opt = fd \<and> op_tun_mtu opt = 1500 \<and> op_loglevel opt = BLOG_NOTICE \<and>
    op_pid opt = Some (filesDir @ ''/tun2socks.pid'') \<and> op_sock opt = Some sockPath \<and>
    process_arguments getaddrinfo read_file opt cfg = Some (command_config socksPort dnsPort user passwd ipv6 udpgw_addr cfg)"
  using command_parsed [OF assms(2,3)] command_processed [OF assms(1,4-9)]
  by (simp add: command_options_of_def default_options_def TUN_MTU_def)

text \<open>A resolver for the witness: it converts dotted addresses and knows no names.\<close>

definition dotted_only :: "bool \<Rightarrow> bool \<Rightarrow> string \<Rightarrow> bytes option" where
  "dotted_only ipv6 noresolve s = (if ipv6 then None else map_option mem32 (ipaddr_parse_ipv4_addr_bin s 0))"

definition zero_config :: tun_config where
  "zero_config = \<lparr>tf_netif_ipaddr = BIPAddr_None, tf_netif_netmask = BIPAddr_None, tf_netif_ip6addr = replicate 16 0,
     tf_socks_server_addr = BAddr_None, tf_socks_auth_info = [], tf_udpgw_remote_server_addr = BAddr_None, tf_dnsgw = BAddr_None\<rparr>"

theorem tun2socks_configured_witness:
  "\<exists>opt. parse_arguments [] no_options (buildCommand ''/f'' ''t'' 7 1080 5353 (Some ''u'') None True None ''/s'') = Some opt \<and> op_tun_fd opt = 7 \<and>
     process_arguments dotted_only (\<lambda>f. None) opt zero_config = Some (command_config 1080 5353 (Some ''u'') None True None zero_config)"
proof -
  have "numeric_hosts dotted_only False" by (simp add: numeric_hosts_def dotted_only_def parse_print_addr)
  from tun2socks_configured [OF this, of 7 1080 5353 None None zero_config "[]" no_options "''/f''" "''t''" "Some ''u''" None True "''/s''" "\<lambda>f. None"]
  show ?thesis by (auto simp: zero_config_def)
qed

section \<open>The device and the UDP gateway\<close>

lemma submitted_family:
  "process_device_udp_packet env pkt ts = (ts', [Tun_SubmitPacket l r is_dns data], b) \<Longrightarrow> env_udpgw env \<Longrightarrow> same_family l r"
  by (auto simp: process_device_udp_packet_def same_family_def BAddr_MakeIPv4_def BAddr_MakeIPv6_def ipv6_check_def ipv6_header_load_def Let_def
      split: option.splits if_splits)

text \<open>
  C2: UDP end to end: when a datagram read from the device is submitted and sent to the gateway, and fewer
  events than the maximum of connections happen until the server answers with the identifier and
  the address of the message, the answer is written to the device as one packet which, read as a
  datagram, goes from the remote address to the sender and carries the answer.
\<close>

theorem udp_end_to_end:
  assumes init: "ug_init_ok (env_udp_mtu env) n ug" "SocksUdpGwClient_Init True socks_init junk (env_udp_mtu env) n = Some (ug, sg, calls)"
    and run: "Option.bind (sg_handle (sg, calls) (sg_start ug sg)) (sg_run es) = Some s"
    and dev: "env_udpgw env" "env_ip6addr env" "process_device_udp_packet env pkt ts = (ts', [Tun_SubmitPacket l r is_dns data], True)"
    and sub: "sg_step (Sg_Submit answers l r is_dns data) s = Some s'" "uy_sent (sx_gw s') = uy_sent (sx_gw s) @ [m]"
    and later: "sg_run fs s' = Some t" "int (length fs) < min n 65536" "uy_server (sx_gw t)"
    and reply: "f AND UDPGW_CLIENT_FLAG_IPV6 = 0" "int (length answer) \<le> env_udp_mtu env"
      "int (udp_overhead l + length answer) \<le> env_mtu env" "udp_overhead l + length answer \<le> 65535" "length (ts_write_buf ts') = nat (env_mtu env)"
  shows "\<exists>flags c t' p ts2 is_dns2. m = udpgw_message flags c r data \<and> sg_step (Sg_Reply (udpgw_message f c r answer)) t = Some t' \<and>
    sx_received t' = sx_received t @ [(l, r, answer)] \<and> udpgw_client_handler_received env l r answer ts' = (ts2, [Tun_BTap_Send p]) \<and>
    process_device_udp_packet env p u = (u, [Tun_SubmitPacket r l is_dns2 answer], True)"
proof -
  from sg_start_ok(2) [OF init, of sg] obtain s0 gs where s0: "sg_handle (sg, calls) (sg_start ug sg) = Some s0" "sg_ok s0"
    "ug_run gs (ug_start ug) = Some (sx_gw s0)" by (auto simp: sg_good_def sg_start_def split: option.splits)
  from sg_run_ok [OF s0(2), of es] run s0(1) obtain hs where s: "sg_ok s" "ug_run hs (sx_gw s0) = Some (sx_gw s)" by (auto simp: sg_good_def)
  have "ug_run (gs @ hs) (ug_start ug) = Some (sx_gw s)" using s0(3) s(2) by (simp add: ug_run_append)
  then have num: "ug_max_connections (uy_client (sx_gw s)) = min n 65536" "ug_udp_mtu (uy_client (sx_gw s)) = env_udp_mtu env"
    using ug_run_ok [OF ug_start_ok(1) [OF init(1)], of "gs @ hs"] ug_start_ok(3,4) [OF init(1)] by (auto simp: ug_start_def)
  have fam: "same_family l r" by (rule submitted_family [OF dev(3,1)])
  have "int (length fs) < ug_max_connections (uy_client (sx_gw s))" "int (length answer) \<le> ug_udp_mtu (uy_client (sx_gw s))"
    using later(2) reply(2) num by simp_all
  from socks_reply_reaches [OF s(1) sub later(1) this(1) later(3) reply(1) this(2)]
    udp_written_readable [OF fam reply(3,4,2) dev(1,2) reply(5), of u] show ?thesis by blast
qed


lemma the_init_40: "ug_init_ok 40 2 (the (UdpGwClient_Init True 40 2))"
  by (simp add: ug_init_ok_def UdpGwClient_Init_def compute_mtu INT_MAX_def Let_def)

lemma sg_init_40:
  "SocksUdpGwClient_Init True True False 40 2 =
     Some (the (UdpGwClient_Init True 40 2), \<lparr>sg_have_socks = True, sg_socks_up = False\<rparr>, [Sg_SocksClient_Init])"
  by (simp add: SocksUdpGwClient_Init_def UdpGwClient_Init_def try_connect_def Let_def)

lemma sg_run_40:
  "\<exists>s s' m t. Option.bind (sg_handle (\<lparr>sg_have_socks = True, sg_socks_up = False\<rparr>, [Sg_SocksClient_Init])
        (sg_start (the (UdpGwClient_Init True 40 2)) \<lparr>sg_have_socks = True, sg_socks_up = False\<rparr>)) (sg_run [Sg_Socks True BSOCKSCLIENT_EVENT_UP]) = Some s \<and>
     sg_step (Sg_Submit (Some 0, True, True) (BAddr_IPv4 3 4) (BAddr_IPv4 1 2) is_dns [5, 6]) s = Some s' \<and> uy_sent (sx_gw s') = uy_sent (sx_gw s) @ [m] \<and>
     sg_run [Sg_Inactive] s' = Some t \<and> uy_server (sx_gw t) \<and> sx_received t = []"
  by (simp add: sg_handle_def sg_start_def socks_client_handler_def SocksUdpGwClient_SubmitPacket_def with_gw_def
      UdpGwClient_Init_def Let_def UINT16_MAX_def ug_start_def UdpGwClient_ConnectServer_def ug_handle_def compute_mtu INT_MAX_def addr_ok_def
      UdpGwClient_SubmitPacket_def find_connection_by_conaddr_def connection_init_def find_unused_conid.simps find_connection_by_conid_def
      insert_by_conaddr_def insert_by_conid_def first_job_def connection_first_job_handler_def connection_send_def udpgw_header_def udpgw_addr_ipv4_def
      send_monitor_handler_def)

theorem udp_end_to_end_witness:
  "\<exists>pkt t c t' p ts2. process_device_udp_packet sample_env pkt sample_state = (sample_state, [Tun_SubmitPacket (BAddr_IPv4 3 4) (BAddr_IPv4 1 2) False [5, 6]], True) \<and>
     sg_step (Sg_Reply (udpgw_message 0 c (BAddr_IPv4 1 2) [9])) t = Some t' \<and> sx_received t' = [(BAddr_IPv4 3 4, BAddr_IPv4 1 2, [9])] \<and>
     udpgw_client_handler_received sample_env (BAddr_IPv4 3 4) (BAddr_IPv4 1 2) [9] sample_state = (ts2, [Tun_BTap_Send p])"
proof -
  have env: "env_udpgw sample_env" "env_ip6addr sample_env" "env_udp_mtu sample_env = 40" "env_mtu sample_env = 60" "length (ts_write_buf sample_state) = 60"
    by (simp_all add: sample_env_def sample_state_def)
  obtain pkt is_dns where pkt: "process_device_udp_packet sample_env pkt sample_state =
      (sample_state, [Tun_SubmitPacket (BAddr_IPv4 3 4) (BAddr_IPv4 1 2) is_dns [5, 6]], True)"
    using udp_written_readable [of "BAddr_IPv4 1 2" "BAddr_IPv4 3 4" "[5, 6]" sample_env sample_state sample_state] env
    by (auto simp: same_family_def udp_overhead_def)
  obtain s s' m t where s: "Option.bind (sg_handle (\<lparr>sg_have_socks = True, sg_socks_up = False\<rparr>, [Sg_SocksClient_Init])
        (sg_start (the (UdpGwClient_Init True 40 2)) \<lparr>sg_have_socks = True, sg_socks_up = False\<rparr>)) (sg_run [Sg_Socks True BSOCKSCLIENT_EVENT_UP]) = Some s"
     "sg_step (Sg_Submit (Some 0, True, True) (BAddr_IPv4 3 4) (BAddr_IPv4 1 2) is_dns [5, 6]) s = Some s'" "uy_sent (sx_gw s') = uy_sent (sx_gw s) @ [m]"
     "sg_run [Sg_Inactive] s' = Some t" "uy_server (sx_gw t)" "sx_received t = []"
    using sg_run_40 by blast
  have "\<not> is_dns" using pkt by (auto simp: process_device_udp_packet_def sample_env_def split: option.splits if_splits)
  with udp_end_to_end [of sample_env, unfolded env(3), OF the_init_40 sg_init_40 s(1) env(1,2) pkt s(2-4) _ s(5), of 0 "[9]"] pkt s(6) env
  show ?thesis by (fastforce simp: udp_overhead_def simp del: sg_step.simps)
qed

end
